(* ===== verification/Prelude.thy ===== *)
theory Prelude
  imports Main "HOL-Library.Word" "HOL-Library.Sublist"
begin

text \<open>
  The parts of Go's runtime and standard library that every component of the proxy uses:
  64-bit integers and durations, readings of the clock, and the functions of the packages
  \<open>strings\<close> and \<open>strconv\<close> on byte strings. A Go string is a sequence of bytes, so it is a
  \<^typ>\<open>string\<close> here, one \<^typ>\<open>char\<close> per byte. Case folding and white space are those of the
  ASCII bytes (every other byte is left as it is): the development speaks about strings
  whose letters and spaces are ASCII.
\<close>

named_theorems go_str \<open>facts about the string functions\<close>
named_theorems go_int \<open>facts about 64-bit integers and durations\<close>
named_theorems inv_intros \<open>invariants: established and preserved\<close>

section \<open>Integers, durations and the clock\<close>

text \<open>
  \<open>int64\<close> values are integers in \<open>[-2^63, 2^63)\<close>; an arithmetic operation of the source is
  followed by \<open>wrap64\<close> wherever it can leave that range. A \<open>time.Duration\<close> is an \<open>int64\<close>
  number of nanoseconds; a \<open>time.Time\<close> is a reading of the clock, an integer number of
  nanoseconds, on which \<open>Sub\<close> saturates and \<open>Add\<close> is exact.
\<close>

type_synonym int64 = int
type_synonym duration = int
type_synonym time = int

definition max_int64 :: int64 where
  "max_int64 = 9223372036854775807"

definition min_int64 :: int64 where
  "min_int64 = - 9223372036854775808"

definition is_int64 :: "int \<Rightarrow> bool" where
  "is_int64 x \<longleftrightarrow> min_int64 \<le> x \<and> x \<le> max_int64"

definition wrap64 :: "int \<Rightarrow> int64" where
  "wrap64 x = (x + 9223372036854775808) mod 18446744073709551616 - 9223372036854775808"

definition go_div :: "int64 \<Rightarrow> int64 \<Rightarrow> int64" where
  "go_div a b = wrap64 (sgn a * sgn b * (\<bar>a\<bar> div \<bar>b\<bar>))"

definition second :: duration where
  "second = 1000000000"

definition time_sub :: "time \<Rightarrow> time \<Rightarrow> duration" where
  "time_sub t u = max min_int64 (min max_int64 (t - u))"

definition time_add :: "time \<Rightarrow> duration \<Rightarrow> time" where
  "time_add t d = t + d"

lemma wrap64_id [go_int]: "is_int64 x \<Longrightarrow> wrap64 x = x"
  by (simp add: wrap64_def is_int64_def min_int64_def max_int64_def)

lemma is_int64_wrap64 [go_int]: "is_int64 (wrap64 x)"
proof -
  have "0 \<le> (x + 9223372036854775808) mod 18446744073709551616"
    "(x + 9223372036854775808) mod 18446744073709551616 < 18446744073709551616"
    by simp_all
  then show ?thesis
    by (simp add: wrap64_def is_int64_def min_int64_def max_int64_def)
qed

lemma is_int64_time_sub [go_int]: "is_int64 (time_sub t u)"
  by (simp add: time_sub_def is_int64_def min_int64_def max_int64_def)

lemma time_sub_less_iff [go_int]:
  "is_int64 d \<Longrightarrow> min_int64 < d \<Longrightarrow> time_sub t u < d \<longleftrightarrow> t - u < d"
  by (auto simp: time_sub_def is_int64_def)

lemma time_sub_exact [go_int]: "is_int64 (t - u) \<Longrightarrow> time_sub t u = t - u"
  by (simp add: time_sub_def is_int64_def)

section \<open>Package strings\<close>

definition lower_char :: "char \<Rightarrow> char" where
  "lower_char c = (if 65 \<le> (of_char c :: nat) \<and> (of_char c :: nat) \<le> 90
     then char_of (of_char c + 32 :: nat) else c)"

definition upper_char :: "char \<Rightarrow> char" where
  "upper_char c = (if 97 \<le> (of_char c :: nat) \<and> (of_char c :: nat) \<le> 122
     then char_of (of_char c - 32 :: nat) else c)"

definition to_lower :: "string \<Rightarrow> string" where
  "to_lower s = map lower_char s"

definition to_upper :: "string \<Rightarrow> string" where
  "to_upper s = map upper_char s"

definition is_space :: "char \<Rightarrow> bool" where
  "is_space c \<longleftrightarrow> (of_char c :: nat) = 32 \<or> 9 \<le> (of_char c :: nat) \<and> (of_char c :: nat) \<le> 13"

definition trim_with :: "(char \<Rightarrow> bool) \<Rightarrow> string \<Rightarrow> string" where
  "trim_with p s = rev (dropWhile p (rev (dropWhile p s)))"

definition trim_space :: "string \<Rightarrow> string" where
  "trim_space s = trim_with is_space s"

definition trim_set :: "string \<Rightarrow> string \<Rightarrow> string" where
  "trim_set s cutset = trim_with (\<lambda>c. c \<in> set cutset) s"

definition has_prefix :: "string \<Rightarrow> string \<Rightarrow> bool" where
  "has_prefix s p \<longleftrightarrow> take (length p) s = p"

definition has_suffix :: "string \<Rightarrow> string \<Rightarrow> bool" where
  "has_suffix s p \<longleftrightarrow> has_prefix (rev s) (rev p)"

definition trim_suffix :: "string \<Rightarrow> string \<Rightarrow> string" where
  "trim_suffix s p = (if has_suffix s p then take (length s - length p) s else s)"

definition trim_prefix :: "string \<Rightarrow> string \<Rightarrow> string" where
  "trim_prefix s p = (if has_prefix s p then drop (length p) s else s)"

primrec contains :: "string \<Rightarrow> string \<Rightarrow> bool" where
  "contains [] sub \<longleftrightarrow> sub = []"
| "contains (c # s) sub \<longleftrightarrow> has_prefix (c # s) sub \<or> contains s sub"

definition contains_any :: "string \<Rightarrow> string \<Rightarrow> bool" where
  "contains_any s chars \<longleftrightarrow> list_ex (\<lambda>c. c \<in> set chars) s"

text \<open>\<open>strings.Split\<close> with a one-byte separator: never empty, \<open>Split "" sep\<close> is \<open>[""]\<close>.\<close>

primrec split_on :: "char \<Rightarrow> string \<Rightarrow> string list" where
  "split_on sep [] = [[]]"
| "split_on sep (c # s) =
     (if c = sep then [] # split_on sep s
      else (case split_on sep s of [] \<Rightarrow> [[c]] | p # ps \<Rightarrow> (c # p) # ps))"

text \<open>\<open>strings.SplitN s sep 2\<close>: cut at the first separator only.\<close>

definition split_n2 :: "char \<Rightarrow> string \<Rightarrow> string list" where
  "split_n2 sep s = (case dropWhile (\<lambda>c. c \<noteq> sep) s of
     [] \<Rightarrow> [s] | _ # rest \<Rightarrow> [takeWhile (\<lambda>c. c \<noteq> sep) s, rest])"

fun join :: "string \<Rightarrow> string list \<Rightarrow> string" where
  "join sep [] = []"
| "join sep [s] = s"
| "join sep (s # t # ss) = s @ sep @ join sep (t # ss)"

text \<open>\<open>strings.EqualFold\<close>.\<close>

definition equal_fold :: "string \<Rightarrow> string \<Rightarrow> bool" where
  "equal_fold s t \<longleftrightarrow> to_lower s = to_lower t"

lemma length_to_lower [simp]: "length (to_lower s) = length s"
  by (simp add: to_lower_def)

lemma has_prefix_iff [go_str]: "has_prefix s p \<longleftrightarrow> (\<exists>t. s = p @ t)"
proof
  assume "has_prefix s p"
  then have "s = p @ drop (length p) s"
    unfolding has_prefix_def by (metis append_take_drop_id)
  then show "\<exists>t. s = p @ t" ..
qed (auto simp: has_prefix_def)

lemma has_suffix_iff [go_str]: "has_suffix s p \<longleftrightarrow> (\<exists>t. s = t @ p)"
proof
  assume "has_suffix s p"
  then obtain t where "rev s = rev p @ t" by (auto simp: has_suffix_def has_prefix_iff)
  then have "rev (rev s) = rev (rev p @ t)" by (rule arg_cong)
  then show "\<exists>t. s = t @ p" by auto
qed (auto simp: has_suffix_def has_prefix_iff)

lemma contains_iff [go_str]: "contains s sub \<longleftrightarrow> (\<exists>a b. s = a @ sub @ b)"
proof (induction s)
  case Nil
  then show ?case by auto
next
  case (Cons c s)
  have "(\<exists>a b. c # s = a @ sub @ b) \<longleftrightarrow>
      (\<exists>b. c # s = sub @ b) \<or> (\<exists>a b. s = a @ sub @ b)"
    by (metis append_Cons append_Nil neq_Nil_conv list.inject)
  with Cons show ?case by (simp add: has_prefix_iff)
qed

lemma split_on_nonempty [simp]: "split_on sep s \<noteq> []"
  by (cases s) (auto split: list.splits)

lemma join_Cons [go_str]: "join sep (p # ps) = (if ps = [] then p else p @ sep @ join sep ps)"
  by (cases ps) simp_all

lemma join_split_on [go_str]: "join [sep] (split_on sep s) = s"
proof (induction s)
  case (Cons c s)
  then show ?case
    by (cases "split_on sep s") (auto simp: join_Cons)
qed simp

lemma split_on_no_sep [go_str]: "p \<in> set (split_on sep s) \<Longrightarrow> sep \<notin> set p"
  by (induction s arbitrary: p) (auto split: list.splits if_splits)

lemma split_on_append: "split_on c (a @ c # b) = split_on c a @ split_on c b"
  by (induction a) (auto split: list.splits simp: Cons_eq_append_conv)

lemma split_on_single: "c \<notin> set s \<Longrightarrow> split_on c s = [s]"
  by (induction s) auto

lemma length_filter_imp: "(\<And>x. x \<in> set xs \<Longrightarrow> P x \<Longrightarrow> Q x) \<Longrightarrow> length (filter P xs) \<le> length (filter Q xs)"
  by (induction xs) (auto simp: le_SucI)

lemma trim_with_subset: "set (trim_with p s) \<subseteq> set s"
  by (auto simp: trim_with_def dest!: set_dropWhileD)

section \<open>Automata\<close>

text \<open>
  Concurrent parts of the program are automata: a step takes an event, and is \<^const>\<open>None\<close> where
  the code would block or the event cannot happen. The states they reach, the states of a run, and
  two contracts: an invariant, and a measure of the work left that every busy event decreases.
\<close>

inductive reaches :: "('s \<Rightarrow> 'e \<Rightarrow> 's option) \<Rightarrow> 's \<Rightarrow> 's \<Rightarrow> bool" for step where
  reaches_refl: "reaches step s s"
| reaches_step: "reaches step s t \<Longrightarrow> step t e = Some u \<Longrightarrow> reaches step s u"

primrec run_events :: "('s \<Rightarrow> 'e \<Rightarrow> 's option) \<Rightarrow> 's \<Rightarrow> 'e list \<Rightarrow> 's option" where
  "run_events step s [] = Some s"
| "run_events step s (e # es) = (case step s e of None \<Rightarrow> None | Some t \<Rightarrow> run_events step t es)"

lemma reaches_first: "step s e = Some t \<Longrightarrow> reaches step t u \<Longrightarrow> reaches step s u"
  by (rotate_tac, induction rule: reaches.induct) (auto intro: reaches_refl reaches_step)

lemma run_events_reaches: "run_events step s es = Some t \<Longrightarrow> reaches step s t"
  by (induction es arbitrary: s) (auto intro: reaches_refl reaches_first split: option.splits)

lemma run_events_append: "run_events step s (es @ fs) = Option.bind (run_events step s es) (\<lambda>t. run_events step t fs)"
  by (induction es arbitrary: s) (auto split: option.splits)

locale automaton =
  fixes step :: "'s \<Rightarrow> 'e \<Rightarrow> 's option"
    and inv :: "'s \<Rightarrow> bool"
  assumes step_inv: "inv s \<Longrightarrow> step s e = Some t \<Longrightarrow> inv t"
begin

lemma reaches_inv: "reaches step s t \<Longrightarrow> inv s \<Longrightarrow> inv t"
  by (induction rule: reaches.induct) (auto intro: step_inv)

lemma run_inv: "run_events step s es = Some t \<Longrightarrow> inv s \<Longrightarrow> inv t"
  by (rule reaches_inv [OF run_events_reaches])

end

locale winding_down = automaton step inv
  for step :: "'s \<Rightarrow> 'e \<Rightarrow> 's option" and inv :: "'s \<Rightarrow> bool" +
  fixes busy :: "'e \<Rightarrow> bool"
    and left :: "'s \<Rightarrow> nat"
  assumes step_left: "inv s \<Longrightarrow> step s e = Some t \<Longrightarrow> (if busy e then left t < left s else left t \<le> left s)"
begin

lemma run_bounded: "run_events step s es = Some t \<Longrightarrow> inv s \<Longrightarrow> length (filter busy es) + left t \<le> left s"
proof (induction es arbitrary: s)
  case (Cons e es)
  then obtain u where u: "step s e = Some u" "run_events step u es = Some t" by (auto split: option.splits)
  with Cons.IH [of u] Cons.prems(2) step_inv step_left [OF Cons.prems(2) u(1)] show ?case
    by (auto split: if_splits)
qed simp

end

end
