(* ===== verification/GoHttp.thy ===== *)
theory GoHttp
  imports Prelude "HOL-Library.AList"
begin

text \<open>
  What the proxy uses of the packages \<open>strconv\<close>, \<open>net\<close>, \<open>net/url\<close> and \<open>net/http\<close>: decimal
  parsing, \<open>SplitHostPort\<close>, the escaped forms of a URL, header maps with canonical keys and
  the fields of a server request. These are models of the standard library, translated from
  its documented behaviour; the components below call them as the source does.
\<close>

section \<open>Decimal numbers (strconv)\<close>

definition is_digit :: "char \<Rightarrow> bool" where
  "is_digit c \<longleftrightarrow> 48 \<le> (of_char c :: nat) \<and> (of_char c :: nat) \<le> 57"

definition digit_val :: "char \<Rightarrow> int" where
  "digit_val c = int (of_char c) - 48"

primrec digits_val :: "string \<Rightarrow> int \<Rightarrow> int" where
  "digits_val [] acc = acc"
| "digits_val (c # s) acc = digits_val s (10 * acc + digit_val c)"

text \<open>\<open>ParseUint s 10 bits\<close>: one or more digits, below \<open>2^bits\<close>; \<^const>\<open>None\<close> is an error.\<close>

definition parse_uint :: "nat \<Rightarrow> string \<Rightarrow> int option" where
  "parse_uint bits s =
     (if s = [] \<or> \<not> list_all is_digit s then None
      else if digits_val s 0 < 2 ^ bits then Some (digits_val s 0) else None)"

text \<open>\<open>ParseInt s 10 64\<close>: an optional sign before the digits, the result an \<open>int64\<close>.\<close>

definition parse_int :: "string \<Rightarrow> int64 option" where
  "parse_int s =
     (let neg = has_prefix s ''-'';
          ds = (if has_prefix s ''-'' \<or> has_prefix s ''+'' then drop 1 s else s)
      in if ds = [] \<or> \<not> list_all is_digit ds then None
         else let v = (if neg then - digits_val ds 0 else digits_val ds 0)
              in if is_int64 v then Some v else None)"

text \<open>\<open>FormatInt i 10\<close>.\<close>

definition dec_char :: "nat \<Rightarrow> char" where
  "dec_char n = ''0123456789'' ! n"

fun dec_digits :: "nat \<Rightarrow> string" where
  "dec_digits n = (if n < 10 then [dec_char n] else dec_digits (n div 10) @ [dec_char (n mod 10)])"

declare dec_digits.simps [simp del]

definition format_int :: "int64 \<Rightarrow> string" where
  "format_int i = (if i < 0 then ''-'' @ dec_digits (nat (- i)) else dec_digits (nat i))"

lemma digits_val_nonneg: "list_all is_digit s \<Longrightarrow> 0 \<le> acc \<Longrightarrow> 0 \<le> digits_val s acc"
  by (induction s arbitrary: acc) (auto simp: is_digit_def digit_val_def)

lemma parse_int_int64 [go_int]: "parse_int s = Some v \<Longrightarrow> is_int64 v"
  by (auto simp: parse_int_def Let_def split: if_splits)

section \<open>SplitHostPort (net)\<close>

definition index_of :: "char \<Rightarrow> string \<Rightarrow> nat option" where
  "index_of c s = (if c \<in> set s then Some (length (takeWhile (\<lambda>x. x \<noteq> c) s)) else None)"

definition last_index_of :: "char \<Rightarrow> string \<Rightarrow> nat option" where
  "last_index_of c s = map_option (\<lambda>i. length s - Suc i) (index_of c (rev s))"

text \<open>\<^const>\<open>None\<close> is any of the \<open>AddrError\<close>s, which no caller tells apart.\<close>

definition split_host_port :: "string \<Rightarrow> (string \<times> string) option" where
  "split_host_port hostport =
     (case last_index_of CHR '':'' hostport of
        None \<Rightarrow> None
      | Some i \<Rightarrow>
          if has_prefix hostport ''['' then
            (case index_of CHR '']'' hostport of
               None \<Rightarrow> None
             | Some e \<Rightarrow>
                 if e + 1 = i
                    \<and> CHR ''['' \<notin> set (drop 1 hostport)
                    \<and> CHR '']'' \<notin> set (drop (e + 1) hostport)
                 then Some (take (e - 1) (drop 1 hostport), drop (i + 1) hostport)
                 else None)
          else if CHR '':'' \<in> set (take i hostport) then None
          else if CHR ''['' \<in> set hostport \<or> CHR '']'' \<in> set hostport then None
          else Some (take i hostport, drop (i + 1) hostport))"

section \<open>URLs (net/url)\<close>

record url =
  scheme :: string
  opaque :: string
  user :: "string option"
  host :: string
  path :: string
  raw_path :: string
  force_query :: bool
  raw_query :: string
  fragment :: string

definition is_alnum :: "char \<Rightarrow> bool" where
  "is_alnum c \<longleftrightarrow> is_digit c \<or> (let n = (of_char c :: nat) in 65 \<le> n \<and> n \<le> 90 \<or> 97 \<le> n \<and> n \<le> 122)"

text \<open>\<open>shouldEscape c encodePath\<close>.\<close>

definition should_escape :: "char \<Rightarrow> bool" where
  "should_escape c \<longleftrightarrow> \<not> (is_alnum c \<or> c \<in> set ''-_.~$&+,/:;=@'')"

definition hex_digit :: "nat \<Rightarrow> char" where
  "hex_digit n = ''0123456789ABCDEF'' ! n"

definition unhex :: "char \<Rightarrow> nat option" where
  "unhex c = (let n = (of_char c :: nat) in
     if 48 \<le> n \<and> n \<le> 57 then Some (n - 48)
     else if 97 \<le> n \<and> n \<le> 102 then Some (n - 87)
     else if 65 \<le> n \<and> n \<le> 70 then Some (n - 55) else None)"

definition escape_char :: "char \<Rightarrow> string" where
  "escape_char c = (if should_escape c
     then [CHR ''%'', hex_digit (of_char c div 16), hex_digit (of_char c mod 16)] else [c])"

definition escape_path :: "string \<Rightarrow> string" where
  "escape_path s = concat (map escape_char s)"

text \<open>The decoder of the path: \<^const>\<open>None\<close> is an \<open>EscapeError\<close>.\<close>

fun unescape_path :: "string \<Rightarrow> string option" where
  "unescape_path [] = Some []"
| "unescape_path (c # s) =
     (if c = CHR ''%'' then
        (case s of
           a # b # rest \<Rightarrow>
             (case (unhex a, unhex b) of
                (Some x, Some y) \<Rightarrow>
                  map_option (\<lambda>t. char_of (16 * x + y) # t) (unescape_path rest)
              | _ \<Rightarrow> None)
         | _ \<Rightarrow> None)
      else map_option (\<lambda>t. c # t) (unescape_path s))"

definition valid_encoded :: "string \<Rightarrow> bool" where
  "valid_encoded s \<longleftrightarrow> list_all
     (\<lambda>c. c \<in> set ''!$&()*+,;=:@[]%'' \<or> c = CHR 0x27 \<or> \<not> should_escape c) s"

definition escaped_path :: "url \<Rightarrow> string" where
  "escaped_path u =
     (if raw_path u \<noteq> [] \<and> valid_encoded (raw_path u)
         \<and> unescape_path (raw_path u) = Some (path u) then raw_path u
      else if path u = ''*'' then ''*''
      else escape_path (path u))"

definition request_uri :: "url \<Rightarrow> string" where
  "request_uri u =
     (let result =
        (if opaque u = [] then (if escaped_path u = [] then ''/'' else escaped_path u)
         else if has_prefix (opaque u) ''//'' then scheme u @ '':'' @ opaque u else opaque u)
      in if force_query u \<or> raw_query u \<noteq> [] then result @ ''?'' @ raw_query u else result)"

section \<open>Headers (net/http)\<close>

text \<open>
  A header maps canonical keys to their values. It is an association list with one entry
  per key, since the source also iterates over it.
\<close>

type_synonym header = "(string \<times> string list) list"

definition token_char :: "char \<Rightarrow> bool" where
  "token_char c \<longleftrightarrow> is_alnum c \<or> c \<in> set ''!#$%&*+-.^_`|~'' \<or> c = CHR 0x27"

primrec canon_from :: "bool \<Rightarrow> string \<Rightarrow> string" where
  "canon_from upper [] = []"
| "canon_from upper (c # s) =
     (if upper then upper_char c else lower_char c) # canon_from (c = CHR ''-'') s"

definition canonical_key :: "string \<Rightarrow> string" where
  "canonical_key s = (if list_all token_char s then canon_from True s else s)"

definition hdr_values :: "header \<Rightarrow> string \<Rightarrow> string list" where
  "hdr_values h name = (case map_of h (canonical_key name) of None \<Rightarrow> [] | Some vs \<Rightarrow> vs)"

definition hdr_get :: "header \<Rightarrow> string \<Rightarrow> string" where
  "hdr_get h name = (case hdr_values h name of [] \<Rightarrow> [] | v # _ \<Rightarrow> v)"

definition hdr_set :: "header \<Rightarrow> string \<Rightarrow> string \<Rightarrow> header" where
  "hdr_set h name v = AList.update (canonical_key name) [v] h"

definition hdr_add :: "header \<Rightarrow> string \<Rightarrow> string \<Rightarrow> header" where
  "hdr_add h name v = AList.update (canonical_key name) (hdr_values h name @ [v]) h"

definition hdr_del :: "header \<Rightarrow> string \<Rightarrow> header" where
  "hdr_del h name = AList.delete (canonical_key name) h"

lemma hdr_values_del [simp]:
  "hdr_values (hdr_del h n) m = (if canonical_key m = canonical_key n then [] else hdr_values h m)"
  by (auto simp: hdr_values_def hdr_del_def delete_conv')

lemma hdr_values_set [simp]:
  "hdr_values (hdr_set h n v) m =
     (if canonical_key m = canonical_key n then [v] else hdr_values h m)"
  by (auto simp: hdr_values_def hdr_set_def update_conv')

lemma hdr_get_set [simp]:
  "hdr_get (hdr_set h n v) m =
     (if canonical_key m = canonical_key n then v else hdr_get h m)"
  by (simp add: hdr_get_def)

section \<open>Requests (net/http)\<close>

text \<open>
  The body of a request: absent (\<open>nil\<close>), the \<open>http.NoBody\<close> sentinel, or a stream, of which the
  length is kept, and the limit once it is wrapped by \<open>MaxBytesReader\<close>.
\<close>

datatype req_body = BodyNil | BodyNone | BodyStream int | BodyLimited int int

record request =
  r_method :: string
  r_url :: url
  r_host :: string
  r_header :: header
  r_remote_addr :: string
  r_content_length :: int64
  r_body :: req_body
  r_get_body :: bool
  r_tls :: bool

text \<open>A request with a method, a host and a path and nothing else, for the witnesses of later theories.\<close>

definition plain_url :: "string \<Rightarrow> url" where
  "plain_url p = \<lparr>scheme = [], opaque = [], user = None, host = [], path = p, raw_path = [],
     force_query = False, raw_query = [], fragment = []\<rparr>"

definition plain_request :: "string \<Rightarrow> string \<Rightarrow> string \<Rightarrow> request" where
  "plain_request meth hst p = \<lparr>r_method = meth, r_url = plain_url p, r_host = hst, r_header = [],
     r_remote_addr = ''192.0.2.10:4321'', r_content_length = 0, r_body = BodyNone,
     r_get_body = False, r_tls = False\<rparr>"

end
