(* ===== verification/Config.thy ===== *)
theory Config
  imports GoHttp
begin

text \<open>
  The declarative configuration (package \<open>config\<close>, file \<open>config.go\<close>): one record per struct,
  in the order of the source, and \<open>Default\<close>. The map of pools is an association list from
  pool names, because validation, construction and reload iterate over it; a duration is the
  \<open>time.Duration\<close> it wraps.
\<close>

record tls_config =
  cert_file :: string
  key_file :: string

record listener =
  l_address :: string
  l_tls :: "tls_config option"

record admin_token =
  at_name :: string
  at_env :: string
  at_scopes :: "string list"

record admin =
  a_address :: string
  auth_token_env :: string
  a_tokens :: "admin_token list"

record route_policy =
  allowed_methods :: "string list"
  denied_path_prefixes :: "string list"
  required_headers :: "string list"
  denied_headers :: "string list"
  max_query_bytes :: int

record rate_limit =
  rl_enabled :: bool
  rl_requests :: int
  rl_window :: duration
  rl_max_keys :: int

record route =
  rt_name :: string
  rt_host :: string
  path_prefix :: string
  rt_pool :: string
  strategy :: string
  rewrite_host :: bool
  rt_cache_enabled :: bool
  rt_policy :: route_policy
  rt_rate_limit :: rate_limit

record pool_tls =
  ca_file :: string
  server_name :: string
  client_cert_file :: string
  client_key_file :: string
  insecure_skip_verify :: bool

record backend_cfg =
  bc_name :: string
  bc_url :: string

record health =
  h_path :: string
  h_interval :: duration
  h_timeout :: duration
  unhealthy_threshold :: int
  healthy_threshold :: int

record pool =
  p_backends :: "backend_cfg list"
  p_health :: health
  retry_max_attempts :: int
  p_tls :: pool_tls

record timeouts =
  t_read_header :: duration
  t_read_body :: duration
  t_write :: duration
  t_idle :: duration
  t_shutdown :: duration
  t_dial :: duration
  t_response_header :: duration

record limits =
  max_header_bytes :: int
  max_body_bytes :: int64
  max_concurrent_requests :: int
  max_connections :: int

record client_ip =
  trusted_proxies :: "string list"
  ci_headers :: "string list"

record cache_cfg =
  c_max_entries :: int
  c_max_bytes :: int64
  c_default_ttl :: duration

record config =
  listeners :: "listener list"
  c_admin :: admin
  routes :: "route list"
  pools :: "(string \<times> pool) list"
  c_timeouts :: timeouts
  c_limits :: limits
  c_client_ip :: client_ip
  c_cache :: cache_cfg
  log_level :: string

definition default_config :: config where
  "default_config = \<lparr>
     listeners = [\<lparr>l_address = '':8080'', l_tls = None\<rparr>],
     c_admin = \<lparr>a_address = ''127.0.0.1:9090'', auth_token_env = [], a_tokens = []\<rparr>,
     routes = [],
     pools = [],
     c_timeouts = \<lparr>t_read_header = 10 * second, t_read_body = 30 * second,
       t_write = 120 * second, t_idle = 60 * second, t_shutdown = 30 * second,
       t_dial = 5 * second, t_response_header = 30 * second\<rparr>,
     c_limits = \<lparr>max_header_bytes = 16384, max_body_bytes = 10485760,
       max_concurrent_requests = 1024, max_connections = 4096\<rparr>,
     c_client_ip = \<lparr>trusted_proxies = [], ci_headers = []\<rparr>,
     c_cache = \<lparr>c_max_entries = 1000, c_max_bytes = 67108864, c_default_ttl = 30 * second\<rparr>,
     log_level = ''info''\<rparr>"

text \<open>The zero values of the optional parts of a route, and a route and a pool that set nothing else:
  the concrete configurations the witnesses of later theories are built from.\<close>

definition no_policy :: route_policy where
  "no_policy = \<lparr>allowed_methods = [], denied_path_prefixes = [], required_headers = [],
     denied_headers = [], max_query_bytes = 0\<rparr>"

definition no_rate_limit :: rate_limit where
  "no_rate_limit = \<lparr>rl_enabled = False, rl_requests = 0, rl_window = 0, rl_max_keys = 0\<rparr>"

definition plain_route :: "string \<Rightarrow> string \<Rightarrow> string \<Rightarrow> string \<Rightarrow> route" where
  "plain_route name hst pre pl = \<lparr>rt_name = name, rt_host = hst, path_prefix = pre, rt_pool = pl,
     strategy = ''round_robin'', rewrite_host = False, rt_cache_enabled = False,
     rt_policy = no_policy, rt_rate_limit = no_rate_limit\<rparr>"

end
