(* ===== verification/Backend.thy ===== *)
theory Backend
  imports GoHttp
begin

text \<open>
  One upstream server and its mutable state (package \<open>backend\<close>, file \<open>backend.go\<close>): the
  eligibility bit, the count of assigned requests, and the counters behind active probes and
  passive failures. Every operation of the source is one atomic action (an atomic integer or
  a critical section of \<open>mu\<close>), so concurrent use is a sequence of the operations below, in
  any order.

  The lemmas show what the counters mean: how many consecutive failures eject a backend, how
  many consecutive passes bring it back, and that the active count is the number of handles
  not yet released, whatever the order of the calls.
\<close>

record backend =
  b_name :: string
  b_url :: "url option"
  alive :: bool
  active :: "64 word"
  probe_fails :: int
  probe_passes :: int
  passive_fails :: int

definition clone_url :: "url option \<Rightarrow> url option" where
  "clone_url u = (case u of None \<Rightarrow> None | Some v \<Rightarrow> Some v)"

definition new_backend :: "string \<Rightarrow> url option \<Rightarrow> backend" where
  "new_backend name target =
     \<lparr>b_name = name, b_url = clone_url target, alive = True, active = 0,
      probe_fails = 0, probe_passes = 0, passive_fails = 0\<rparr>"

definition backend_url :: "backend \<Rightarrow> url option" where
  "backend_url b = clone_url (b_url b)"

definition set_alive :: "bool \<Rightarrow> backend \<Rightarrow> backend" where
  "set_alive a b = b\<lparr>probe_fails := 0, probe_passes := 0, passive_fails := 0, alive := a\<rparr>"

text \<open>
  \<open>Acquire\<close> returns a closure over its own \<open>released\<close> flag; \<open>release\<close> is that closure, taking
  and returning the flag it owns.
\<close>

definition acquire :: "backend \<Rightarrow> backend \<times> bool" where
  "acquire b = (b\<lparr>active := active b + 1\<rparr>, False)"

definition release :: "bool \<Rightarrow> backend \<Rightarrow> backend \<times> bool" where
  "release released b =
     (if \<not> released then (b\<lparr>active := active b - 1\<rparr>, True) else (b, released))"

definition record_probe :: "bool \<Rightarrow> int \<Rightarrow> int \<Rightarrow> backend \<Rightarrow> bool \<times> backend" where
  "record_probe success healthy unhealthy b =
     (let before = alive b;
          b' = (if success then
                  (let b1 = b\<lparr>probe_fails := 0, probe_passes := probe_passes b + 1\<rparr>
                   in if \<not> before \<and> probe_passes b1 \<ge> healthy
                      then b1\<lparr>alive := True, probe_passes := 0, passive_fails := 0\<rparr> else b1)
                else
                  (let b1 = b\<lparr>probe_passes := 0, probe_fails := probe_fails b + 1\<rparr>
                   in if before \<and> probe_fails b1 \<ge> unhealthy
                      then b1\<lparr>alive := False, probe_fails := 0\<rparr> else b1))
      in (before \<noteq> alive b', b'))"

definition record_passive_failure :: "int \<Rightarrow> backend \<Rightarrow> bool \<times> backend" where
  "record_passive_failure threshold b =
     (if \<not> alive b then (False, b)
      else let b1 = b\<lparr>passive_fails := passive_fails b + 1\<rparr>
           in if passive_fails b1 < threshold then (False, b1)
              else (True, b1\<lparr>passive_fails := 0, alive := False\<rparr>))"

definition record_passive_success :: "backend \<Rightarrow> backend" where
  "record_passive_success b = b\<lparr>passive_fails := 0\<rparr>"

lemmas backend_ops = new_backend_def set_alive_def acquire_def release_def record_probe_def
  record_passive_failure_def record_passive_success_def

section \<open>Health: runs of atomic operations\<close>

datatype health_event =
    Probe bool
  | PassiveFailure
  | PassiveSuccess
  | SetAlive bool

text \<open>The two thresholds of a pool; the handler passes the unhealthy one to passive failures too.\<close>

fun health_step :: "int \<Rightarrow> int \<Rightarrow> backend \<Rightarrow> health_event \<Rightarrow> backend" where
  "health_step healthy unhealthy b (Probe ok) = snd (record_probe ok healthy unhealthy b)"
| "health_step healthy unhealthy b PassiveFailure = snd (record_passive_failure unhealthy b)"
| "health_step healthy unhealthy b PassiveSuccess = record_passive_success b"
| "health_step healthy unhealthy b (SetAlive a) = set_alive a b"

primrec health_run :: "int \<Rightarrow> int \<Rightarrow> backend \<Rightarrow> health_event list \<Rightarrow> backend" where
  "health_run healthy unhealthy b [] = b"
| "health_run healthy unhealthy b (e # es) =
     health_run healthy unhealthy (health_step healthy unhealthy b e) es"

lemma health_run_append [simp]:
  "health_run h u b (es @ fs) = health_run h u (health_run h u b es) fs"
  by (induction es arbitrary: b) simp_all

definition health_inv :: "int \<Rightarrow> backend \<Rightarrow> bool" where
  "health_inv unhealthy b \<longleftrightarrow>
     0 \<le> probe_fails b \<and> 0 \<le> probe_passes b \<and> 0 \<le> passive_fails b \<and>
     (probe_fails b = 0 \<or> probe_passes b = 0) \<and>
     passive_fails b < unhealthy \<and>
     (alive b \<longrightarrow> probe_fails b < unhealthy)"

lemma health_inv_new [inv_intros]: "0 < u \<Longrightarrow> health_inv u (new_backend n t)"
  by (simp add: health_inv_def new_backend_def)

lemma health_step_inv [inv_intros]:
  "0 < u \<Longrightarrow> health_inv u b \<Longrightarrow> health_inv u (health_step h u b e)"
  by (cases e) (auto simp: health_inv_def backend_ops Let_def)

lemma health_run_inv: "0 < u \<Longrightarrow> health_inv u b \<Longrightarrow> health_inv u (health_run h u b es)"
  by (induction es arbitrary: b) (auto intro: inv_intros)

text \<open>
  The history a counter summarises: how many failing probes, or failing requests, end a
  sequence of events, events of the other kinds not counting. \<open>SetAlive\<close> forgets the past.
\<close>

fun probe_streak :: "nat \<Rightarrow> health_event list \<Rightarrow> nat" where
  "probe_streak n [] = n"
| "probe_streak n (Probe ok # es) = probe_streak (if ok then 0 else Suc n) es"
| "probe_streak n (SetAlive a # es) = probe_streak 0 es"
| "probe_streak n (_ # es) = probe_streak n es"

fun passive_streak :: "nat \<Rightarrow> health_event list \<Rightarrow> nat" where
  "passive_streak n [] = n"
| "passive_streak n (PassiveFailure # es) = passive_streak (Suc n) es"
| "passive_streak n (PassiveSuccess # es) = passive_streak 0 es"
| "passive_streak n (SetAlive a # es) = passive_streak 0 es"
| "passive_streak n (_ # es) = passive_streak n es"

lemma probe_streak_snoc:
  "probe_streak n (es @ [e]) =
     (case e of Probe ok \<Rightarrow> if ok then 0 else Suc (probe_streak n es)
      | SetAlive a \<Rightarrow> 0 | _ \<Rightarrow> probe_streak n es)"
  by (induction n es rule: probe_streak.induct) (auto split: health_event.splits)

lemma passive_streak_snoc:
  "passive_streak n (es @ [e]) =
     (case e of PassiveFailure \<Rightarrow> Suc (passive_streak n es) | PassiveSuccess \<Rightarrow> 0
      | SetAlive a \<Rightarrow> 0 | _ \<Rightarrow> passive_streak n es)"
  by (induction n es rule: passive_streak.induct) (auto split: health_event.splits)

lemma counters_le_streaks:
  "probe_fails (health_run h u (new_backend n t) es) \<le> int (probe_streak 0 es) \<and>
   passive_fails (health_run h u (new_backend n t) es) \<le> int (passive_streak 0 es)"
proof (induction es rule: rev_induct)
  case Nil
  then show ?case by (simp add: new_backend_def)
next
  case (snoc e es)
  then show ?case
    by (cases e) (auto simp: probe_streak_snoc passive_streak_snoc backend_ops Let_def)
qed

text \<open>
  A backend is only ejected for cause: when an operation other than \<open>SetAlive\<close> takes a
  backend out of service, either at least \<open>unhealthy\<close> probes in a row have failed, or at
  least \<open>unhealthy\<close> requests in a row have failed, counting back from that operation.
\<close>

lemma ejection_has_cause:
  assumes "alive (health_run h u (new_backend n t) es)"
    and "\<not> alive (health_run h u (new_backend n t) (es @ [e]))"
    and "\<And>a. e \<noteq> SetAlive a"
  shows "u \<le> int (probe_streak 0 (es @ [e])) \<or> u \<le> int (passive_streak 0 (es @ [e]))"
  using assms counters_le_streaks [of h u n t es]
  by (cases e) (auto simp: probe_streak_snoc passive_streak_snoc backend_ops Let_def
      split: if_splits)

lemma dead_stays_dead:
  "\<not> alive b \<Longrightarrow> Probe True \<notin> set es \<Longrightarrow> \<forall>a. SetAlive a \<notin> set es \<Longrightarrow>
   \<not> alive (health_run h u b es)"
proof (induction es arbitrary: b)
  case (Cons e es)
  then show ?case by (cases e) (auto simp: backend_ops Let_def)
qed simp

lemma failing_probes_eject:
  "Probe True \<notin> set es \<Longrightarrow> \<forall>a. SetAlive a \<notin> set es \<Longrightarrow>
   u \<le> probe_fails b + int (count_list es (Probe False)) \<Longrightarrow>
   probe_fails b < u \<Longrightarrow> \<not> alive (health_run h u b es)"
proof (induction es arbitrary: b)
  case (Cons e es)
  show ?case
  proof (cases "alive (health_step h u b e)")
    case False
    with Cons.prems show ?thesis by (simp add: dead_stays_dead)
  next
    case True
    with Cons show ?thesis
      by (cases e) (auto simp: backend_ops Let_def split: if_splits)
  qed
qed simp

lemma failing_requests_eject:
  "Probe True \<notin> set es \<Longrightarrow> \<forall>a. SetAlive a \<notin> set es \<Longrightarrow> PassiveSuccess \<notin> set es \<Longrightarrow>
   u \<le> passive_fails b + int (count_list es PassiveFailure) \<Longrightarrow>
   passive_fails b < u \<Longrightarrow> \<not> alive (health_run h u b es)"
proof (induction es arbitrary: b)
  case (Cons e es)
  show ?case
  proof (cases "alive (health_step h u b e)")
    case False
    with Cons.prems show ?thesis by (simp add: dead_stays_dead)
  next
    case True
    with Cons show ?thesis
      by (cases e) (auto simp: backend_ops Let_def split: if_splits)
  qed
qed simp

text \<open>
  Ejection is guaranteed: from any state the operations can reach, a stretch of events
  with no passing probe and no \<open>SetAlive\<close> leaves the backend out of service as soon as it
  holds \<open>unhealthy\<close> failing probes (whatever requests do meanwhile), or \<open>unhealthy\<close> failing
  requests and no successful one.
\<close>

lemma ejection_at_threshold:
  assumes "0 < u" and "health_inv u b"
    and "Probe True \<notin> set es" and "\<And>a. SetAlive a \<notin> set es"
    and "u \<le> int (count_list es (Probe False)) \<and> alive b \<or>
         u \<le> int (count_list es PassiveFailure) \<and> PassiveSuccess \<notin> set es"
  shows "\<not> alive (health_run h u b es)"
  using assms failing_probes_eject [of es u b h] failing_requests_eject [of es u b h]
  by (auto simp: health_inv_def)

lemma passing_probes_readmit:
  "Probe False \<notin> set es \<Longrightarrow> \<forall>a. SetAlive a \<notin> set es \<Longrightarrow> \<not> alive b \<Longrightarrow>
   h \<le> probe_passes b + int (count_list es (Probe True)) \<Longrightarrow> Probe True \<in> set es \<Longrightarrow>
   \<exists>k \<le> length es. alive (health_run h u b (take k es))"
proof (induction es arbitrary: b)
  case (Cons e es)
  show ?case
  proof (cases "alive (health_step h u b e)")
    case True
    then have "alive (health_run h u b (take 1 (e # es)))" by simp
    then show ?thesis by (intro exI [of _ 1]) simp
  next
    case False
    have *: "\<exists>k \<le> length es. alive (health_run h u (health_step h u b e) (take k es))"
      if "Probe True \<in> set es"
      by (rule Cons.IH) (use Cons.prems False that in
          \<open>cases e; auto simp: backend_ops Let_def split: if_splits\<close>)+
    have "Probe True \<in> set es"
    proof (rule ccontr)
      assume "Probe True \<notin> set es"
      then have "count_list es (Probe True) = 0" by (rule count_notin)
      with Cons.prems False show False
        by (cases e) (auto simp: backend_ops Let_def \<open>Probe True \<notin> set es\<close> split: if_splits)
    qed
    with * obtain k where "k \<le> length es"
      "alive (health_run h u b (take (Suc k) (e # es)))" by auto
    then show ?thesis by (intro exI [of _ "Suc k"]) simp
  qed
qed simp

text \<open>
  Recovery: a backend out of service returns to service during any stretch of events
  that holds \<open>healthy\<close> passing probes and neither a failing one nor \<open>SetAlive\<close>; requests
  that still fail meanwhile do not delay it.
\<close>

lemma recovery_at_threshold:
  assumes "0 < h" and "health_inv u b" and "\<not> alive b"
    and "Probe False \<notin> set es" and "\<And>a. SetAlive a \<notin> set es"
    and "h \<le> int (count_list es (Probe True))"
  shows "\<exists>k \<le> length es. alive (health_run h u b (take k es))"
proof (rule passing_probes_readmit)
  show "Probe True \<in> set es"
    using assms(1,6) count_notin [of "Probe True" es] by fastforce
  show "h \<le> probe_passes b + int (count_list es (Probe True))"
    using assms(2,6) by (simp add: health_inv_def)
qed (use assms in auto)

lemma passes_accumulate:
  "alive b \<Longrightarrow> health_run h u b (replicate (Suc k) (Probe True)) =
     b\<lparr>probe_fails := 0, probe_passes := probe_passes b + int (Suc k)\<rparr>"
proof (induction k arbitrary: b)
  case 0
  then show ?case by (simp add: record_probe_def)
next
  case (Suc k)
  have "health_run h u b (replicate (Suc (Suc k)) (Probe True)) =
      health_run h u (b\<lparr>probe_fails := 0, probe_passes := probe_passes b + 1\<rparr>)
        (replicate (Suc k) (Probe True))"
    using Suc.prems by (simp add: record_probe_def)
  then show ?case using Suc.prems Suc.IH [of "b\<lparr>probe_fails := 0, probe_passes := probe_passes b + 1\<rparr>"]
    by (simp add: algebra_simps)
qed

text \<open>
  The converse of recovery fails: passing probes recorded while the backend was still in
  service count towards its readmission. However large \<open>healthy\<close> is, a backend with
  \<open>healthy - 1\<close> passes behind it that failing requests eject comes back on the very next
  passing probe, not after \<open>healthy\<close> of them.
\<close>

lemma early_readmission:
  "\<not> alive (health_run (int k + 1) 1 (new_backend n t) (replicate k (Probe True) @ [PassiveFailure]))
   \<and> alive (health_run (int k + 1) 1 (new_backend n t)
        (replicate k (Probe True) @ [PassiveFailure, Probe True]))"
proof (cases k)
  case 0
  then show ?thesis by (simp add: backend_ops)
next
  case (Suc m)
  have "health_run (int k + 1) 1 (new_backend n t) (replicate k (Probe True)) =
      (new_backend n t)\<lparr>probe_passes := int k\<rparr>"
    unfolding Suc by (subst passes_accumulate) (simp_all add: new_backend_def)
  then show ?thesis by (simp add: backend_ops)
qed

section \<open>The active count under every interleaving of acquire and release\<close>

text \<open>
  A backend with the closures \<open>Acquire\<close> has returned, each with its \<open>released\<close> flag; a
  caller may invoke any closure, any number of times, at any moment.
\<close>

datatype usage_event = Acquire | Release nat

type_synonym usage = "backend \<times> bool list"

fun usage_step :: "usage \<Rightarrow> usage_event \<Rightarrow> usage" where
  "usage_step (b, flags) Acquire = (let (b', flag) = acquire b in (b', flags @ [flag]))"
| "usage_step (b, flags) (Release i) =
     (if i < length flags
      then (let (b', flag) = release (flags ! i) b in (b', flags[i := flag]))
      else (b, flags))"

primrec usage_run :: "usage \<Rightarrow> usage_event list \<Rightarrow> usage" where
  "usage_run s [] = s"
| "usage_run s (e # es) = usage_run (usage_step s e) es"

definition outstanding :: "bool list \<Rightarrow> nat" where
  "outstanding flags = length (filter (\<lambda>released. \<not> released) flags)"

lemma outstanding_snoc [simp]:
  "outstanding (flags @ [f]) = (if f then outstanding flags else Suc (outstanding flags))"
  by (simp add: outstanding_def)

lemma outstanding_release:
  "i < length flags \<Longrightarrow> \<not> flags ! i \<Longrightarrow> outstanding flags = Suc (outstanding (flags[i := True]))"
proof (induction flags arbitrary: i)
  case (Cons f flags)
  then show ?case by (cases i) (auto simp: outstanding_def)
qed simp

lemma released_update: "flags ! i \<Longrightarrow> flags[i := True] = flags"
  by (metis (full_types) list_update_id)

lemma usage_step_active:
  "active (fst s) = word_of_nat (outstanding (snd s)) \<Longrightarrow>
   active (fst (usage_step s e)) = word_of_nat (outstanding (snd (usage_step s e)))"
  using outstanding_release
  by (cases s; cases e) (auto simp: acquire_def release_def released_update)

text \<open>
  The active count is the number of acquired handles nobody has released yet, for every
  sequence of acquisitions and releases, double releases included: it never drifts and never
  goes negative while fewer than \<open>2^63\<close> handles are out.
\<close>

lemma active_counts_outstanding:
  assumes "usage_run (new_backend n t, []) es = (b, flags)"
  shows "active b = word_of_nat (outstanding flags) \<and>
         (outstanding flags < 2 ^ 63 \<longrightarrow> sint (active b) = int (outstanding flags))"
proof -
  have "active (fst (usage_run s es)) = word_of_nat (outstanding (snd (usage_run s es)))"
    if "active (fst s) = word_of_nat (outstanding (snd s))" for s
    using that
  proof (induction es arbitrary: s)
    case (Cons e es)
    from usage_step_active [OF Cons.prems] show ?case by (simp add: Cons.IH)
  qed simp
  from this [of "(new_backend n t, [])"] assms
  have eq: "active b = word_of_nat (outstanding flags)"
    by (simp add: new_backend_def outstanding_def)
  moreover have "sint (word_of_nat m :: 64 word) = int m" if "m < 2 ^ 63" for m :: nat
    using that by (simp add: signed_of_nat signed_take_bit_int_eq_self)
  ultimately show ?thesis by simp
qed

end
