(* ===== verification/Balance.thy ===== *)
theory Balance
  imports Backend "HOL-Library.Multiset"
begin

text \<open>
  Backend selection (package \<open>balance\<close>). A pool is a heap of backends, addressed by the
  pointers the source passes around (\<open>bid\<close>); a balancer reads the heap, advances its own
  64-bit counter and returns one of the pointers it was given, or \<open>ErrNoHealthyBackend\<close>.

  The locale \<open>balancer\<close> is the contract the handler relies on; both policies of the source, and
  the dispatch on the configured strategy, are interpreted as instances of it. The choice of a
  backend for a retry is proved once, inside the locale.
\<close>

type_synonym bid = nat
type_synonym heap = "bid \<Rightarrow> backend"

datatype balance_error = ErrNoHealthyBackend

section \<open>Round robin\<close>

text \<open>The loop over \<open>offset\<close>; the list is the range still to visit.\<close>

primrec rr_scan :: "heap \<Rightarrow> bid list \<Rightarrow> nat \<Rightarrow> nat list \<Rightarrow> balance_error + bid" where
  "rr_scan hp bs start [] = Inl ErrNoHealthyBackend"
| "rr_scan hp bs start (offset # offsets) =
     (let candidate = bs ! ((start + offset) mod length bs)
      in if alive (hp candidate) then Inr candidate else rr_scan hp bs start offsets)"

definition rr_next :: "heap \<Rightarrow> 64 word \<Rightarrow> bid list \<Rightarrow> (balance_error + bid) \<times> 64 word" where
  "rr_next hp next bs =
     (if length bs = 0 then (Inl ErrNoHealthyBackend, next)
      else let next' = next + 1;
               start = unat (next' - 1) mod length bs
           in (rr_scan hp bs start [0..<length bs], next'))"

section \<open>Least connections\<close>

primrec lc_scan :: "heap \<Rightarrow> bid list \<Rightarrow> bid list \<Rightarrow> int \<Rightarrow> bid list" where
  "lc_scan hp [] candidates minimum = candidates"
| "lc_scan hp (candidate # bs) candidates minimum =
     (if \<not> alive (hp candidate) then lc_scan hp bs candidates minimum
      else let act = sint (active (hp candidate))
           in if length candidates = 0 \<or> act < minimum then lc_scan hp bs [candidate] act
              else if act = minimum then lc_scan hp bs (candidates @ [candidate]) minimum
              else lc_scan hp bs candidates minimum)"

definition lc_next :: "heap \<Rightarrow> 64 word \<Rightarrow> bid list \<Rightarrow> (balance_error + bid) \<times> 64 word" where
  "lc_next hp tie bs =
     (let candidates = lc_scan hp bs [] 0
      in if length candidates = 0 then (Inl ErrNoHealthyBackend, tie)
         else let tie' = tie + 1;
                  index = unat (tie' - 1) mod length candidates
              in (Inr (candidates ! index), tie'))"

section \<open>The balancers of a pool\<close>

text \<open>The interface value \<open>balance.Balancer\<close>: which policy, and its counter.\<close>

datatype bal_state = RoundRobin "64 word" | LeastConnections "64 word"

fun bal_next :: "heap \<Rightarrow> bal_state \<Rightarrow> bid list \<Rightarrow> (balance_error + bid) \<times> bal_state" where
  "bal_next hp (RoundRobin c) bs = (let (r, c') = rr_next hp c bs in (r, RoundRobin c'))"
| "bal_next hp (LeastConnections c) bs =
     (let (r, c') = lc_next hp c bs in (r, LeastConnections c'))"

text \<open>
  \<open>nextRetryBackend\<close> (in \<open>proxy/handler.go\<close>), over any balancer: prefer a live backend other
  than the one just attempted, and fall back to the whole pool.
\<close>

definition next_retry_backend ::
  "(heap \<Rightarrow> 's \<Rightarrow> bid list \<Rightarrow> (balance_error + bid) \<times> 's) \<Rightarrow>
   heap \<Rightarrow> 's \<Rightarrow> bid list \<Rightarrow> bid \<Rightarrow> (balance_error + bid) \<times> 's" where
  "next_retry_backend next hp s backends attempted =
     (let alternatives = filter (\<lambda>c. c \<noteq> attempted \<and> alive (hp c)) backends
      in if length alternatives > 0 then next hp s alternatives else next hp s backends)"

section \<open>The contract of a balancer\<close>

locale balancer =
  fixes next_backend :: "heap \<Rightarrow> 's \<Rightarrow> bid list \<Rightarrow> (balance_error + bid) \<times> 's"
  assumes picks_live: "next_backend hp s bs = (Inr b, s') \<Longrightarrow> b \<in> set bs \<and> alive (hp b)"
    and finds_live: "b \<in> set bs \<Longrightarrow> alive (hp b) \<Longrightarrow> \<exists>c. fst (next_backend hp s bs) = Inr c"
begin

lemma next_error_iff:
  "fst (next_backend hp s bs) = Inl ErrNoHealthyBackend \<longleftrightarrow> (\<forall>b \<in> set bs. \<not> alive (hp b))"
proof
  assume "fst (next_backend hp s bs) = Inl ErrNoHealthyBackend"
  then show "\<forall>b \<in> set bs. \<not> alive (hp b)" using finds_live [of _ bs hp s] by fastforce
next
  assume dead: "\<forall>b \<in> set bs. \<not> alive (hp b)"
  show "fst (next_backend hp s bs) = Inl ErrNoHealthyBackend"
  proof (cases "fst (next_backend hp s bs)")
    case (Inl e)
    then show ?thesis by (cases e) simp
  next
    case (Inr b)
    then have "next_backend hp s bs = (Inr b, snd (next_backend hp s bs))"
      by (metis prod.collapse)
    with dead show ?thesis by (blast dest: picks_live)
  qed
qed

lemma retry_picks:
  assumes "next_retry_backend next_backend hp s bs a = (Inr b, s')"
  shows "b \<in> set bs \<and> alive (hp b) \<and>
         (b = a \<longrightarrow> (\<forall>c \<in> set bs. c \<noteq> a \<longrightarrow> \<not> alive (hp c)))"
proof (cases "filter (\<lambda>c. c \<noteq> a \<and> alive (hp c)) bs = []")
  case True
  with assms have "next_backend hp s bs = (Inr b, s')"
    by (simp add: next_retry_backend_def)
  with True show ?thesis by (auto dest: picks_live simp: filter_empty_conv)
next
  case False
  with assms have "next_backend hp s (filter (\<lambda>c. c \<noteq> a \<and> alive (hp c)) bs) = (Inr b, s')"
    by (simp add: next_retry_backend_def)
  then show ?thesis by (auto dest: picks_live)
qed

lemma retry_error_iff:
  "fst (next_retry_backend next_backend hp s bs a) = Inl ErrNoHealthyBackend \<longleftrightarrow>
   (\<forall>b \<in> set bs. \<not> alive (hp b))"
  by (auto simp: next_retry_backend_def Let_def next_error_iff filter_empty_conv)

end

section \<open>Round robin implements the contract\<close>

lemma rr_scan_Inr:
  "rr_scan hp bs start os = Inr b \<Longrightarrow>
   \<exists>k \<in> set os. b = bs ! ((start + k) mod length bs) \<and> alive (hp b)"
  by (induction os) (auto simp: Let_def split: if_splits)

lemma rr_scan_finds:
  "k \<in> set os \<Longrightarrow> alive (hp (bs ! ((start + k) mod length bs))) \<Longrightarrow>
   \<exists>c. rr_scan hp bs start os = Inr c"
  by (induction os) (auto simp: Let_def)

lemma offset_of:
  assumes "i < n" and "start < n"
  shows "\<exists>k < n. (start + k) mod n = (i :: nat)"
proof (cases "start \<le> i")
  case True
  with assms show ?thesis by (intro exI [of _ "i - start"]) simp
next
  case False
  with assms show ?thesis by (intro exI [of _ "n + i - start"]) simp
qed

interpretation rr: balancer rr_next
proof unfold_locales
  fix hp :: heap and s bs b s'
  assume "rr_next hp s bs = (Inr b, s')"
  then have ne: "bs \<noteq> []" and
    "rr_scan hp bs (unat s mod length bs) [0..<length bs] = Inr b"
    by (auto simp: rr_next_def Let_def split: if_splits)
  then show "b \<in> set bs \<and> alive (hp b)" by (auto dest!: rr_scan_Inr)
next
  fix hp :: heap and s :: "64 word" and bs b
  assume "b \<in> set bs" and live: "alive (hp b)"
  then obtain i where "i < length bs" "b = bs ! i" by (auto simp: in_set_conv_nth)
  moreover from this have "unat s mod length bs < length bs" by (intro mod_less_divisor) auto
  ultimately obtain k where "k < length bs" "(unat s mod length bs + k) mod length bs = i"
    using offset_of [of i "length bs" "unat s mod length bs"] by auto
  with \<open>b = bs ! i\<close> show "\<exists>c. fst (rr_next hp s bs) = Inr c"
    using live rr_scan_finds [of k "[0..<length bs]"] by (auto simp: rr_next_def Let_def)
qed


lemma rr_scan_first:
  "rr_scan hp bs start [i..<n] = Inr b \<Longrightarrow>
   \<exists>k. i \<le> k \<and> k < n \<and> b = bs ! ((start + k) mod length bs) \<and> alive (hp b) \<and>
       (\<forall>j. i \<le> j \<and> j < k \<longrightarrow> \<not> alive (hp (bs ! ((start + j) mod length bs))))"
proof (induction "n - i" arbitrary: i)
  case 0
  then show ?case by simp
next
  case (Suc m)
  then have less: "i < n" by simp
  then have range: "[i..<n] = i # [Suc i..<n]" by (simp add: upt_rec)
  show ?case
  proof (cases "alive (hp (bs ! ((start + i) mod length bs)))")
    case True
    with Suc.prems less range show ?thesis by (intro exI [of _ i]) (auto simp: Let_def)
  next
    case False
    with Suc.prems range have "rr_scan hp bs start [Suc i..<n] = Inr b" by (simp add: Let_def)
    moreover have "m = n - Suc i" using Suc.hyps(2) by simp
    ultimately obtain k where
      "Suc i \<le> k \<and> k < n \<and> b = bs ! ((start + k) mod length bs) \<and> alive (hp b) \<and>
       (\<forall>j. Suc i \<le> j \<and> j < k \<longrightarrow> \<not> alive (hp (bs ! ((start + j) mod length bs))))"
      using Suc.hyps(1) [of "Suc i"] by blast
    moreover have "\<not> alive (hp (bs ! ((start + j) mod length bs)))"
      if "i \<le> j" "j < k" for j
      using that False calculation by (cases "j = i") simp_all
    ultimately show ?thesis by (intro exI [of _ k]) auto
  qed
qed

text \<open>
  What round robin returns: the first live backend at or after the counter's position, in
  cyclic configuration order. Every backend it passes over on the way is out of service.
\<close>

lemma round_robin_first_live:
  assumes "rr_next hp c bs = (Inr b, c')"
  shows "c' = c + 1 \<and>
    (\<exists>k < length bs. b = bs ! ((unat c + k) mod length bs) \<and> alive (hp b) \<and>
       (\<forall>j < k. \<not> alive (hp (bs ! ((unat c + j) mod length bs)))))"
proof -
  from assms have c': "c' = c + 1"
    and scan: "rr_scan hp bs (unat c mod length bs) [0..<length bs] = Inr b"
    by (auto simp: rr_next_def Let_def split: if_splits)
  from rr_scan_first [OF scan] show ?thesis
    by (auto simp: c' mod_add_left_eq)
qed

text \<open>Successive calls of one balancer while the pool's health does not change.\<close>

primrec rr_picks :: "heap \<Rightarrow> 64 word \<Rightarrow> bid list \<Rightarrow> nat \<Rightarrow> (balance_error + bid) list" where
  "rr_picks hp c bs 0 = []"
| "rr_picks hp c bs (Suc n) =
     (let (r, c') = rr_next hp c bs in r # rr_picks hp c' bs n)"

lemma rr_next_all_live:
  assumes "bs \<noteq> []" and "\<forall>b \<in> set bs. alive (hp b)"
  shows "rr_next hp c bs = (Inr (bs ! (unat c mod length bs)), c + 1)"
proof -
  have "[0..<length bs] = 0 # [1..<length bs]"
    using assms(1) by (simp add: upt_rec)
  moreover have "bs ! (unat c mod length bs) \<in> set bs"
    using assms(1) by simp
  ultimately show ?thesis using assms by (simp add: rr_next_def Let_def)
qed

lemma rr_picks_all_live:
  assumes "bs \<noteq> []" and "\<forall>b \<in> set bs. alive (hp b)"
  shows "unat c + n \<le> 2 ^ 64 \<Longrightarrow>
    rr_picks hp c bs n = map (\<lambda>k. Inr (bs ! ((unat c + k) mod length bs))) [0..<n]"
proof (induction n arbitrary: c)
  case (Suc n)
  have upt: "[0..<Suc n] = 0 # map Suc [0..<n]"
    by (simp only: upt_conv_Cons zero_less_Suc map_Suc_upt)
  show ?case
  proof (cases n)
    case 0
    then show ?thesis by (simp add: rr_next_all_live [OF assms])
  next
    case (Suc m)
    with Suc.prems have "unat (c + 1) = unat c + 1"
      by (simp add: unat_word_ariths)
    with Suc.IH [of "c + 1"] Suc.prems show ?thesis
      unfolding upt by (simp add: rr_next_all_live [OF assms] comp_def)
  qed
qed simp

text \<open>
  C40. Round robin is fair: while every backend is live, any \<open>n\<close> consecutive picks from a pool
  of \<open>n\<close> serve each backend exactly once, unless the 64-bit counter wraps in between.
\<close>

theorem round_robin_fair:
  assumes "\<forall>b \<in> set bs. alive (hp b)" and "unat c + length bs \<le> 2 ^ 64"
  shows "mset (rr_picks hp c bs (length bs)) = image_mset Inr (mset bs)"
proof (cases "bs = []")
  case False
  have "map (\<lambda>k. bs ! ((unat c + k) mod length bs)) [0..<length bs] = rotate (unat c) bs"
    by (rule nth_equalityI) (simp_all add: nth_rotate)
  then have "rr_picks hp c bs (length bs) = map Inr (rotate (unat c) bs)"
    using rr_picks_all_live [OF False assms] by (metis (no_types, lifting) map_map comp_apply map_eq_conv)
  moreover have "mset (rotate (unat c) bs) = mset bs"
    by (simp add: rotate_drop_take flip: mset_append) (metis add.commute append_take_drop_id mset_append)
  ultimately show ?thesis by simp
qed simp

theorem round_robin_fair_witness:
  "mset (rr_picks (\<lambda>_. new_backend ''one'' None) 7 [0, 1, 2] (length [0, 1, 2 :: bid])) =
     image_mset Inr (mset [0, 1, 2])"
  by (rule round_robin_fair) (simp_all add: new_backend_def)


section \<open>Least connections implements the contract\<close>

text \<open>The reference: the live backends with the fewest assigned requests, in pool order.\<close>

definition live :: "heap \<Rightarrow> bid list \<Rightarrow> bid list" where
  "live hp bs = filter (\<lambda>b. alive (hp b)) bs"

definition load :: "heap \<Rightarrow> bid \<Rightarrow> int" where
  "load hp b = sint (active (hp b))"

definition least_loaded :: "heap \<Rightarrow> bid list \<Rightarrow> bid list" where
  "least_loaded hp bs = filter (\<lambda>b. load hp b = Min (load hp ` set (live hp bs))) (live hp bs)"

lemma live_simps [simp]:
  "live hp [] = []"
  "live hp (b # bs) = (if alive (hp b) then b # live hp bs else live hp bs)"
  "set (live hp bs) = {b \<in> set bs. alive (hp b)}"
  by (auto simp: live_def)

lemma Min_insert_larger:
  assumes "finite S" and "x \<in> S" and "x < (m :: int)"
  shows "Min (insert m S) = Min S"
proof -
  have "Min S \<le> x" using assms by simp
  then have "min m (Min S) = Min S" using assms(3) by simp
  moreover have "S \<noteq> {}" using assms(2) by blast
  ultimately show ?thesis using assms(1) by (simp add: Min_insert)
qed

lemma lc_scan_from:
  assumes "cs \<noteq> []"
  shows "lc_scan hp bs cs m =
    (let l = Min (insert m (load hp ` set (live hp bs)))
     in (if l = m then cs else []) @ filter (\<lambda>b. load hp b = l) (live hp bs))"
  using assms
proof (induction bs arbitrary: cs m)
  case (Cons c bs)
  let ?S = "load hp ` set (live hp bs)"
  have fin: "finite ?S" by simp
  show ?case
  proof (cases "alive (hp c)")
    case True
    consider (less) "load hp c < m" | (eq) "load hp c = m" | (greater) "m < load hp c"
      by linarith
    then show ?thesis
    proof cases
      case less
      then have "Min (insert m (insert (load hp c) ?S)) = Min (insert (load hp c) ?S)"
        using fin by (intro Min_insert_larger) auto
      moreover have "Min (insert (load hp c) ?S) \<le> load hp c" using fin by simp
      ultimately show ?thesis
        using less True Cons.IH [of "[c]" "load hp c"] by (auto simp: Let_def load_def)
    next
      case eq
      then show ?thesis
        using True Cons.IH [of "cs @ [c]" m] Cons.prems by (auto simp: Let_def load_def)
    next
      case greater
      then have "Min (insert m (insert (load hp c) ?S)) = Min (insert m ?S)"
        using fin Min_insert_larger [of "insert m ?S" m "load hp c"] by (simp add: insert_commute)
      moreover have "Min (insert m ?S) \<le> m" using fin by simp
      ultimately show ?thesis
        using greater True Cons.IH [of cs m] Cons.prems by (auto simp: Let_def load_def)
    qed
  next
    case False
    with Cons show ?thesis by (simp add: Let_def)
  qed
qed simp

lemma lc_scan_least: "lc_scan hp bs [] m = least_loaded hp bs"
proof (induction bs)
  case Nil
  then show ?case by (simp add: least_loaded_def)
next
  case (Cons c bs)
  then show ?case
    using lc_scan_from [of "[c]" hp bs "load hp c"]
    by (auto simp: least_loaded_def Let_def load_def)
qed

lemma least_loaded_empty_iff: "least_loaded hp bs = [] \<longleftrightarrow> live hp bs = []"
proof
  assume empty: "least_loaded hp bs = []"
  show "live hp bs = []"
  proof (rule ccontr)
    assume "live hp bs \<noteq> []"
    then have "Min (load hp ` set (live hp bs)) \<in> load hp ` set (live hp bs)"
      by (intro Min_in) (auto simp del: live_simps)
    with empty show False by (force simp: least_loaded_def filter_empty_conv simp del: live_simps(3))
  qed
qed (simp add: least_loaded_def)

lemma lc_next_eq:
  "lc_next hp tie bs =
     (if live hp bs = [] then (Inl ErrNoHealthyBackend, tie)
      else (Inr (least_loaded hp bs ! (unat tie mod length (least_loaded hp bs))), tie + 1))"
  by (simp add: lc_next_def lc_scan_least Let_def least_loaded_empty_iff)

lemma least_loaded_nth:
  "live hp bs \<noteq> [] \<Longrightarrow> least_loaded hp bs ! (k mod length (least_loaded hp bs)) \<in> set (least_loaded hp bs)"
  by (simp add: least_loaded_empty_iff)

interpretation lc: balancer lc_next
proof unfold_locales
  fix hp :: heap and s bs b s'
  assume "lc_next hp s bs = (Inr b, s')"
  then have "b \<in> set (least_loaded hp bs)"
    using least_loaded_nth by (auto simp: lc_next_eq split: if_splits)
  then show "b \<in> set bs \<and> alive (hp b)" by (simp add: least_loaded_def)
next
  fix hp :: heap and s :: "64 word" and bs b
  assume "b \<in> set bs" and "alive (hp b)"
  then have "live hp bs \<noteq> []" by (auto simp: live_def filter_empty_conv)
  then show "\<exists>c. fst (lc_next hp s bs) = Inr c" by (simp add: lc_next_eq)
qed

interpretation bal: balancer bal_next
proof unfold_locales
  fix hp :: heap and s bs b s'
  assume "bal_next hp s bs = (Inr b, s')"
  then show "b \<in> set bs \<and> alive (hp b)"
    using rr.picks_live [of hp _ bs b] lc.picks_live [of hp _ bs b]
    by (cases s) (auto split: prod.splits)
next
  fix hp :: heap and s :: bal_state and bs b
  assume "b \<in> set bs" and "alive (hp b)"
  then show "\<exists>c. fst (bal_next hp s bs) = Inr c"
    using rr.finds_live [of b bs hp] lc.finds_live [of b bs hp]
    by (cases s) (simp_all add: split_beta Let_def)
qed

text \<open>
  C39. What least connections returns: a live backend that no live backend of the pool beats
  on assigned requests; among equals it takes the one at the tie counter's position in pool
  order and advances the counter, so that equals take turns.
\<close>

theorem least_connections_minimal:
  assumes "lc_next hp tie bs = (Inr b, tie')"
  shows "b \<in> set bs \<and> alive (hp b) \<and>
    (\<forall>c \<in> set bs. alive (hp c) \<longrightarrow> sint (active (hp b)) \<le> sint (active (hp c))) \<and>
    (let ties = filter (\<lambda>c. alive (hp c) \<and> sint (active (hp c)) = sint (active (hp b))) bs
     in b = ties ! (unat tie mod length ties)) \<and> tie' = tie + 1"
proof -
  from assms have ne: "live hp bs \<noteq> []" and t: "tie' = tie + 1"
    and b: "b = least_loaded hp bs ! (unat tie mod length (least_loaded hp bs))"
    by (auto simp: lc_next_eq split: if_splits)
  have mem: "b \<in> set (least_loaded hp bs)" unfolding b by (rule least_loaded_nth [OF ne])
  then have min: "load hp b = Min (load hp ` set (live hp bs))"
    by (simp add: least_loaded_def)
  have "load hp b \<le> load hp c" if "c \<in> set bs" "alive (hp c)" for c
    unfolding min using that by (intro Min_le) auto
  moreover have "least_loaded hp bs =
      filter (\<lambda>c. alive (hp c) \<and> sint (active (hp c)) = sint (active (hp b))) bs"
    using min by (auto simp: least_loaded_def live_def load_def conj_commute intro: filter_cong)
  ultimately show ?thesis using mem b t by (auto simp: least_loaded_def load_def Let_def)
qed

theorem least_connections_minimal_witness:
  "sint (active ((\<lambda>_. new_backend ''one'' None) (1 :: bid))) \<le>
   sint (active ((\<lambda>_. new_backend ''one'' None) (0 :: bid)))"
proof -
  have "lc_next (\<lambda>_. new_backend ''one'' None) 1 [0, 1] = (Inr 1, 2)"
    by (simp add: lc_next_def backend_ops)
  from least_connections_minimal [OF this] show ?thesis by simp
qed

text \<open>
  A retry, under either strategy, goes to a live backend, and to the one that just failed
  only when no other backend of the pool is live; it fails exactly when none is.
\<close>

lemma retry_avoids_failed_backend:
  "(next_retry_backend bal_next hp s bs attempted = (Inr b, s') \<longrightarrow>
      b \<in> set bs \<and> alive (hp b) \<and>
      (b = attempted \<longrightarrow> (\<forall>c \<in> set bs. c \<noteq> attempted \<longrightarrow> \<not> alive (hp c)))) \<and>
   (fst (next_retry_backend bal_next hp s bs attempted) = Inl ErrNoHealthyBackend \<longleftrightarrow>
      (\<forall>c \<in> set bs. \<not> alive (hp c)))"
  using bal.retry_picks [of hp s bs attempted b s'] bal.retry_error_iff [of hp s bs attempted]
  by simp

end
