(* ===== verification/Routing.thy ===== *)
theory Routing
  imports Config
begin

text \<open>
  Route selection (package \<open>routing\<close>). A router is the list of configured routes; \<open>Match\<close>
  filters it by host and keeps the best path prefix in one pass. The lemmas characterise the
  prefix test and show that the pass computes the first route of greatest rank, where rank is
  the length of the prefix and then whether the route names a host.
\<close>

type_synonym router = "route list"

definition new_router :: "route list \<Rightarrow> router" where
  "new_router rs = rs"

definition normalize_host :: "string \<Rightarrow> string" where
  "normalize_host hst =
     (let h = (case split_host_port hst of Some (parsed, _) \<Rightarrow> parsed | None \<Rightarrow> hst)
      in trim_suffix (to_lower (trim_space h)) ''.'')"

definition candidates :: "router \<Rightarrow> string \<Rightarrow> route list" where
  "candidates r hst =
     (let h = normalize_host hst
      in filter (\<lambda>route. rt_host route = [] \<or> normalize_host (rt_host route) = h) r)"

definition path_matches :: "string \<Rightarrow> string \<Rightarrow> bool" where
  "path_matches pre p =
     (if pre = ''/'' then has_prefix p ''/''
      else if p = pre then True
      else has_prefix p (trim_suffix pre ''/'' @ ''/''))"

text \<open>The loop of \<open>Match\<close>; \<open>best\<close> is \<^const>\<open>None\<close> while \<open>found\<close> is false.\<close>

primrec match_loop :: "string \<Rightarrow> route list \<Rightarrow> route option \<Rightarrow> route option" where
  "match_loop p [] best = best"
| "match_loop p (route # rs) best =
     (if \<not> path_matches (path_prefix route) p then match_loop p rs best
      else (case best of
         None \<Rightarrow> match_loop p rs (Some route)
       | Some b \<Rightarrow>
           if length (path_prefix route) > length (path_prefix b) \<or>
              length (path_prefix route) = length (path_prefix b) \<and> rt_host b = [] \<and> rt_host route \<noteq> []
           then match_loop p rs (Some route) else match_loop p rs best))"

definition route_match :: "router \<Rightarrow> string \<Rightarrow> string \<Rightarrow> route option" where
  "route_match r hst p = match_loop p (candidates r hst) None"

section \<open>Prefixes end at segment boundaries\<close>

lemma trim_slash: "trim_suffix (q @ ''/'') ''/'' = q"
  by (simp add: trim_suffix_def has_suffix_iff)

text \<open>
  A prefix matches whole path segments: \<open>/\<close> matches every absolute path, and any other
  prefix \<open>q\<close> or \<open>q/\<close> matches exactly the paths \<open>q/...\<close>, and itself; \<open>/api\<close> never matches
  \<open>/apix\<close>.
\<close>

lemma path_matches_boundary:
  assumes "q \<noteq> []" and "last q \<noteq> CHR ''/''"
  shows "(path_matches q p \<longleftrightarrow> p = q \<or> (\<exists>rest. p = q @ ''/'' @ rest)) \<and>
    (path_matches (q @ ''/'') p \<longleftrightarrow> (\<exists>rest. p = q @ ''/'' @ rest)) \<and>
    (path_matches ''/'' p \<longleftrightarrow> (\<exists>rest. p = ''/'' @ rest))"
proof -
  have "q \<noteq> ''/''" using assms(2) by auto
  moreover have "trim_suffix q ''/'' = q"
    using assms by (auto simp: trim_suffix_def has_suffix_iff)
  ultimately have "path_matches q p \<longleftrightarrow> p = q \<or> (\<exists>rest. p = q @ ''/'' @ rest)"
    by (auto simp: path_matches_def has_prefix_iff)
  moreover have "path_matches (q @ ''/'') p \<longleftrightarrow> (\<exists>rest. p = q @ ''/'' @ rest)"
    using assms(1) by (auto simp: path_matches_def has_prefix_iff trim_slash)
  moreover have "path_matches ''/'' p \<longleftrightarrow> (\<exists>rest. p = ''/'' @ rest)"
    by (simp add: path_matches_def has_prefix_iff)
  ultimately show ?thesis by blast
qed

section \<open>The best match\<close>

definition eligible :: "router \<Rightarrow> string \<Rightarrow> string \<Rightarrow> route list" where
  "eligible r hst p = filter (\<lambda>route.
     (rt_host route = [] \<or> normalize_host (rt_host route) = normalize_host hst) \<and>
     path_matches (path_prefix route) p) r"

text \<open>Rank: prefix length first, then a named host over the catch-all.\<close>

definition outranks :: "route \<Rightarrow> route \<Rightarrow> bool" where
  "outranks a b \<longleftrightarrow> length (path_prefix a) > length (path_prefix b) \<or>
     length (path_prefix a) = length (path_prefix b) \<and> rt_host b = [] \<and> rt_host a \<noteq> []"

lemma not_outranks_trans: "\<not> outranks a b \<Longrightarrow> \<not> outranks b c \<Longrightarrow> \<not> outranks a c"
  by (auto simp: outranks_def)

lemma outranks_trans: "outranks a b \<Longrightarrow> outranks b c \<Longrightarrow> outranks a c"
  by (auto simp: outranks_def)

lemma match_loop_filter:
  "match_loop p rs best = match_loop p (filter (\<lambda>r. path_matches (path_prefix r) p) rs) best"
  by (induction rs arbitrary: best) (auto split: option.splits)

definition first_best :: "route list \<Rightarrow> route \<Rightarrow> bool" where
  "first_best rs best \<longleftrightarrow> (\<exists>before after. rs = before @ best # after \<and>
     (\<forall>q \<in> set before. outranks best q) \<and> (\<forall>q \<in> set after. \<not> outranks q best))"

lemma match_loop_first_best:
  "\<forall>r \<in> set (seen @ rs). path_matches (path_prefix r) p \<Longrightarrow>
   (case best of None \<Rightarrow> seen = [] | Some b \<Rightarrow> first_best seen b) \<Longrightarrow>
   (case match_loop p rs best of None \<Rightarrow> seen @ rs = [] | Some b \<Rightarrow> first_best (seen @ rs) b)"
proof (induction rs arbitrary: seen best)
  case Nil
  then show ?case by (auto split: option.splits)
next
  case (Cons r rs)
  let ?best = "case best of None \<Rightarrow> Some r | Some b \<Rightarrow> if outranks r b then Some r else best"
  have step: "match_loop p (r # rs) best = match_loop p rs ?best"
    using Cons.prems(1) by (auto simp: outranks_def split: option.splits)
  have "case ?best of None \<Rightarrow> seen @ [r] = [] | Some b \<Rightarrow> first_best (seen @ [r]) b"
  proof (cases best)
    case None
    with Cons.prems(2) show ?thesis by (force simp: first_best_def)
  next
    case (Some b)
    with Cons.prems(2) obtain bef aft where seen: "seen = bef @ b # aft"
      and bef: "\<forall>q \<in> set bef. outranks b q" and aft: "\<forall>q \<in> set aft. \<not> outranks q b"
      by (auto simp: first_best_def)
    show ?thesis
    proof (cases "outranks r b")
      case True
      have "outranks r q" if "q \<in> set seen" for q
        using that True bef aft by (auto simp: seen outranks_def)
      then have "first_best (seen @ [r]) r"
        unfolding first_best_def by (intro exI [of _ seen] exI [of _ "[]"]) simp
      with Some True show ?thesis by simp
    next
      case False
      have "first_best (seen @ [r]) b"
        unfolding first_best_def seen using bef aft False
        by (intro exI [of _ bef] exI [of _ "aft @ [r]"]) auto
      with Some False show ?thesis by simp
    qed
  qed
  moreover have "\<forall>x \<in> set ((seen @ [r]) @ rs). path_matches (path_prefix x) p"
    using Cons.prems(1) by simp
  ultimately show ?case
    using Cons.IH [of "seen @ [r]" ?best] unfolding step append_assoc append.simps by blast
qed

lemma first_best_unique: "first_best rs a \<Longrightarrow> first_best rs b \<Longrightarrow> a = b"
proof -
  assume a: "first_best rs a" and b: "first_best rs b"
  from a obtain p q where "rs = p @ a # q" "\<forall>x \<in> set p. outranks a x" "\<forall>x \<in> set q. \<not> outranks x a"
    unfolding first_best_def by blast
  from b obtain p' q' where "rs = p' @ b # q'" "\<forall>x \<in> set p'. outranks b x" "\<forall>x \<in> set q'. \<not> outranks x b"
    unfolding first_best_def by blast
  consider "length p < length p'" | "length p = length p'" | "length p' < length p" by linarith
  then show "a = b"
  proof cases
    case 1
    then have "a \<in> set p'" "b \<in> set q"
      using \<open>rs = p @ a # q\<close> \<open>rs = p' @ b # q'\<close>
      by (auto simp: append_eq_append_conv2 append_eq_Cons_conv Cons_eq_append_conv)
    then show ?thesis using \<open>\<forall>x \<in> set p'. outranks b x\<close> \<open>\<forall>x \<in> set q. \<not> outranks x a\<close> by blast
  next
    case 2
    then show ?thesis using \<open>rs = p @ a # q\<close> \<open>rs = p' @ b # q'\<close> by simp
  next
    case 3
    then have "b \<in> set p" "a \<in> set q'"
      using \<open>rs = p @ a # q\<close> \<open>rs = p' @ b # q'\<close>
      by (auto simp: append_eq_append_conv2 append_eq_Cons_conv Cons_eq_append_conv)
    then show ?thesis using \<open>\<forall>x \<in> set p. outranks a x\<close> \<open>\<forall>x \<in> set q'. \<not> outranks x b\<close> by blast
  qed
qed

lemma route_match_eligible: "route_match r hst p = match_loop p (eligible r hst p) None"
  unfolding route_match_def eligible_def candidates_def Let_def
  by (subst match_loop_filter) (simp add: conj_commute)

lemma match_first_best:
  "route_match r hst p = None \<longleftrightarrow> eligible r hst p = []"
  "route_match r hst p = Some best \<longleftrightarrow> first_best (eligible r hst p) best"
proof -
  have spec: "case route_match r hst p of None \<Rightarrow> eligible r hst p = []
      | Some b \<Rightarrow> first_best (eligible r hst p) b"
  proof -
    have "\<forall>route \<in> set (eligible r hst p). path_matches (path_prefix route) p"
      by (simp add: eligible_def)
    with match_loop_first_best [of "[]" "eligible r hst p" p None] show ?thesis
      by (auto simp: route_match_eligible split: option.splits)
  qed
  show "route_match r hst p = None \<longleftrightarrow> eligible r hst p = []"
    using spec by (auto simp: first_best_def split: option.splits)
  show "route_match r hst p = Some best \<longleftrightarrow> first_best (eligible r hst p) best"
  proof (cases "route_match r hst p")
    case None
    with spec show ?thesis by (simp add: first_best_def)
  next
    case (Some b)
    with spec have "first_best (eligible r hst p) b" by simp
    with Some show ?thesis by (auto dest: first_best_unique)
  qed
qed

text \<open>
  C15. Route selection: no route is returned exactly when no configured route matches host
  and path; otherwise the result is the one eligible route of greatest rank that comes first
  in the configuration: every earlier eligible route has a strictly shorter prefix (or an
  equal one without a host), no later one ranks higher.
\<close>

theorem route_match_spec:
  "(route_match r hst p = None \<longleftrightarrow>
      (\<forall>route \<in> set r. \<not> ((rt_host route = [] \<or> normalize_host (rt_host route) = normalize_host hst)
         \<and> path_matches (path_prefix route) p))) \<and>
   (route_match r hst p = Some best \<longleftrightarrow>
      (\<exists>before after. eligible r hst p = before @ best # after \<and>
         (\<forall>q \<in> set before. outranks best q) \<and> (\<forall>q \<in> set after. \<not> outranks q best)))"
  by (auto simp: match_first_best first_best_def eligible_def filter_empty_conv)

theorem route_match_spec_witness:
  "route_match [plain_route ''a'' [] ''/'' ''p'', plain_route ''b'' ''api.test'' ''/'' ''p'']
     ''API.test:80'' ''/x'' = Some (plain_route ''b'' ''api.test'' ''/'' ''p'')"
proof -
  let ?a = "plain_route ''a'' [] ''/'' ''p''" and ?b = "plain_route ''b'' ''api.test'' ''/'' ''p''"
  have host: "normalize_host ''API.test:80'' = ''api.test''" "normalize_host ''api.test'' = ''api.test''"
    by code_simp+
  have "eligible [?a, ?b] ''API.test:80'' ''/x'' = [?a] @ ?b # []"
    by (simp add: eligible_def host plain_route_def path_matches_def has_prefix_def)
  moreover have "\<forall>q \<in> set [?a]. outranks ?b q" by (simp add: outranks_def plain_route_def)
  moreover have "\<forall>q \<in> set []. \<not> outranks q ?b" by simp
  ultimately show ?thesis
    using route_match_spec [of "[?a, ?b]" "''API.test:80''" "''/x''" ?b] by blast
qed

end
