(* ===== verification/Cache.thy ===== *)
theory Cache
  imports GoHttp "HOL-Library.AList"
begin

text \<open>
  The bounded response cache (package \<open>cache\<close>, file \<open>cache.go\<close>). As in the source there are
  two structures over the same elements: the map \<open>items\<close> from keys to list elements and the
  recency list \<open>lru\<close>, front first. An element is its identity, a number allocated on
  \<open>PushFront\<close>; the recency list carries the item each element points to. All operations run
  under \<open>mu\<close>, so a concurrent history is a sequence of them. A clock reading is an argument
  of the operation that takes it. Responses are values, so the defensive copies of the source
  are the identity here.

  The lemmas show that the two structures and the byte count stay consistent, that \<open>Set\<close>
  refines "move to front, keep the longest prefix that fits", and what a hit can return.
\<close>

record response =
  resp_status :: int
  resp_header :: header
  resp_body :: string
  resp_stored :: time

record item =
  it_key :: string
  it_response :: response
  it_expires :: time
  it_size :: int64

type_synonym element = nat

record cache =
  items :: "(string \<times> element) list"
  lru :: "(element \<times> item) list"
  max_entries :: int
  max_bytes :: int64
  bytes :: int64
  next_element :: element

definition new_cache :: "int \<Rightarrow> int64 \<Rightarrow> cache" where
  "new_cache me mb = \<lparr>items = [], lru = [], max_entries = me, max_bytes = mb, bytes = 0,
     next_element = 0\<rparr>"

text \<open>\<open>container/list\<close>: the back element, removal and \<open>MoveToFront\<close>.\<close>

definition lru_back :: "(element \<times> item) list \<Rightarrow> element option" where
  "lru_back l = (if l = [] then None else Some (fst (last l)))"

definition lru_remove :: "element \<Rightarrow> (element \<times> item) list \<Rightarrow> (element \<times> item) list" where
  "lru_remove e l = filter (\<lambda>x. fst x \<noteq> e) l"

definition lru_to_front :: "element \<Rightarrow> (element \<times> item) list \<Rightarrow> (element \<times> item) list" where
  "lru_to_front e l = filter (\<lambda>x. fst x = e) l @ lru_remove e l"

definition response_size :: "string \<Rightarrow> response \<Rightarrow> int64" where
  "response_size key r = int (length key) + int (length (resp_body r)) +
     sum_list (map (\<lambda>(name, values). int (length name) + sum_list (map (\<lambda>v. int (length v)) values))
       (resp_header r))"

text \<open>\<open>remove\<close>: a nil element is ignored; an element outside the list does not occur (\<open>cache_wf\<close>).\<close>

definition remove :: "cache \<Rightarrow> element option \<Rightarrow> cache" where
  "remove c el = (case el of None \<Rightarrow> c
     | Some e \<Rightarrow> (case map_of (lru c) e of None \<Rightarrow> c
        | Some entry \<Rightarrow> c\<lparr>items := AList.delete (it_key entry) (items c),
            bytes := wrap64 (bytes c - it_size entry),
            lru := lru_remove e (lru c)\<rparr>))"

definition cache_get :: "cache \<Rightarrow> time \<Rightarrow> string \<Rightarrow> response option \<times> cache" where
  "cache_get c now key =
     (case map_of (items c) key of None \<Rightarrow> (None, c)
      | Some e \<Rightarrow> (case map_of (lru c) e of None \<Rightarrow> (None, c)
         | Some entry \<Rightarrow>
             if \<not> now < it_expires entry then (None, remove c (Some e))
             else (Some (it_response entry), c\<lparr>lru := lru_to_front e (lru c)\<rparr>)))"

text \<open>
  The loop at the end of \<open>Set\<close>. It removes the back element while a bound is exceeded; with a
  negative bound the list empties and the loop never ends, so its value is an option.
\<close>

partial_function (option) evict :: "cache \<Rightarrow> cache option" where
  "evict c = (if int (length (items c)) > max_entries c \<or> bytes c > max_bytes c
     then evict (remove c (lru_back (lru c))) else Some c)"

definition cache_set ::
  "cache \<Rightarrow> time \<Rightarrow> time \<Rightarrow> string \<Rightarrow> response \<Rightarrow> duration \<Rightarrow> (bool \<times> cache) option" where
  "cache_set c now1 now2 key r ttl =
     (if ttl \<le> 0 then Some (False, c)
      else let r' = r\<lparr>resp_stored := now1\<rparr>; size = response_size key r' in
        if size > max_bytes c then Some (False, c)
        else let c1 = (case map_of (items c) key of Some e \<Rightarrow> remove c (Some e) | None \<Rightarrow> c);
                 entry = \<lparr>it_key = key, it_response = r', it_expires = time_add now2 ttl, it_size = size\<rparr>;
                 e = next_element c1;
                 c2 = c1\<lparr>lru := (e, entry) # lru c1, next_element := Suc e,
                         items := AList.update key e (items c1),
                         bytes := wrap64 (bytes c1 + size)\<rparr>
             in map_option (\<lambda>c'. (True, c')) (evict c2))"

definition cache_len :: "cache \<Rightarrow> nat" where
  "cache_len c = length (items c)"

section \<open>Consistency of the two structures\<close>

definition cache_wf :: "cache \<Rightarrow> bool" where
  "cache_wf c \<longleftrightarrow>
     distinct (map fst (items c)) \<and> distinct (map fst (lru c)) \<and>
     distinct (map (\<lambda>x. it_key (snd x)) (lru c)) \<and>
     set (items c) = (\<lambda>x. (it_key (snd x), fst x)) ` set (lru c) \<and>
     (\<forall>x \<in> set (lru c). fst x < next_element c \<and> 0 \<le> it_size (snd x)) \<and>
     bytes c = sum_list (map (\<lambda>x. it_size (snd x)) (lru c))"

definition cache_inv :: "cache \<Rightarrow> bool" where
  "cache_inv c \<longleftrightarrow> cache_wf c \<and> 0 \<le> max_entries c \<and> 0 \<le> max_bytes c \<and>
     2 * max_bytes c \<le> max_int64 \<and>
     int (length (items c)) \<le> max_entries c \<and> bytes c \<le> max_bytes c"

lemma cache_inv_new [inv_intros]:
  "0 \<le> me \<Longrightarrow> 0 \<le> mb \<Longrightarrow> 2 * mb \<le> max_int64 \<Longrightarrow> cache_inv (new_cache me mb)"
  by (simp add: cache_inv_def cache_wf_def new_cache_def)

lemma wf_lookup:
  assumes "cache_wf c"
  shows "map_of (items c) key = Some e \<longleftrightarrow> (\<exists>it. (e, it) \<in> set (lru c) \<and> it_key it = key)"
proof -
  have "map_of (items c) key = Some e \<longleftrightarrow> (key, e) \<in> set (items c)"
    using assms by (simp add: cache_wf_def map_of_eq_Some_iff)
  also have "set (items c) = (\<lambda>x. (it_key (snd x), fst x)) ` set (lru c)"
    using assms by (simp only: cache_wf_def)
  finally show ?thesis by force
qed

lemma wf_length:
  assumes "cache_wf c"
  shows "length (items c) = length (lru c)"
proof -
  have inj: "inj_on (\<lambda>x. (it_key (snd x), fst x)) (set (lru c))"
    using assms by (intro inj_onI) (auto simp: cache_wf_def distinct_map dest: inj_onD)
  have "length (items c) = card (set (items c))"
    using assms by (simp add: cache_wf_def distinct_card [symmetric] distinct_map)
  also have "\<dots> = card (set (lru c))"
    using assms inj by (simp add: cache_wf_def card_image)
  also have "\<dots> = length (lru c)"
    using assms by (simp add: cache_wf_def distinct_card distinct_map)
  finally show ?thesis .
qed

lemma wf_lru_of:
  "cache_wf c \<Longrightarrow> (e, it) \<in> set (lru c) \<Longrightarrow> map_of (lru c) e = Some it"
  by (simp add: cache_wf_def map_of_is_SomeI)

lemma wf_lru_key_unique:
  "cache_wf c \<Longrightarrow> (e, it) \<in> set (lru c) \<Longrightarrow> (e', it') \<in> set (lru c) \<Longrightarrow>
   it_key it = it_key it' \<longleftrightarrow> e = e'"
  using wf_lookup [of c "it_key it" e] wf_lookup [of c "it_key it'" e']
    wf_lru_of [of c e it] wf_lru_of [of c e' it'] by auto

lemma wf_lru_remove:
  assumes "cache_wf c" and "(e, it) \<in> set (lru c)"
  shows "lru_remove e (lru c) = filter (\<lambda>x. it_key (snd x) \<noteq> it_key it) (lru c)"
  unfolding lru_remove_def
proof (rule filter_cong)
  fix x assume "x \<in> set (lru c)"
  then show "(fst x \<noteq> e) = (it_key (snd x) \<noteq> it_key it)"
    using wf_lru_key_unique [OF assms, of "fst x" "snd x"] by (simp add: eq_commute)
qed simp

lemma sum_list_filter_out:
  assumes "distinct (map fst l)" and "(e, it) \<in> set l"
  shows "sum_list (map (\<lambda>x. f (snd x)) (lru_remove e l)) = sum_list (map (\<lambda>x. f (snd x)) l) - (f it :: int)"
  using assms
proof (induction l)
  case (Cons x l)
  show ?case
  proof (cases "fst x = e")
    case True
    with Cons.prems(1) have "e \<notin> fst ` set l" by simp
    then have "(e, it) \<notin> set l" by force
    with Cons.prems(2) have "x = (e, it)" by simp
    moreover have "filter (\<lambda>x. fst x \<noteq> e) l = l"
      using \<open>e \<notin> fst ` set l\<close> by (force simp: filter_id_conv)
    ultimately show ?thesis by (simp add: lru_remove_def)
  next
    case False
    with Cons show ?thesis by (auto simp: lru_remove_def)
  qed
qed simp


section \<open>The abstract cache: a list of items, most recent first\<close>

definition cache_abs :: "cache \<Rightarrow> item list" where
  "cache_abs c = map snd (lru c)"

definition without :: "string \<Rightarrow> item list \<Rightarrow> item list" where
  "without key its = filter (\<lambda>it. it_key it \<noteq> key) its"

text \<open>The longest prefix with at most \<open>n\<close> items and at most \<open>b\<close> bytes in all.\<close>

primrec fit :: "int \<Rightarrow> int \<Rightarrow> item list \<Rightarrow> item list" where
  "fit n b [] = []"
| "fit n b (it # its) =
     (if n \<le> 0 \<or> b < it_size it then [] else it # fit (n - 1) (b - it_size it) its)"

definition total_size :: "item list \<Rightarrow> int" where
  "total_size its = sum_list (map it_size its)"

definition abs_get :: "time \<Rightarrow> string \<Rightarrow> item list \<Rightarrow> response option \<times> item list" where
  "abs_get now key its = (case find (\<lambda>it. it_key it = key) its of
     None \<Rightarrow> (None, its)
   | Some it \<Rightarrow> if now < it_expires it then (Some (it_response it), it # without key its)
       else (None, without key its))"

definition abs_set ::
  "int \<Rightarrow> int64 \<Rightarrow> time \<Rightarrow> time \<Rightarrow> string \<Rightarrow> response \<Rightarrow> duration \<Rightarrow> item list \<Rightarrow> bool \<times> item list" where
  "abs_set me mb now1 now2 key r ttl its =
     (let r' = r\<lparr>resp_stored := now1\<rparr>; size = response_size key r' in
      if ttl \<le> 0 \<or> size > mb then (False, its)
      else (True, fit me mb (\<lparr>it_key = key, it_response = r', it_expires = now2 + ttl,
                               it_size = size\<rparr> # without key its)))"

lemma total_size_simps [simp]:
  "total_size [] = 0" "total_size (it # its) = it_size it + total_size its"
  "total_size (xs @ ys) = total_size xs + total_size ys"
  by (simp_all add: total_size_def)

lemma total_size_nonneg: "\<forall>it \<in> set its. 0 \<le> it_size it \<Longrightarrow> 0 \<le> total_size its"
  by (induction its) auto

lemma fit_all:
  "\<forall>it \<in> set its. 0 \<le> it_size it \<Longrightarrow> int (length its) \<le> n \<Longrightarrow> total_size its \<le> b \<Longrightarrow> fit n b its = its"
proof (induction its arbitrary: n b)
  case (Cons it its)
  then have "0 \<le> total_size its" by (intro total_size_nonneg) simp
  with Cons show ?case by simp
qed simp

lemma fit_butlast:
  "\<forall>it \<in> set its. 0 \<le> it_size it \<Longrightarrow> n < int (length its) \<or> b < total_size its \<Longrightarrow>
   fit n b (butlast its) = fit n b its"
proof (induction its arbitrary: n b)
  case (Cons it its)
  show ?case
  proof (cases its)
    case Nil
    with Cons.prems show ?thesis by auto
  next
    case (Cons it' its')
    with Cons.prems Cons.IH [of "n - 1" "b - it_size it"] show ?thesis by auto
  qed
qed simp

lemma fit_prefix: "\<exists>rest. its = fit n b its @ rest"
  by (induction its arbitrary: n b) auto

lemma fit_bounds:
  "0 \<le> n \<Longrightarrow> 0 \<le> b \<Longrightarrow> int (length (fit n b its)) \<le> n \<and> total_size (fit n b its) \<le> b"
proof (induction its arbitrary: n b)
  case (Cons it its)
  from Cons.IH [of "n - 1" "b - it_size it"] Cons.prems show ?case by auto
qed simp

text \<open>\<open>fit\<close> is maximal: any longer prefix breaks one of the bounds.\<close>

lemma fit_maximal:
  "\<forall>it \<in> set its. 0 \<le> it_size it \<Longrightarrow> its = p @ rest \<Longrightarrow> int (length p) \<le> n \<Longrightarrow> total_size p \<le> b \<Longrightarrow>
   length p \<le> length (fit n b its)"
proof (induction its arbitrary: p n b)
  case (Cons it its)
  show ?case
  proof (cases p)
    case Nil
    then show ?thesis by simp
  next
    case (Cons it' p')
    with Cons.prems have p: "p = it # p'" "its = p' @ rest" by auto
    then have "0 \<le> total_size p'" using Cons.prems(1) by (intro total_size_nonneg) auto
    with p Cons.prems Cons.IH [of p' "n - 1" "b - it_size it"] show ?thesis by auto
  qed
qed simp

section \<open>Each operation keeps the structures consistent and refines the list\<close>

lemma remove_Some:
  assumes "cache_wf c" and "(e, it) \<in> set (lru c)" and "bytes c \<le> max_int64"
  shows "remove c (Some e) = c\<lparr>items := AList.delete (it_key it) (items c),
           bytes := bytes c - it_size it, lru := lru_remove e (lru c)\<rparr>"
    and "cache_wf (remove c (Some e))"
proof -
  have look: "map_of (lru c) e = Some it" using assms by (rule_tac wf_lru_of)
  have sum: "sum_list (map (\<lambda>x. it_size (snd x)) (lru_remove e (lru c))) = bytes c - it_size it"
    using assms by (subst sum_list_filter_out [where it = it]) (auto simp: cache_wf_def)
  have "0 \<le> sum_list (map (\<lambda>x. it_size (snd x)) (lru_remove e (lru c)))"
    using assms(1) by (intro sum_list_nonneg) (auto simp: cache_wf_def lru_remove_def)
  moreover have "0 \<le> it_size it" using assms by (auto simp: cache_wf_def)
  ultimately have "wrap64 (bytes c - it_size it) = bytes c - it_size it"
    using assms(3) sum by (intro wrap64_id) (simp add: is_int64_def min_int64_def)
  then show eq: "remove c (Some e) = c\<lparr>items := AList.delete (it_key it) (items c),
           bytes := bytes c - it_size it, lru := lru_remove e (lru c)\<rparr>"
    by (simp add: remove_def look)
  have "set (AList.delete (it_key it) (items c)) =
      (\<lambda>x. (it_key (snd x), fst x)) ` set (lru_remove e (lru c))"
  proof -
    have "set (AList.delete (it_key it) (items c)) = {x \<in> set (items c). fst x \<noteq> it_key it}"
      by (auto simp: AList.delete_eq)
    also have "set (items c) = (\<lambda>x. (it_key (snd x), fst x)) ` set (lru c)"
      using assms(1) by (simp only: cache_wf_def)
    also have "{x \<in> (\<lambda>x. (it_key (snd x), fst x)) ` set (lru c). fst x \<noteq> it_key it} =
        (\<lambda>x. (it_key (snd x), fst x)) ` set (lru_remove e (lru c))"
      by (auto simp: wf_lru_remove [OF assms(1,2)])
    finally show ?thesis .
  qed
  then show "cache_wf (remove c (Some e))"
    using assms(1) sum unfolding eq cache_wf_def
    by (auto simp: lru_remove_def distinct_map_filter distinct_delete)
qed

lemma remove_abs:
  assumes "cache_wf c" and "(e, it) \<in> set (lru c)" and "bytes c \<le> max_int64"
  shows "cache_abs (remove c (Some e)) = without (it_key it) (cache_abs c)"
  unfolding remove_Some(1) [OF assms]
  by (simp add: cache_abs_def wf_lru_remove [OF assms(1,2)] without_def filter_map comp_def)

lemma remove_back:
  assumes "cache_wf c" and "lru c \<noteq> []" and "bytes c \<le> max_int64"
  shows "cache_wf (remove c (lru_back (lru c)))"
    and "cache_abs (remove c (lru_back (lru c))) = butlast (cache_abs c)"
    and "lru (remove c (lru_back (lru c))) = butlast (lru c)"
    and "bytes (remove c (lru_back (lru c))) \<le> bytes c"
    and "max_entries (remove c (lru_back (lru c))) = max_entries c"
    and "max_bytes (remove c (lru_back (lru c))) = max_bytes c"
proof -
  obtain e it where last: "last (lru c) = (e, it)" by fastforce
  then have bk: "lru_back (lru c) = Some e" using assms(2) by (simp add: lru_back_def)
  have mem: "(e, it) \<in> set (lru c)" using last assms(2) last_in_set by metis
  note rem = remove_Some(1) [OF assms(1) mem assms(3)]
  show "cache_wf (remove c (lru_back (lru c)))"
    unfolding bk by (rule remove_Some(2) [OF assms(1) mem assms(3)])
  have "lru c = butlast (lru c) @ [(e, it)]" using assms(2) last by (metis append_butlast_last_id)
  moreover have "distinct (map fst (lru c))" using assms(1) by (simp add: cache_wf_def)
  ultimately have "distinct (map fst (butlast (lru c) @ [(e, it)]))" by metis
  then have "e \<notin> fst ` set (butlast (lru c))" by simp
  then have "lru_remove e (butlast (lru c) @ [(e, it)]) = butlast (lru c)"
    by (force simp: lru_remove_def filter_id_conv)
  then have "lru_remove e (lru c) = butlast (lru c)"
    using \<open>lru c = butlast (lru c) @ [(e, it)]\<close> by simp
  then show lru: "lru (remove c (lru_back (lru c))) = butlast (lru c)"
    by (simp add: bk rem)
  show "cache_abs (remove c (lru_back (lru c))) = butlast (cache_abs c)"
    by (simp add: cache_abs_def lru map_butlast)
  show "bytes (remove c (lru_back (lru c))) \<le> bytes c"
    using assms(1) mem by (auto simp: bk rem cache_wf_def)
  show "max_entries (remove c (lru_back (lru c))) = max_entries c"
    and "max_bytes (remove c (lru_back (lru c))) = max_bytes c" by (simp_all add: bk rem)
qed

lemma wf_abs:
  assumes "cache_wf c"
  shows "\<forall>it \<in> set (cache_abs c). 0 \<le> it_size it"
    and "total_size (cache_abs c) = bytes c"
    and "length (cache_abs c) = length (items c)"
    and "distinct (map it_key (cache_abs c))"
  using assms by (auto simp: cache_wf_def cache_abs_def total_size_def comp_def wf_length [OF assms])

lemma evict_spec:
  assumes "cache_wf c" and "0 \<le> max_entries c" and "0 \<le> max_bytes c" and "bytes c \<le> max_int64"
  shows "\<exists>c'. evict c = Some c' \<and> cache_wf c' \<and>
     max_entries c' = max_entries c \<and> max_bytes c' = max_bytes c \<and>
     cache_abs c' = fit (max_entries c) (max_bytes c) (cache_abs c)"
  using assms
proof (induction "length (lru c)" arbitrary: c)
  case 0
  then show ?case
    using wf_length [of c] by (subst evict.simps) (auto simp: cache_wf_def cache_abs_def)
next
  case (Suc n)
  note abs = wf_abs [OF Suc.prems(1)]
  show ?case
  proof (cases "int (length (items c)) > max_entries c \<or> bytes c > max_bytes c")
    case True
    have ne: "lru c \<noteq> []" using Suc.hyps(2) by auto
    note bk = remove_back [OF Suc.prems(1) ne Suc.prems(4)]
    have "n = length (lru (remove c (lru_back (lru c))))" using Suc.hyps(2) bk(3) by simp
    from Suc.hyps(1) [OF this] Suc.prems bk
    obtain c' where "evict (remove c (lru_back (lru c))) = Some c'" "cache_wf c'"
      "max_entries c' = max_entries c" "max_bytes c' = max_bytes c"
      "cache_abs c' = fit (max_entries c) (max_bytes c) (butlast (cache_abs c))"
      by auto
    moreover have "fit (max_entries c) (max_bytes c) (butlast (cache_abs c)) =
        fit (max_entries c) (max_bytes c) (cache_abs c)"
      using True abs by (intro fit_butlast) auto
    ultimately show ?thesis using True by (subst evict.simps) simp
  next
    case False
    then have "fit (max_entries c) (max_bytes c) (cache_abs c) = cache_abs c"
      using abs by (intro fit_all) auto
    with False Suc.prems(1) show ?thesis by (subst evict.simps) simp
  qed
qed


lemma update_fresh: "k \<notin> fst ` set al \<Longrightarrow> AList.update k v al = al @ [(k, v)]"
  by (induction al) auto

lemma find_key:
  "distinct (map it_key its) \<Longrightarrow>
   find (\<lambda>it. it_key it = key) its = Some it \<longleftrightarrow> it \<in> set its \<and> it_key it = key"
  by (induction its) force+

lemma without_fresh: "find (\<lambda>it. it_key it = key) its = None \<Longrightarrow> without key its = its"
  by (auto simp: find_None_iff without_def filter_id_conv)

lemma lookup_None:
  assumes "cache_wf c"
  shows "map_of (items c) key = None \<longleftrightarrow> find (\<lambda>it. it_key it = key) (cache_abs c) = None"
proof -
  have "map_of (items c) key = None \<longleftrightarrow> \<not> (\<exists>e it. (e, it) \<in> set (lru c) \<and> it_key it = key)"
    using wf_lookup [OF assms, of key] by (auto simp: option.expand split: option.splits)
      (metis not_None_eq)+
  then show ?thesis by (force simp: find_None_iff cache_abs_def)
qed

lemma lookup_Some:
  assumes "cache_wf c" and "map_of (items c) key = Some e"
  obtains it where "(e, it) \<in> set (lru c)" and "it_key it = key"
    and "find (\<lambda>it. it_key it = key) (cache_abs c) = Some it"
proof -
  from assms wf_lookup obtain it where it: "(e, it) \<in> set (lru c)" "it_key it = key" by blast
  moreover have "find (\<lambda>it. it_key it = key) (cache_abs c) = Some it"
    using it wf_abs(4) [OF assms(1)] by (subst find_key) (force simp: cache_abs_def)+
  ultimately show thesis by (rule that)
qed

text \<open>The step of \<open>Set\<close> that drops the previous entry of the key.\<close>

definition drop_key :: "cache \<Rightarrow> string \<Rightarrow> cache" where
  "drop_key c key = (case map_of (items c) key of Some e \<Rightarrow> remove c (Some e) | None \<Rightarrow> c)"

lemma drop_key_spec:
  assumes "cache_wf c" and "bytes c \<le> max_int64"
  shows "cache_wf (drop_key c key)" and "cache_abs (drop_key c key) = without key (cache_abs c)"
    and "bytes (drop_key c key) \<le> bytes c"
    and "max_entries (drop_key c key) = max_entries c" and "max_bytes (drop_key c key) = max_bytes c"
    and "next_element (drop_key c key) = next_element c"
    and "key \<notin> fst ` set (items (drop_key c key))"
proof -
  have all: "cache_wf (drop_key c key) \<and> cache_abs (drop_key c key) = without key (cache_abs c) \<and>
      bytes (drop_key c key) \<le> bytes c \<and> max_entries (drop_key c key) = max_entries c \<and>
      max_bytes (drop_key c key) = max_bytes c \<and> next_element (drop_key c key) = next_element c"
  proof (cases "map_of (items c) key")
    case None
    then have "drop_key c key = c" by (simp add: drop_key_def)
    moreover have "without key (cache_abs c) = cache_abs c"
      using None lookup_None [OF assms(1)] without_fresh by blast
    ultimately show ?thesis using assms(1) by simp
  next
    case (Some e)
    with assms(1) obtain it where it: "(e, it) \<in> set (lru c)" "it_key it = key"
      by (rule lookup_Some)
    have "0 \<le> it_size it" using it assms(1) by (auto simp: cache_wf_def)
    with Some it remove_Some [OF assms(1) it(1) assms(2)] remove_abs [OF assms(1) it(1) assms(2)]
    show ?thesis by (simp add: drop_key_def)
  qed
  then show "cache_wf (drop_key c key)" "cache_abs (drop_key c key) = without key (cache_abs c)"
    "bytes (drop_key c key) \<le> bytes c" "max_entries (drop_key c key) = max_entries c"
    "max_bytes (drop_key c key) = max_bytes c" "next_element (drop_key c key) = next_element c"
    by blast+
  have "set (items (drop_key c key)) = (\<lambda>x. (it_key (snd x), fst x)) ` set (lru (drop_key c key))"
    using all by (simp add: cache_wf_def)
  then have "fst ` set (items (drop_key c key)) = it_key ` set (cache_abs (drop_key c key))"
    by (simp add: cache_abs_def image_image)
  then show "key \<notin> fst ` set (items (drop_key c key))"
    using all by (auto simp: without_def)
qed

lemma push_front_wf:
  assumes wf: "cache_wf c" and fresh: "key \<notin> fst ` set (items c)"
    and key: "it_key it = key" and size: "0 \<le> it_size it" and sum: "bytes c + it_size it \<le> max_int64"
  defines "c' \<equiv> c\<lparr>lru := (next_element c, it) # lru c, next_element := Suc (next_element c),
      items := AList.update key (next_element c) (items c), bytes := wrap64 (bytes c + it_size it)\<rparr>"
  shows "cache_wf c'" and "cache_abs c' = it # cache_abs c" and "bytes c' = bytes c + it_size it"
proof -
  have "0 \<le> bytes c"
    using wf_abs(1,2) [OF wf] total_size_nonneg by metis
  then show bytes: "bytes c' = bytes c + it_size it"
    using size sum by (simp add: c'_def wrap64_id is_int64_def min_int64_def)
  have "set (items c) = (\<lambda>x. (it_key (snd x), fst x)) ` set (lru c)"
    using wf by (simp only: cache_wf_def)
  with fresh have keys: "key \<notin> (\<lambda>x. it_key (snd x)) ` set (lru c)" by (simp add: image_image)
  have new: "next_element c \<notin> fst ` set (lru c)"
    using wf by (force simp: cache_wf_def)
  have items: "items c' = items c @ [(key, next_element c)]"
    using fresh by (simp add: c'_def update_fresh)
  show "cache_wf c'"
    unfolding cache_wf_def bytes items
    using wf fresh keys new size key by (auto simp: c'_def cache_wf_def)
  show "cache_abs c' = it # cache_abs c" by (simp add: cache_abs_def c'_def)
qed

lemma response_size_nonneg: "0 \<le> response_size key r"
  unfolding response_size_def
  by (auto intro!: add_nonneg_nonneg sum_list_nonneg)

lemma cache_set_refines:
  assumes inv: "cache_inv c"
  shows "\<exists>ok c'. cache_set c now1 now2 key r ttl = Some (ok, c') \<and> cache_inv c' \<and>
     max_entries c' = max_entries c \<and> max_bytes c' = max_bytes c \<and>
     (ok, cache_abs c') = abs_set (max_entries c) (max_bytes c) now1 now2 key r ttl (cache_abs c)"
proof -
  let ?r = "r\<lparr>resp_stored := now1\<rparr>"
  let ?size = "response_size key ?r"
  show ?thesis
  proof (cases "ttl \<le> 0 \<or> ?size > max_bytes c")
    case True
    with inv show ?thesis by (auto simp: cache_set_def abs_set_def Let_def)
  next
    case False
    let ?it = "\<lparr>it_key = key, it_response = ?r, it_expires = time_add now2 ttl, it_size = ?size\<rparr>"
    from inv have wf: "cache_wf c" and small: "bytes c \<le> max_bytes c" "2 * max_bytes c \<le> max_int64"
      and bounds: "0 \<le> max_entries c" "0 \<le> max_bytes c" by (simp_all add: cache_inv_def)
    then have le: "bytes c \<le> max_int64" by simp
    define c1 where "c1 = drop_key c key"
    note dk = drop_key_spec [OF wf le, of key, folded c1_def]
    define c2 where "c2 = c1\<lparr>lru := (next_element c1, ?it) # lru c1, next_element := Suc (next_element c1),
      items := AList.update key (next_element c1) (items c1), bytes := wrap64 (bytes c1 + ?size)\<rparr>"
    have "cache_wf c2" and abs2: "cache_abs c2 = ?it # cache_abs c1"
      and "bytes c2 = bytes c1 + ?size"
      using push_front_wf [OF dk(1) dk(7), of ?it] False dk(3) small response_size_nonneg [of key ?r]
      by (simp_all add: c2_def)
    moreover have "max_entries c2 = max_entries c" "max_bytes c2 = max_bytes c"
      using dk by (simp_all add: c2_def)
    ultimately obtain c' where c': "evict c2 = Some c'" "cache_wf c'"
      "max_entries c' = max_entries c" "max_bytes c' = max_bytes c"
      "cache_abs c' = fit (max_entries c) (max_bytes c) (?it # without key (cache_abs c))"
      using evict_spec [of c2] bounds False dk(2,3) small by auto
    have "cache_inv c'"
      unfolding cache_inv_def
      using c' bounds small fit_bounds [of "max_entries c" "max_bytes c"] wf_abs(2,3) [OF c'(2)] by metis
    moreover have "cache_set c now1 now2 key r ttl = Some (True, c')"
      using False c'(1) by (simp add: cache_set_def Let_def c2_def c1_def drop_key_def)
    ultimately show ?thesis
      using c' False by (intro exI [of _ True] exI [of _ c'])
        (simp add: abs_set_def Let_def time_add_def del: fit.simps)
  qed
qed


lemma lru_to_front_eq:
  assumes "distinct (map fst l)" and "(e, it) \<in> set l"
  shows "lru_to_front e l = (e, it) # lru_remove e l"
proof -
  have "filter (\<lambda>x. fst x = e) l = [(e, it)]"
    using assms
  proof (induction l)
    case (Cons x l)
    show ?case
    proof (cases "fst x = e")
      case True
      with Cons.prems(1) have fresh: "e \<notin> fst ` set l" by simp
      then have "(e, it) \<notin> set l" by force
      with Cons.prems(2) have "x = (e, it)" by simp
      moreover have "filter (\<lambda>x. fst x = e) l = []" using fresh by (force simp: filter_empty_conv)
      ultimately show ?thesis by simp
    next
      case False
      with Cons show ?thesis by auto
    qed
  qed simp
  then show ?thesis by (simp add: lru_to_front_def)
qed

lemma to_front_wf:
  assumes wf: "cache_wf c" and mem: "(e, it) \<in> set (lru c)"
  defines "c' \<equiv> c\<lparr>lru := lru_to_front e (lru c)\<rparr>"
  shows "cache_wf c'" and "cache_abs c' = it # without (it_key it) (cache_abs c)"
proof -
  have dist: "distinct (map fst (lru c))" using wf by (simp add: cache_wf_def)
  have lru: "lru c' = (e, it) # lru_remove e (lru c)"
    by (simp add: c'_def lru_to_front_eq [OF dist mem])
  have uniq: "b = it" if "(e, b) \<in> set (lru c)" for b
    using wf_lru_of [OF wf that] wf_lru_of [OF wf mem] by simp
  have set: "set (lru c') = set (lru c)"
    using mem by (auto simp: lru lru_remove_def dest: uniq)
  have sum: "sum_list (map (\<lambda>x. it_size (snd x)) (lru c')) = sum_list (map (\<lambda>x. it_size (snd x)) (lru c))"
    by (simp add: lru sum_list_filter_out [OF dist mem])
  have keys: "distinct (map (\<lambda>x. it_key (snd x)) (lru c'))"
    using wf by (auto simp: lru wf_lru_remove [OF wf mem] cache_wf_def distinct_map_filter)
  have ids: "distinct (map fst (lru c'))"
    using dist by (auto simp: lru lru_remove_def distinct_map_filter)
  show "cache_wf c'"
    unfolding cache_wf_def sum using wf set keys ids by (simp add: cache_wf_def c'_def)
  show "cache_abs c' = it # without (it_key it) (cache_abs c)"
    by (simp add: cache_abs_def lru wf_lru_remove [OF wf mem] without_def filter_map comp_def)
qed

lemma cache_get_refines:
  assumes inv: "cache_inv c"
  shows "cache_inv (snd (cache_get c now key)) \<and>
     max_entries (snd (cache_get c now key)) = max_entries c \<and>
     max_bytes (snd (cache_get c now key)) = max_bytes c \<and>
     (fst (cache_get c now key), cache_abs (snd (cache_get c now key))) = abs_get now key (cache_abs c)"
proof -
  from inv have wf: "cache_wf c" and le: "bytes c \<le> max_int64"
    by (simp_all add: cache_inv_def)
  show ?thesis
  proof (cases "map_of (items c) key")
    case None
    then have "find (\<lambda>it. it_key it = key) (cache_abs c) = None" using lookup_None [OF wf] by blast
    with inv None show ?thesis by (simp add: cache_get_def abs_get_def)
  next
    case (Some e)
    with wf obtain it where it: "(e, it) \<in> set (lru c)" "it_key it = key"
      and find: "find (\<lambda>it. it_key it = key) (cache_abs c) = Some it" by (rule lookup_Some)
    note look = wf_lru_of [OF wf it(1)]
    show ?thesis
    proof (cases "now < it_expires it")
      case False
      note rem = remove_Some [OF wf it(1) le]
      have "0 \<le> it_size it" using it wf by (auto simp: cache_wf_def)
      then have "cache_inv (remove c (Some e))"
        using inv rem length_delete_le [of key "items c"] by (auto simp: cache_inv_def it(2))
      with False Some look find remove_abs [OF wf it(1) le] rem(1) show ?thesis
        by (simp add: cache_get_def abs_get_def it(2))
    next
      case True
      have "cache_inv (c\<lparr>lru := lru_to_front e (lru c)\<rparr>)"
        using inv to_front_wf(1) [OF wf it(1)] by (simp add: cache_inv_def)
      with True Some look find to_front_wf(2) [OF wf it(1)] show ?thesis
        by (simp add: cache_get_def abs_get_def it(2))
    qed
  qed
qed


text \<open>
  C1. Functional correctness of the LRU: from a consistent cache, \<open>Set\<close> always returns (the
  eviction loop ends), keeps both structures consistent and acts on the recency list as the
  specification: it rejects a non-positive TTL and a response over the byte bound, leaving the
  cache alone; otherwise the new entry goes to the front, the key's old entry disappears, and
  the longest prefix within both bounds is kept. \<open>Get\<close> serves an unexpired entry and moves it
  to the front, and drops an expired one.
\<close>

theorem cache_refines_lru:
  assumes "cache_inv c"
  shows "(\<exists>ok c'. cache_set c now1 now2 key r ttl = Some (ok, c') \<and> cache_inv c' \<and>
       (ok, cache_abs c') = abs_set (max_entries c) (max_bytes c) now1 now2 key r ttl (cache_abs c)) \<and>
    cache_inv (snd (cache_get c now key)) \<and>
    (fst (cache_get c now key), cache_abs (snd (cache_get c now key))) = abs_get now key (cache_abs c)"
  using cache_set_refines [OF assms, of now1 now2 key r ttl] cache_get_refines [OF assms, of now key]
  by blast

definition sample_response :: response where
  "sample_response = \<lparr>resp_status = 200, resp_header = [], resp_body = ''body'', resp_stored = 0\<rparr>"

lemma sample_inv: "cache_inv (new_cache 1 100)"
  by (rule cache_inv_new) (simp_all add: max_int64_def)

lemma sample_set:
  "abs_set 1 100 5 6 ''k'' sample_response 10 [] =
     (True, [\<lparr>it_key = ''k'', it_response = sample_response\<lparr>resp_stored := 5\<rparr>, it_expires = 16, it_size = 5\<rparr>])"
  by (simp add: abs_set_def Let_def response_size_def sample_response_def without_def)

theorem cache_refines_lru_witness:
  "\<exists>c'. cache_set (new_cache 1 100) 5 6 ''k'' sample_response 10 = Some (True, c') \<and> cache_inv c'"
proof -
  have "max_entries (new_cache 1 100) = 1" "max_bytes (new_cache 1 100) = 100"
    "cache_abs (new_cache 1 100) = []" by (simp_all add: new_cache_def cache_abs_def)
  with cache_refines_lru [OF sample_inv, of 5 6 "''k''" sample_response 10 0] show ?thesis
    by (auto simp: sample_set)
qed

text \<open>
  What eviction keeps is maximal: no longer prefix of the recency list, most recent first,
  fits both bounds, so \<open>Set\<close> never evicts an entry it could have kept in recency order.
\<close>

lemma cache_set_keeps_longest_prefix:
  assumes "cache_inv c" and "cache_set c now1 now2 key r ttl = Some (True, c')"
    and "it # without key (cache_abs c) = p @ rest"
    and "it = \<lparr>it_key = key, it_response = r\<lparr>resp_stored := now1\<rparr>, it_expires = now2 + ttl,
           it_size = response_size key (r\<lparr>resp_stored := now1\<rparr>)\<rparr>"
    and "int (length p) \<le> max_entries c" and "total_size p \<le> max_bytes c"
  shows "\<exists>more gone. cache_abs c' = p @ more \<and> it # without key (cache_abs c) = cache_abs c' @ gone"
proof -
  let ?its = "it # without key (cache_abs c)"
  from cache_set_refines [OF assms(1), of now1 now2 key r ttl] assms(2,4)
  have abs: "cache_abs c' = fit (max_entries c) (max_bytes c) ?its"
    by (auto simp: abs_set_def Let_def simp del: fit.simps split: if_splits)
  have "\<forall>x \<in> set (cache_abs c). 0 \<le> it_size x"
    using assms(1) wf_abs(1) [of c] by (simp add: cache_inv_def)
  then have sizes: "\<forall>x \<in> set ?its. 0 \<le> it_size x"
    using assms(4) response_size_nonneg by (auto simp: without_def)
  obtain gone where gone: "?its = cache_abs c' @ gone" using fit_prefix abs by metis
  have "length p \<le> length (cache_abs c')"
    unfolding abs by (rule fit_maximal [OF sizes assms(3,5,6)])
  with gone assms(3) have "\<exists>more. cache_abs c' = p @ more"
    by (metis append_eq_append_conv_if append_take_drop_id)
  with gone show ?thesis by blast
qed

section \<open>Histories: what a hit can be\<close>

datatype cache_op =
    OpGet time string
  | OpSet time time string response duration

text \<open>
  A run of operations on any store with these two operations, together with the accepted
  writes: per key, the response as stored and the instant it expires.
\<close>

type_synonym writes = "string \<Rightarrow> (response \<times> time) option"

fun store_run ::
  "('c \<Rightarrow> time \<Rightarrow> string \<Rightarrow> response option \<times> 'c) \<Rightarrow>
   ('c \<Rightarrow> time \<Rightarrow> time \<Rightarrow> string \<Rightarrow> response \<Rightarrow> duration \<Rightarrow> (bool \<times> 'c) option) \<Rightarrow>
   'c \<Rightarrow> writes \<Rightarrow> cache_op list \<Rightarrow> ('c \<times> writes) option" where
  "store_run get put c w [] = Some (c, w)"
| "store_run get put c w (OpGet now key # ops) = store_run get put (snd (get c now key)) w ops"
| "store_run get put c w (OpSet now1 now2 key r ttl # ops) =
     (case put c now1 now2 key r ttl of
        None \<Rightarrow> None
      | Some (ok, c') \<Rightarrow> store_run get put c'
          (if ok then w(key \<mapsto> (r\<lparr>resp_stored := now1\<rparr>, now2 + ttl)) else w) ops)"

locale response_store =
  fixes get :: "'c \<Rightarrow> time \<Rightarrow> string \<Rightarrow> response option \<times> 'c"
    and put :: "'c \<Rightarrow> time \<Rightarrow> time \<Rightarrow> string \<Rightarrow> response \<Rightarrow> duration \<Rightarrow> (bool \<times> 'c) option"
    and entries :: "'c \<Rightarrow> writes" and inv :: "'c \<Rightarrow> bool"
  assumes get_value: "inv c \<Longrightarrow> fst (get c now key) = (case entries c key of
        None \<Rightarrow> None | Some (r, exp) \<Rightarrow> if now < exp then Some r else None)"
    and get_keeps: "inv c \<Longrightarrow> inv (snd (get c now key)) \<and> entries (snd (get c now key)) \<subseteq>\<^sub>m entries c"
    and put_returns: "inv c \<Longrightarrow> \<exists>ok c'. put c now1 now2 key r ttl = Some (ok, c') \<and> inv c' \<and>
        entries c' \<subseteq>\<^sub>m (if ok then (entries c)(key \<mapsto> (r\<lparr>resp_stored := now1\<rparr>, now2 + ttl)) else entries c)"
begin

lemma run_total:
  "inv c \<Longrightarrow> entries c \<subseteq>\<^sub>m w \<Longrightarrow> \<exists>c' w'. store_run get put c w ops = Some (c', w') \<and> inv c' \<and> entries c' \<subseteq>\<^sub>m w'"
proof (induction ops arbitrary: c w)
  case Nil
  then show ?case by simp
next
  case (Cons op ops)
  show ?case
  proof (cases op)
    case (OpGet now key)
    from get_keeps [OF Cons.prems(1), of now key] have "inv (snd (get c now key))"
      and "entries (snd (get c now key)) \<subseteq>\<^sub>m w" using Cons.prems(2) by (auto intro: map_le_trans)
    from Cons.IH [OF this] OpGet show ?thesis by simp
  next
    case (OpSet now1 now2 key r ttl)
    from put_returns [OF Cons.prems(1), of now1 now2 key r ttl] obtain ok c' where
      put: "put c now1 now2 key r ttl = Some (ok, c')" and "inv c'" and
      le: "entries c' \<subseteq>\<^sub>m (if ok then (entries c)(key \<mapsto> (r\<lparr>resp_stored := now1\<rparr>, now2 + ttl)) else entries c)"
      by blast
    let ?w = "if ok then w(key \<mapsto> (r\<lparr>resp_stored := now1\<rparr>, now2 + ttl)) else w"
    have "entries c' \<subseteq>\<^sub>m ?w"
      by (rule map_le_trans [OF le]) (use Cons.prems(2) in \<open>auto intro: map_le_upd\<close>)
    with Cons.IH [OF \<open>inv c'\<close>, of ?w] OpSet put show ?thesis by simp
  qed
qed

lemma run_hit:
  assumes "inv c" and "entries c \<subseteq>\<^sub>m w" and "store_run get put c w ops = Some (c', w')"
    and "fst (get c' now key) = Some r"
  shows "\<exists>exp. w' key = Some (r, exp) \<and> now < exp"
proof -
  from run_total [OF assms(1,2), of ops] assms(3) have "inv c'" "entries c' \<subseteq>\<^sub>m w'" by auto
  with assms(4) get_value [of c' now key] show ?thesis
    by (auto simp: map_le_def split: option.splits if_splits) (metis domI)
qed

end

definition cache_entries :: "cache \<Rightarrow> writes" where
  "cache_entries c key = map_option (\<lambda>it. (it_response it, it_expires it))
     (find (\<lambda>it. it_key it = key) (cache_abs c))"

lemma find_without:
  "find (\<lambda>it. it_key it = k) (without key its) =
     (if k = key then None else find (\<lambda>it. it_key it = k) its)"
  by (induction its) (auto simp: without_def)

lemma find_append_Some: "find p xs = Some x \<Longrightarrow> find p (xs @ ys) = Some x"
  by (induction xs) auto

definition bounded_inv :: "int \<Rightarrow> int64 \<Rightarrow> cache \<Rightarrow> bool" where
  "bounded_inv me mb c \<longleftrightarrow> cache_inv c \<and> max_entries c = me \<and> max_bytes c = mb"

interpretation lru_store: response_store cache_get cache_set cache_entries "bounded_inv me mb" for me mb
proof unfold_locales
  fix c now key
  assume binv: "bounded_inv me mb c"
  then have "cache_inv c" by (simp add: bounded_inv_def)
  note ref = cache_get_refines [OF this, of now key]
  then show "fst (cache_get c now key) = (case cache_entries c key of
        None \<Rightarrow> None | Some (r, exp) \<Rightarrow> if now < exp then Some r else None)"
    by (auto simp: cache_entries_def abs_get_def split: option.splits if_splits)
  let ?c' = "snd (cache_get c now key)"
  have key: "it_key it = key" if "find (\<lambda>it. it_key it = key) (cache_abs c) = Some it" for it
    using that by (auto simp: find_Some_iff)
  have found: "find (\<lambda>it. it_key it = k) (cache_abs ?c') = find (\<lambda>it. it_key it = k) (cache_abs c) \<or>
      find (\<lambda>it. it_key it = k) (cache_abs ?c') = None" for k
    using ref by (auto simp: abs_get_def find_without dest: key split: option.splits if_splits)
  have "cache_entries ?c' \<subseteq>\<^sub>m cache_entries c"
    unfolding map_le_def
  proof
    fix k assume "k \<in> dom (cache_entries ?c')"
    with found [of k] show "cache_entries ?c' k = cache_entries c k"
      by (auto simp: cache_entries_def)
  qed
  with ref binv show "bounded_inv me mb ?c' \<and> cache_entries ?c' \<subseteq>\<^sub>m cache_entries c"
    by (simp add: bounded_inv_def)
next
  fix c now1 now2 key r ttl
  assume binv: "bounded_inv me mb c"
  then have "cache_inv c" by (simp add: bounded_inv_def)
  from cache_set_refines [OF this, of now1 now2 key r ttl] binv obtain ok c' where
    set: "cache_set c now1 now2 key r ttl = Some (ok, c')" and "bounded_inv me mb c'" and
    abs: "(ok, cache_abs c') = abs_set (max_entries c) (max_bytes c) now1 now2 key r ttl (cache_abs c)"
    unfolding bounded_inv_def by metis
  let ?new = "(cache_entries c)(key \<mapsto> (r\<lparr>resp_stored := now1\<rparr>, now2 + ttl))"
  have "cache_entries c' \<subseteq>\<^sub>m (if ok then ?new else cache_entries c)"
  proof (cases ok)
    case False
    with abs show ?thesis
      by (auto simp: map_le_def cache_entries_def abs_set_def Let_def split: if_splits)
  next
    case True
    define it where "it = \<lparr>it_key = key, it_response = r\<lparr>resp_stored := now1\<rparr>, it_expires = now2 + ttl,
        it_size = response_size key (r\<lparr>resp_stored := now1\<rparr>)\<rparr>"
    from abs True have "cache_abs c' = fit (max_entries c) (max_bytes c) (it # without key (cache_abs c))"
      by (auto simp: abs_set_def Let_def it_def simp del: fit.simps split: if_splits)
    then obtain gone where gone: "it # without key (cache_abs c) = cache_abs c' @ gone"
      using fit_prefix by metis
    have new: "find (\<lambda>x. it_key x = k) (it # without key (cache_abs c)) =
        (if k = key then Some it else find (\<lambda>x. it_key x = k) (cache_abs c))" for k
      by (simp add: find_without it_def)
    have "cache_entries c' \<subseteq>\<^sub>m ?new"
      unfolding map_le_def
    proof
      fix k assume "k \<in> dom (cache_entries c')"
      then obtain x where x: "find (\<lambda>x. it_key x = k) (cache_abs c') = Some x"
        by (auto simp: cache_entries_def)
      then have "find (\<lambda>x. it_key x = k) (it # without key (cache_abs c)) = Some x"
        unfolding gone by (rule find_append_Some)
      then have "(if k = key then Some it else find (\<lambda>x. it_key x = k) (cache_abs c)) = Some x"
        by (simp only: new)
      with x show "cache_entries c' k = ?new k"
        by (auto simp: cache_entries_def it_def split: if_splits)
    qed
    with True show ?thesis by simp
  qed
  with set \<open>bounded_inv me mb c'\<close>
  show "\<exists>ok c'. cache_set c now1 now2 key r ttl = Some (ok, c') \<and> bounded_inv me mb c' \<and>
      cache_entries c' \<subseteq>\<^sub>m (if ok then ?new else cache_entries c)" by blast
qed


text \<open>
  What the cache serves over any history: starting empty, every sequence of \<open>Get\<close>s and
  \<open>Set\<close>s runs to its end, never exceeds the entry and byte bounds, and a hit is always the
  response of the latest accepted \<open>Set\<close> of that very key, before that write's expiry: never a
  stale entry, never another key's, never one a later accepted write replaced.
\<close>

lemma cache_history_safe:
  assumes "0 \<le> me" and "0 \<le> mb" and "2 * mb \<le> max_int64"
  shows "\<exists>c writes. store_run cache_get cache_set (new_cache me mb) Map.empty ops = Some (c, writes) \<and>
    int (cache_len c) \<le> me \<and> bytes c \<le> mb \<and> bytes c = total_size (cache_abs c) \<and>
    (\<forall>now key r. fst (cache_get c now key) = Some r \<longrightarrow>
       (\<exists>exp. writes key = Some (r, exp) \<and> now < exp))"
proof -
  have inv: "bounded_inv me mb (new_cache me mb)"
    using cache_inv_new [OF assms] by (simp add: bounded_inv_def new_cache_def)
  have "cache_entries (new_cache me mb) \<subseteq>\<^sub>m Map.empty"
    by (simp add: map_le_def cache_entries_def dom_def new_cache_def cache_abs_def)
  note run = lru_store.run_total [OF inv this, of ops] lru_store.run_hit [OF inv this, of ops]
  from run(1) obtain c w where
    "store_run cache_get cache_set (new_cache me mb) Map.empty ops = Some (c, w)" and
    "bounded_inv me mb c"
    by blast
  moreover from this(2) have "int (cache_len c) \<le> me" "bytes c \<le> mb"
    "bytes c = total_size (cache_abs c)"
    using wf_abs(2) [of c] by (auto simp: bounded_inv_def cache_inv_def cache_len_def)
  ultimately show ?thesis using run(2) by blast
qed

end
