(* ===== verification/CachePolicy.thy ===== *)
theory CachePolicy
  imports GoHttp
begin

text \<open>
  The shared-cache rules (package \<open>cache\<close>, file \<open>policy.go\<close>): the cache key, which requests
  may use the cache, and whether and for how long a response may be stored. Durations are
  \<open>int64\<close> nanoseconds with Go's wrap-around written out where the source computes.

  \<open>http.ParseTime\<close> is an argument of \<open>evaluate\<close>, so the lemmas hold for any reading of an
  \<open>Expires\<close> header; the clock is the argument \<open>now\<close>.
\<close>

record decision =
  cacheable :: bool
  d_ttl :: duration
  reason :: string

definition refuse :: "string \<Rightarrow> decision" where
  "refuse why = \<lparr>cacheable = False, d_ttl = 0, reason = why\<rparr>"

definition cache_key :: "request \<Rightarrow> string" where
  "cache_key r = ''GET'' @ [CHR 0x00] @ to_lower (r_host r) @ [CHR 0x00] @ request_uri (r_url r)"

definition header_present :: "header \<Rightarrow> string \<Rightarrow> bool" where
  "header_present h name \<longleftrightarrow> length (hdr_values h name) > 0"

definition cache_control_value :: "header \<Rightarrow> string" where
  "cache_control_value h = to_lower (join '','' (hdr_values h ''Cache-Control''))"

text \<open>
  The loop of \<open>splitCacheControl\<close>: the rest of the value, the part since \<open>start\<close>, the parts so
  far and the two flags.
\<close>

primrec split_loop ::
  "string \<Rightarrow> string \<Rightarrow> string list \<Rightarrow> bool \<Rightarrow> bool \<Rightarrow> string list option" where
  "split_loop [] part parts in_quotes escaped =
     (if in_quotes \<or> escaped then None else Some (parts @ [part]))"
| "split_loop (c # s) part parts in_quotes escaped =
     (if escaped then split_loop s (part @ [c]) parts in_quotes False
      else if in_quotes \<and> c = CHR 0x5C then split_loop s (part @ [c]) parts in_quotes True
      else if c = CHR 0x22 then split_loop s (part @ [c]) parts (\<not> in_quotes) False
      else if c = CHR '','' \<and> \<not> in_quotes then split_loop s [] (parts @ [part]) in_quotes False
      else split_loop s (part @ [c]) parts in_quotes False)"

definition split_cache_control :: "string \<Rightarrow> string list option" where
  "split_cache_control v = split_loop v [] [] False False"

definition directive_name :: "string \<Rightarrow> string" where
  "directive_name part = trim_space (hd (split_n2 CHR ''='' part))"

definition has_directive :: "string list \<Rightarrow> string \<Rightarrow> bool" where
  "has_directive directives name \<longleftrightarrow> list_ex (\<lambda>part. directive_name part = name) directives"

text \<open>The loop of \<open>directiveSeconds\<close>, returning \<open>(seconds, present, valid)\<close>.\<close>

primrec seconds_loop :: "string list \<Rightarrow> string \<Rightarrow> int64 \<Rightarrow> bool \<Rightarrow> int64 \<times> bool \<times> bool" where
  "seconds_loop [] name seconds found = (seconds, found, found)"
| "seconds_loop (part # ds) name seconds found =
     (if directive_name part \<noteq> name then seconds_loop ds name seconds found
      else if found then (0, True, False)
      else (case split_n2 CHR ''='' part of
              [_, v] \<Rightarrow> (case parse_int (trim_set (trim_space v) [CHR 0x22]) of
                 None \<Rightarrow> (0, True, False)
               | Some parsed \<Rightarrow> if parsed < 0 then (0, True, False)
                   else seconds_loop ds name parsed True)
            | _ \<Rightarrow> (0, True, False)))"

definition directive_seconds :: "string list \<Rightarrow> string \<Rightarrow> int64 \<times> bool \<times> bool" where
  "directive_seconds directives name = seconds_loop directives name 0 False"

definition duration_seconds_valid :: "int64 \<Rightarrow> bool" where
  "duration_seconds_valid s \<longleftrightarrow> s \<le> go_div max_int64 second"

definition request_eligible :: "request \<Rightarrow> bool \<times> string" where
  "request_eligible r =
     (let h = r_header r in
      if r_method r \<noteq> ''GET'' then (False, ''method'')
      else if header_present h ''Authorization'' then (False, ''authorization'')
      else if header_present h ''Cookie'' then (False, ''cookie'')
      else if header_present h ''Range'' then (False, ''range'')
      else if list_ex (header_present h)
        [''If-Match'', ''If-None-Match'', ''If-Modified-Since'', ''If-Unmodified-Since'', ''If-Range'']
      then (False, ''conditional'')
      else (case split_cache_control (cache_control_value h) of
              None \<Rightarrow> (False, ''request_cache_control'')
            | Some ds \<Rightarrow>
                if has_directive ds ''no-cache'' \<or> has_directive ds ''no-store'' \<or>
                   has_directive ds ''max-age'' \<or> has_directive ds ''min-fresh'' \<or>
                   contains (to_lower (join '','' (hdr_values h ''Pragma''))) ''no-cache''
                then (False, ''request_cache_control'') else (True, ''eligible'')))"

text \<open>The freshness the directives, \<open>Expires\<close> or the default give; \<^const>\<open>Inl\<close> is the refusal.\<close>

definition freshness ::
  "(string \<Rightarrow> time option) \<Rightarrow> time \<Rightarrow> header \<Rightarrow> string list \<Rightarrow> duration \<Rightarrow> string + duration" where
  "freshness parse_time now h directives default_ttl =
     (case directive_seconds directives ''s-maxage'' of (s, present, valid) \<Rightarrow>
        if present then
          (if \<not> valid \<or> \<not> duration_seconds_valid s then Inl ''invalid_freshness''
           else Inr (wrap64 (s * second)))
        else (case directive_seconds directives ''max-age'' of (s, present, valid) \<Rightarrow>
          if present then
            (if \<not> valid \<or> \<not> duration_seconds_valid s then Inl ''invalid_freshness''
             else Inr (wrap64 (s * second)))
          else if header_present h ''Expires'' then
            (case parse_time (hdr_get h ''Expires'') of
               None \<Rightarrow> Inl ''invalid_expires''
             | Some expires \<Rightarrow> Inr (time_sub expires now))
          else Inr default_ttl))"

definition apply_age :: "header \<Rightarrow> duration \<Rightarrow> string + duration" where
  "apply_age h ttl =
     (if header_present h ''Age'' then
        (if length (hdr_values h ''Age'') \<noteq> 1 then Inl ''invalid_age''
         else (case parse_int (trim_space (hdr_get h ''Age'')) of
                 None \<Rightarrow> Inl ''invalid_age''
               | Some age \<Rightarrow>
                   if age < 0 \<or> \<not> duration_seconds_valid age then Inl ''invalid_age''
                   else Inr (wrap64 (ttl - wrap64 (age * second)))))
      else Inr ttl)"

definition evaluate ::
  "(string \<Rightarrow> time option) \<Rightarrow> time \<Rightarrow> request \<Rightarrow> int \<Rightarrow> header \<Rightarrow> duration \<Rightarrow> decision" where
  "evaluate parse_time now r status h default_ttl =
     (if \<not> fst (request_eligible r) then refuse (snd (request_eligible r))
      else if status \<noteq> 200 then refuse ''status''
      else if header_present h ''Set-Cookie'' then refuse ''set_cookie''
      else if header_present h ''Vary'' then refuse ''vary''
      else (case split_cache_control (cache_control_value h) of
              None \<Rightarrow> refuse ''invalid_cache_control''
            | Some ds \<Rightarrow>
                (case find (has_directive ds) [''no-store'', ''private'', ''no-cache''] of
                   Some directive \<Rightarrow> refuse directive
                 | None \<Rightarrow>
                     (case freshness parse_time now h ds default_ttl of
                        Inl why \<Rightarrow> refuse why
                      | Inr ttl \<Rightarrow>
                          (case apply_age h ttl of
                             Inl why \<Rightarrow> refuse why
                           | Inr ttl' \<Rightarrow>
                               if ttl' \<le> 0 then refuse ''zero_ttl''
                               else \<lparr>cacheable = True, d_ttl = ttl', reason = ''cacheable''\<rparr>)))))"

section \<open>What may be stored\<close>

lemma evaluate_safe:
  assumes "cacheable (evaluate parse_time now r status h default_ttl)"
  shows "r_method r = ''GET'' \<and> status = 200 \<and>
    (\<forall>name \<in> {''Authorization'', ''Cookie'', ''Range'', ''If-Match'', ''If-None-Match'',
        ''If-Modified-Since'', ''If-Unmodified-Since'', ''If-Range''}. hdr_values (r_header r) name = []) \<and>
    hdr_values h ''Set-Cookie'' = [] \<and> hdr_values h ''Vary'' = [] \<and>
    (\<exists>ds. split_cache_control (cache_control_value h) = Some ds \<and>
       (\<forall>d \<in> set ds. directive_name d \<notin> {''no-store'', ''private'', ''no-cache''})) \<and>
    (\<exists>ds. split_cache_control (cache_control_value (r_header r)) = Some ds \<and>
       (\<forall>d \<in> set ds. directive_name d \<notin> {''no-store'', ''no-cache'', ''max-age'', ''min-fresh''})) \<and>
    0 < d_ttl (evaluate parse_time now r status h default_ttl)"
proof -
  let ?e = "evaluate parse_time now r status h default_ttl"
  from assms have req: "fst (request_eligible r)" and st: "status = 200"
    and sc: "\<not> header_present h ''Set-Cookie''" and vary: "\<not> header_present h ''Vary''"
    by (auto simp: evaluate_def refuse_def split: if_splits)
  with assms obtain ds where ds: "split_cache_control (cache_control_value h) = Some ds"
    and no: "find (has_directive ds) [''no-store'', ''private'', ''no-cache''] = None"
    and ttl: "0 < d_ttl ?e"
    by (auto simp: evaluate_def refuse_def split: option.splits sum.splits if_splits)
  from no have resp: "\<forall>d \<in> set ds. directive_name d \<notin> {''no-store'', ''private'', ''no-cache''}"
    unfolding find_None_iff by (auto simp: has_directive_def list_ex_iff)
  from req have "r_method r = ''GET''"
    and hdrs: "\<forall>name \<in> {''Authorization'', ''Cookie'', ''Range'', ''If-Match'', ''If-None-Match'',
        ''If-Modified-Since'', ''If-Unmodified-Since'', ''If-Range''}. hdr_values (r_header r) name = []"
    by (auto simp: request_eligible_def Let_def header_present_def split: if_splits)
  moreover from req obtain rs where "split_cache_control (cache_control_value (r_header r)) = Some rs"
    and "\<forall>d \<in> set rs. directive_name d \<notin> {''no-store'', ''no-cache'', ''max-age'', ''min-fresh''}"
    by (auto simp: request_eligible_def Let_def has_directive_def list_ex_iff
        split: if_splits option.splits)
  ultimately show ?thesis
    using st sc vary ds resp ttl by (simp add: header_present_def)
qed

text \<open>
  C19. A response is only declared cacheable when it is safe to share: the request is a plain
  \<open>GET\<close> without credentials, cookies, ranges, conditions or cache-bypassing directives, the
  status is 200, the response sets no cookie and does not vary, none of its \<open>Cache-Control\<close>
  directives is \<open>no-store\<close>, \<open>private\<close> or \<open>no-cache\<close>, and the time to live is positive.
\<close>

theorem evaluate_cacheable_safe:
  assumes "cacheable (evaluate parse_time now r status h default_ttl)"
  shows "r_method r = ''GET'' \<and> status = 200 \<and>
    (\<forall>name \<in> {''Authorization'', ''Cookie'', ''Range'', ''If-Match'', ''If-None-Match'',
        ''If-Modified-Since'', ''If-Unmodified-Since'', ''If-Range''}. hdr_values (r_header r) name = []) \<and>
    hdr_values h ''Set-Cookie'' = [] \<and> hdr_values h ''Vary'' = [] \<and>
    (\<exists>ds. split_cache_control (cache_control_value h) = Some ds \<and>
       (\<forall>d \<in> set ds. directive_name d \<notin> {''no-store'', ''private'', ''no-cache''})) \<and>
    (\<exists>ds. split_cache_control (cache_control_value (r_header r)) = Some ds \<and>
       (\<forall>d \<in> set ds. directive_name d \<notin> {''no-store'', ''no-cache'', ''max-age'', ''min-fresh''})) \<and>
    0 < d_ttl (evaluate parse_time now r status h default_ttl)"
  by (rule evaluate_safe [OF assms])

lemma plain_eligible: "request_eligible (plain_request ''GET'' hst p) = (True, ''eligible'')"
  by (simp add: request_eligible_def plain_request_def header_present_def hdr_values_def
      cache_control_value_def to_lower_def split_cache_control_def has_directive_def
      directive_name_def split_n2_def trim_space_def trim_with_def has_prefix_def)

theorem evaluate_cacheable_safe_witness:
  "cacheable (evaluate (\<lambda>_. None) 0 (plain_request ''GET'' ''api.test'' ''/'') 200 [] 5) \<and>
   0 < d_ttl (evaluate (\<lambda>_. None) 0 (plain_request ''GET'' ''api.test'' ''/'') 200 [] 5)"
proof -
  have "cacheable (evaluate (\<lambda>_. None) 0 (plain_request ''GET'' ''api.test'' ''/'') 200 [] 5)"
    by (simp add: evaluate_def plain_eligible header_present_def hdr_values_def
        cache_control_value_def to_lower_def split_cache_control_def has_directive_def
        directive_name_def split_n2_def trim_space_def trim_with_def freshness_def
        directive_seconds_def apply_age_def)
  from evaluate_cacheable_safe [OF this] this show ?thesis by blast
qed

section \<open>For how long\<close>

text \<open>The age a response already has: the value of its one \<open>Age\<close> field, or zero.\<close>

definition response_age :: "header \<Rightarrow> int64" where
  "response_age h = (if header_present h ''Age''
     then (case parse_int (trim_space (hdr_get h ''Age'')) of Some a \<Rightarrow> a | None \<Rightarrow> 0) else 0)"

lemma go_div_max: "go_div max_int64 second = 9223372036"
  by (simp add: go_div_def max_int64_def second_def wrap64_def)

lemma seconds_in_range:
  "0 \<le> s \<Longrightarrow> duration_seconds_valid s \<Longrightarrow> wrap64 (s * second) = s * second \<and> 0 \<le> s * second"
proof -
  assume "0 \<le> s" "duration_seconds_valid s"
  then have "s \<le> 9223372036" by (simp add: duration_seconds_valid_def go_div_max)
  with \<open>0 \<le> s\<close> have "is_int64 (s * second)"
    by (simp add: is_int64_def min_int64_def max_int64_def second_def)
  with \<open>0 \<le> s\<close> show ?thesis by (simp add: wrap64_id second_def)
qed

lemma seconds_loop_nonneg:
  "seconds_loop ds name s found = (s', p, True) \<Longrightarrow> 0 \<le> s \<Longrightarrow> 0 \<le> s'"
  by (induction ds arbitrary: s found) (auto split: if_splits list.splits option.splits)

lemma directive_seconds_nonneg: "directive_seconds ds name = (s, p, True) \<Longrightarrow> 0 \<le> s"
  unfolding directive_seconds_def by (erule seconds_loop_nonneg) simp

text \<open>
  Explicit freshness is exact: a cacheable response with \<open>s-maxage\<close>, or with \<open>max-age\<close>
  and no \<open>s-maxage\<close>, is stored for that many seconds less its \<open>Age\<close>, computed without
  overflow; one with neither directive and no \<open>Expires\<close> is stored for the configured default
  less its \<open>Age\<close>. So a response whose age has reached its freshness is never stored.
\<close>

lemma evaluate_ttl_exact:
  assumes "cacheable (evaluate parse_time now r 200 h default_ttl)"
    and "split_cache_control (cache_control_value h) = Some ds"
    and "0 \<le> default_ttl" and "is_int64 default_ttl"
    and "directive_seconds ds ''s-maxage'' = (s, ps, vs)"
    and "directive_seconds ds ''max-age'' = (m, pm, vm)"
    and "ps \<or> pm \<or> \<not> header_present h ''Expires''"
  shows "d_ttl (evaluate parse_time now r 200 h default_ttl) =
    (if ps then s * second else if pm then m * second else default_ttl) - response_age h * second"
proof -
  from assms(1,2) obtain ttl ttl' where fresh: "freshness parse_time now h ds default_ttl = Inr ttl"
    and age: "apply_age h ttl = Inr ttl'" "0 < ttl'"
    and res: "d_ttl (evaluate parse_time now r 200 h default_ttl) = ttl'"
    by (auto simp: evaluate_def refuse_def split: option.splits sum.splits if_splits)
  have base: "ttl = (if ps then s * second else if pm then m * second else default_ttl)" "0 \<le> ttl"
    "is_int64 ttl"
    using fresh assms(3-7) seconds_in_range [of s] seconds_in_range [of m]
      directive_seconds_nonneg [of ds "''s-maxage''" s ps] directive_seconds_nonneg [of ds "''max-age''" m pm]
      is_int64_wrap64 [of "s * second"] is_int64_wrap64 [of "m * second"]
    by (auto simp: freshness_def split: if_splits)
  have "ttl' = ttl - response_age h * second"
  proof (cases "header_present h ''Age''")
    case False
    with age show ?thesis by (simp add: apply_age_def response_age_def)
  next
    case True
    with age obtain a where a: "parse_int (trim_space (hdr_get h ''Age'')) = Some a" "0 \<le> a"
      "duration_seconds_valid a" "ttl' = wrap64 (ttl - wrap64 (a * second))"
      by (auto simp: apply_age_def split: option.splits if_splits)
    with seconds_in_range [of a] is_int64_wrap64 [of "a * second"]
    have "wrap64 (a * second) = a * second" "0 \<le> a * second" "is_int64 (a * second)" by auto
    moreover from this base(2,3) have "is_int64 (ttl - a * second)"
      by (auto simp: is_int64_def min_int64_def max_int64_def)
    ultimately show ?thesis using a True by (simp add: response_age_def wrap64_id)
  qed
  with res base(1) show ?thesis by simp
qed


definition fresh_header :: header where
  "fresh_header = [(''Cache-Control'', [''public, s-maxage=180, max-age=30'']), (''Age'', [''10''])]"

lemma canonical_names:
  "canonical_key ''Cache-Control'' = ''Cache-Control''" "canonical_key ''Age'' = ''Age''"
  "canonical_key ''Expires'' = ''Expires''" "canonical_key ''Set-Cookie'' = ''Set-Cookie''"
  "canonical_key ''Vary'' = ''Vary''"
  by code_simp+

lemma fresh_header_values:
  "split_cache_control (cache_control_value fresh_header) = Some [''public'', '' s-maxage=180'', '' max-age=30'']"
  "directive_seconds [''public'', '' s-maxage=180'', '' max-age=30''] ''s-maxage'' = (180, True, True)"
  "directive_seconds [''public'', '' s-maxage=180'', '' max-age=30''] ''max-age'' = (30, True, True)"
  "response_age fresh_header = 10"
  by code_simp+

text \<open>
  \<open>Expires\<close> together with \<open>Age\<close> can overflow. \<open>time.Until\<close> saturates at the least
  duration when \<open>Expires\<close> lies more than 292 years back, and subtracting a positive \<open>Age\<close>
  then wraps to a huge positive time to live: a response that expired long ago is declared
  cacheable for about 292 years.
\<close>

lemma ancient_expires_with_age_is_cached:
  assumes "fst (request_eligible r)" and "hdr_values h ''Set-Cookie'' = []" and "hdr_values h ''Vary'' = []"
    and "hdr_values h ''Cache-Control'' = []"
    and "hdr_values h ''Expires'' = [e]" and "parse_time e = Some expires"
    and "expires - now \<le> min_int64"
    and "hdr_values h ''Age'' = [a]" and "parse_int (trim_space a) = Some age" and "0 < age"
    and "duration_seconds_valid age"
  shows "evaluate parse_time now r 200 h default_ttl =
    \<lparr>cacheable = True, d_ttl = 2 ^ 63 - age * second, reason = ''cacheable''\<rparr>"
proof -
  have cc: "split_cache_control (cache_control_value h) = Some [[]]"
    using assms(4) by (simp add: cache_control_value_def to_lower_def split_cache_control_def)
  have none: "directive_name [] \<noteq> d" if "d \<noteq> []" for d
    using that by (simp add: directive_name_def split_n2_def trim_space_def trim_with_def)
  have "time_sub expires now = min_int64"
    using assms(7) by (simp add: time_sub_def min_int64_def max_int64_def)
  then have fresh: "freshness parse_time now h [[]] default_ttl = Inr min_int64"
    using assms(5,6) none by (simp add: freshness_def directive_seconds_def header_present_def hdr_get_def)
  have small: "age \<le> 9223372036" using assms(11) by (simp add: duration_seconds_valid_def go_div_max)
  have "(min_int64 - age * second + 2 ^ 63) mod 2 ^ 64 = (2 ^ 64 - age * second) mod 2 ^ 64"
    by (simp add: min_int64_def mod_simps)
  also have "\<dots> = 2 ^ 64 - age * second"
    using small assms(10) by (intro mod_pos_pos_trivial) (simp_all add: second_def)
  finally have "wrap64 (min_int64 - age * second) = 2 ^ 63 - age * second"
    by (simp add: wrap64_def)
  then have "apply_age h min_int64 = Inr (2 ^ 63 - age * second)"
    using assms(8-11) seconds_in_range [of age] by (simp add: apply_age_def header_present_def hdr_get_def)
  then show ?thesis
    using assms(1-3) cc fresh none small
    by (simp add: evaluate_def header_present_def has_directive_def second_def)
qed

section \<open>Splitting Cache-Control\<close>

definition quote_step :: "bool \<times> bool \<Rightarrow> char \<Rightarrow> bool \<times> bool" where
  "quote_step st c = (case st of (quoted, escaped) \<Rightarrow>
     if escaped then (quoted, False)
     else if quoted \<and> c = CHR 0x5C then (quoted, True)
     else if c = CHR 0x22 then (\<not> quoted, False) else (quoted, False))"

definition quote_state :: "string \<Rightarrow> bool \<times> bool" where
  "quote_state s = foldl quote_step (False, False) s"

definition bare_comma :: "string \<Rightarrow> bool" where
  "bare_comma s \<longleftrightarrow> (\<exists>a b. s = a @ CHR '','' # b \<and> quote_state a = (False, False))"

lemma quote_state_snoc: "quote_state (s @ [c]) = quote_step (quote_state s) c"
  by (simp add: quote_state_def)

lemma bare_comma_snoc:
  "bare_comma (s @ [c]) \<longleftrightarrow> bare_comma s \<or> c = CHR '','' \<and> quote_state s = (False, False)"
proof
  assume "bare_comma (s @ [c])"
  then obtain a b where ab: "s @ [c] = a @ CHR '','' # b" "quote_state a = (False, False)"
    by (auto simp: bare_comma_def)
  then show "bare_comma s \<or> c = CHR '','' \<and> quote_state s = (False, False)"
    by (cases b rule: rev_cases) (auto simp: bare_comma_def)
next
  assume "bare_comma s \<or> c = CHR '','' \<and> quote_state s = (False, False)"
  then show "bare_comma (s @ [c])"
  proof
    assume "bare_comma s"
    then obtain a b where "s @ [c] = a @ CHR '','' # (b @ [c])" "quote_state a = (False, False)"
      by (auto simp: bare_comma_def)
    then show ?thesis unfolding bare_comma_def by blast
  next
    assume "c = CHR '','' \<and> quote_state s = (False, False)"
    then show ?thesis unfolding bare_comma_def by blast
  qed
qed

lemma split_loop_spec:
  "quote_state part = (q, e) \<Longrightarrow> (e \<longrightarrow> q) \<Longrightarrow> \<not> bare_comma part \<Longrightarrow>
   (case split_loop s part parts q e of
      None \<Rightarrow> fst (foldl quote_step (q, e) s)
    | Some ps \<Rightarrow> \<not> fst (foldl quote_step (q, e) s) \<and>
        (\<exists>qs. ps = parts @ qs \<and> qs \<noteq> [] \<and> join '','' qs = part @ s \<and>
          (\<forall>p \<in> set qs. quote_state p = (False, False) \<and> \<not> bare_comma p)))"
proof (induction s arbitrary: part parts q e)
  case Nil
  then show ?case by auto
next
  case (Cons c s)
  note snoc = quote_state_snoc [of part c] bare_comma_snoc [of part c]
  show ?case
  proof (cases "c = CHR '','' \<and> \<not> q \<and> \<not> e")
    case True
    have "quote_state [] = (False, False)" "\<not> bare_comma []"
      by (simp_all add: quote_state_def bare_comma_def)
    from Cons.IH [of "[]" False False "parts @ [part]", OF this(1) _ this(2)] True Cons.prems
    show ?thesis
      by (auto simp: quote_step_def join_Cons split: option.splits)
  next
    case False
    obtain q' e' where st: "quote_step (q, e) c = (q', e')" by fastforce
    have loop: "split_loop (c # s) part parts q e = split_loop s (part @ [c]) parts q' e'"
      using False st by (auto simp: quote_step_def split: if_splits)
    have "\<not> bare_comma (part @ [c])" "quote_state (part @ [c]) = (q', e')" "e' \<longrightarrow> q'"
      using False Cons.prems st by (auto simp: snoc quote_step_def split: if_splits)
    from Cons.IH [OF this(2,3,1), of parts] show ?thesis
      unfolding loop by (simp add: st split: option.splits)
  qed
qed

text \<open>
  \<open>splitCacheControl\<close> is an exact parse: it fails precisely when the value ends inside a
  quoted string; otherwise joining the parts with commas gives the value back, every part is
  quote-balanced, and no part contains a comma outside quotes (so commas inside quotes never
  split and commas outside always do).
\<close>

lemma split_cache_control_exact:
  "(split_cache_control v = None \<longleftrightarrow> fst (quote_state v)) \<and>
   (\<forall>parts. split_cache_control v = Some parts \<longrightarrow> join '','' parts = v \<and>
      (\<forall>p \<in> set parts. quote_state p = (False, False) \<and> \<not> bare_comma p))"
proof -
  have "quote_state [] = (False, False)" "\<not> bare_comma []"
    by (simp_all add: quote_state_def bare_comma_def)
  from split_loop_spec [OF this(1) _ this(2), of v "[]"] show ?thesis
    by (auto simp: split_cache_control_def quote_state_def split: option.splits)
qed

section \<open>The cache key\<close>

text \<open>
  Keys do not collide: for hosts without NUL bytes (a NUL never gets through the request
  parser), two requests have the same key exactly when their hosts agree up to case and their
  request URIs, query included, are equal.
\<close>

lemma cache_key_injective:
  assumes "CHR 0x00 \<notin> set (to_lower (r_host r))" and "CHR 0x00 \<notin> set (to_lower (r_host s))"
  shows "cache_key r = cache_key s \<longleftrightarrow>
    to_lower (r_host r) = to_lower (r_host s) \<and> request_uri (r_url r) = request_uri (r_url s)"
proof -
  have "xs = ys \<and> us = vs" if "xs @ x # us = ys @ x # vs" "x \<notin> set xs" "x \<notin> set ys"
    for x :: char and xs ys us vs
    using that by (induction xs arbitrary: ys) (auto simp: Cons_eq_append_conv append_eq_Cons_conv)
  from this [of "to_lower (r_host r)" "CHR 0x00" _ "to_lower (r_host s)"] assms show ?thesis
    by (auto simp: cache_key_def)
qed

end
