(* ===== verification/RateLimit.thy ===== *)
theory RateLimit
  imports Config "HOL-Library.AList"
begin

text \<open>
  The per-route, per-client rate limiter (package \<open>proxy\<close>, file \<open>ratelimit.go\<close>): fixed
  windows counted in a bounded table of buckets. The Go map of buckets is an association list
  without duplicate keys; nothing depends on its order. \<open>now\<close> is the reading of the clock that
  \<open>Allow\<close> takes before it locks. The \<open>Retry-After\<close> rounding of \<open>handler.go\<close> is here too.
\<close>

record rate_bucket =
  rb_start :: time
  rb_count :: int

record rate_limiter =
  rl_limit :: int
  window :: duration
  max_keys :: int
  buckets :: "(string \<times> rate_bucket) list"

definition default_rate_limit_max_keys :: int where
  "default_rate_limit_max_keys = 10000"

definition new_rate_limiter :: "rate_limit \<Rightarrow> rate_limiter" where
  "new_rate_limiter cfg =
     \<lparr>rl_limit = rl_requests cfg, window = rl_window cfg,
      max_keys = (if rl_max_keys cfg = 0 then default_rate_limit_max_keys else rl_max_keys cfg),
      buckets = []\<rparr>"

definition prune_expired :: "time \<Rightarrow> rate_limiter \<Rightarrow> rate_limiter" where
  "prune_expired now l =
     l\<lparr>buckets := filter (\<lambda>(key, b). \<not> time_sub now (rb_start b) \<ge> window l) (buckets l)\<rparr>"

definition put_bucket :: "string \<Rightarrow> rate_bucket \<Rightarrow> rate_limiter \<Rightarrow> rate_limiter" where
  "put_bucket key b l = l\<lparr>buckets := AList.update key b (buckets l)\<rparr>"

definition allow :: "time \<Rightarrow> string \<Rightarrow> rate_limiter \<Rightarrow> (bool \<times> duration) \<times> rate_limiter" where
  "allow now key l = (case map_of (buckets l) key of
     Some b \<Rightarrow>
       if time_sub now (rb_start b) < window l then
         (if rb_count b \<ge> rl_limit l
          then ((False, time_sub (time_add (rb_start b) (window l)) now), l)
          else ((True, 0), put_bucket key (b\<lparr>rb_count := wrap64 (rb_count b + 1)\<rparr>) l))
       else ((True, 0), put_bucket key \<lparr>rb_start = now, rb_count = 1\<rparr> l)
   | None \<Rightarrow>
       (let l' = (if int (length (buckets l)) \<ge> max_keys l then prune_expired now l else l) in
        if int (length (buckets l)) \<ge> max_keys l \<and> int (length (buckets l')) \<ge> max_keys l'
        then ((False, second), l')
        else ((True, 0), put_bucket key \<lparr>rb_start = now, rb_count = 1\<rparr> l')))"

definition retry_after_seconds :: "duration \<Rightarrow> int64" where
  "retry_after_seconds d =
     (if d \<le> 0 then 1
      else let seconds = go_div (wrap64 (wrap64 (d + second) - 1)) second in
        if seconds < 1 then 1 else seconds)"

text \<open>A sequence of calls \<open>(now, key)\<close>, in the order in which the mutex is taken, with their answers.\<close>

primrec allow_run :: "(time \<times> string) list \<Rightarrow> rate_limiter \<Rightarrow> (bool \<times> duration) list \<times> rate_limiter" where
  "allow_run [] l = ([], l)"
| "allow_run (c # cs) l =
     (case allow (fst c) (snd c) l of (r, l') \<Rightarrow>
      case allow_run cs l' of (rs, l'') \<Rightarrow> (r # rs, l''))"

section \<open>The table of buckets\<close>

text \<open>
  What every reachable limiter keeps: one bucket per key, each counting at least one and at
  most \<open>limit\<close> requests, and never more than \<open>maxKeys\<close> buckets. The configuration is the one
  the validator lets through: positive \<open>limit\<close>, \<open>window\<close> and \<open>maxKeys\<close>, all of them \<open>int64\<close>.
\<close>

definition limiter_ok :: "rate_limiter \<Rightarrow> bool" where
  "limiter_ok l \<longleftrightarrow> 0 < rl_limit l \<and> is_int64 (rl_limit l) \<and> 0 < window l \<and> is_int64 (window l) \<and> 0 < max_keys l"

definition limiter_inv :: "rate_limiter \<Rightarrow> bool" where
  "limiter_inv l \<longleftrightarrow> limiter_ok l \<and> distinct (map fst (buckets l)) \<and>
     int (length (buckets l)) \<le> max_keys l \<and>
     (\<forall>key b. map_of (buckets l) key = Some b \<longrightarrow> 1 \<le> rb_count b \<and> rb_count b \<le> rl_limit l)"

definition expired :: "time \<Rightarrow> rate_limiter \<Rightarrow> rate_bucket \<Rightarrow> bool" where
  "expired now l b \<longleftrightarrow> window l \<le> now - rb_start b"

lemma in_window [go_int]:
  "limiter_ok l \<Longrightarrow> time_sub now (rb_start b) < window l \<longleftrightarrow> \<not> expired now l b"
  by (subst time_sub_less_iff) (auto simp: limiter_ok_def expired_def min_int64_def)

lemma limiter_fields [simp]:
  "rl_limit (put_bucket key b l) = rl_limit l" "window (put_bucket key b l) = window l"
  "max_keys (put_bucket key b l) = max_keys l" "limiter_ok (put_bucket key b l) = limiter_ok l"
  "rl_limit (prune_expired now l) = rl_limit l" "window (prune_expired now l) = window l"
  "max_keys (prune_expired now l) = max_keys l" "limiter_ok (prune_expired now l) = limiter_ok l"
  by (simp_all add: put_bucket_def prune_expired_def limiter_ok_def)

lemma map_of_put [simp]: "map_of (buckets (put_bucket key b l)) = (map_of (buckets l))(key \<mapsto> b)"
  by (simp add: put_bucket_def update_conv')

lemma distinct_put [intro]: "distinct (map fst (buckets l)) \<Longrightarrow> distinct (map fst (buckets (put_bucket key b l)))"
  by (simp add: put_bucket_def distinct_update)

lemma length_update:
  "length (AList.update k v xs) = (if k \<in> fst ` set xs then length xs else Suc (length xs))"
  by (induction xs) auto

lemma length_put:
  "length (buckets (put_bucket key b l)) =
     (if key \<in> dom (map_of (buckets l)) then length (buckets l) else Suc (length (buckets l)))"
  by (simp add: put_bucket_def length_update dom_map_of_conv_image_fst)

lemma map_of_prune:
  assumes "limiter_ok l" "distinct (map fst (buckets l))"
  shows "map_of (buckets (prune_expired now l)) key =
    (case map_of (buckets l) key of Some b \<Rightarrow> if expired now l b then None else Some b | None \<Rightarrow> None)"
proof -
  have keep: "map_of (filter (\<lambda>(k, v). P v) xs) key =
     (case map_of xs key of Some v \<Rightarrow> if P v then Some v else None | None \<Rightarrow> None)"
    if "distinct (map fst xs)" for P :: "rate_bucket \<Rightarrow> bool" and xs
    using that
  proof (induction xs)
    case (Cons kv xs)
    obtain k v where kv: "kv = (k, v)" by (cases kv)
    show ?case
    proof (cases "key = k")
      case True
      with Cons.prems kv have "map_of xs key = None" by (simp add: map_of_eq_None_iff)
      with Cons kv True show ?thesis by simp
    next
      case False
      with Cons kv show ?thesis by simp
    qed
  qed simp
  have "(\<not> window l \<le> time_sub now (rb_start b)) = (\<not> expired now l b)" for b
    using in_window [OF assms(1), of now b] by linarith
  with keep [OF assms(2), of "\<lambda>b. \<not> window l \<le> time_sub now (rb_start b)"] show ?thesis
    by (simp add: prune_expired_def split: option.split)
qed

lemma distinct_prune [intro]:
  "distinct (map fst (buckets l)) \<Longrightarrow> distinct (map fst (buckets (prune_expired now l)))"
  by (simp add: prune_expired_def distinct_map_filter)

lemma length_prune: "length (buckets (prune_expired now l)) \<le> length (buckets l)"
  by (simp add: prune_expired_def)

lemma limiter_inv_prune [inv_intros]: "limiter_inv l \<Longrightarrow> limiter_inv (prune_expired now l)"
  using length_prune [of now l]
  by (auto simp: limiter_inv_def map_of_prune split: option.splits if_splits)

lemma limiter_inv_put [inv_intros]:
  assumes "limiter_inv l" "1 \<le> rb_count b" "rb_count b \<le> rl_limit l"
    and "key \<in> dom (map_of (buckets l)) \<or> int (length (buckets l)) < max_keys l"
  shows "limiter_inv (put_bucket key b l)"
  using assms by (auto simp: limiter_inv_def length_put)

lemma limiter_inv_new:
  "0 < rl_requests cfg \<Longrightarrow> is_int64 (rl_requests cfg) \<Longrightarrow> 0 < rl_window cfg \<Longrightarrow> is_int64 (rl_window cfg) \<Longrightarrow>
   0 \<le> rl_max_keys cfg \<Longrightarrow> limiter_inv (new_rate_limiter cfg)"
  by (simp add: limiter_inv_def limiter_ok_def new_rate_limiter_def default_rate_limit_max_keys_def)

lemma count_wraps_not: "limiter_inv l \<Longrightarrow> map_of (buckets l) key = Some b \<Longrightarrow> rb_count b < rl_limit l \<Longrightarrow>
    wrap64 (rb_count b + 1) = rb_count b + 1"
  by (rule wrap64_id) (force simp: limiter_inv_def limiter_ok_def is_int64_def min_int64_def)

text \<open>The cases of one call, in the words of the theorems below.\<close>

lemma allow_cases:
  assumes "limiter_inv l"
  obtains
    (Full) b where "map_of (buckets l) key = Some b" "\<not> expired now l b" "rb_count b = rl_limit l"
      "allow now key l = ((False, time_sub (time_add (rb_start b) (window l)) now), l)"
  | (Count) b where "map_of (buckets l) key = Some b" "\<not> expired now l b" "rb_count b < rl_limit l"
      "allow now key l = ((True, 0), put_bucket key (b\<lparr>rb_count := rb_count b + 1\<rparr>) l)"
  | (Restart) b where "map_of (buckets l) key = Some b" "expired now l b"
      "allow now key l = ((True, 0), put_bucket key \<lparr>rb_start = now, rb_count = 1\<rparr> l)"
  | (Refuse) "map_of (buckets l) key = None" "max_keys l \<le> int (length (buckets (prune_expired now l)))"
      "allow now key l = ((False, second), prune_expired now l)"
  | (Fresh) l' where "map_of (buckets l) key = None" "l' = l \<or> l' = prune_expired now l"
      "int (length (buckets l')) < max_keys l"
      "allow now key l = ((True, 0), put_bucket key \<lparr>rb_start = now, rb_count = 1\<rparr> l')"
proof (cases "map_of (buckets l) key")
  case None
  show ?thesis
  proof (cases "max_keys l \<le> int (length (buckets l))")
    case False
    with None have "allow now key l = ((True, 0), put_bucket key \<lparr>rb_start = now, rb_count = 1\<rparr> l)"
      by (simp add: allow_def)
    with None False show ?thesis by (intro Fresh [of l]) simp_all
  next
    case True
    note at_bound = this
    show ?thesis
    proof (cases "max_keys l \<le> int (length (buckets (prune_expired now l)))")
      case True
      with None at_bound show ?thesis by (intro Refuse) (simp_all add: allow_def)
    next
      case False
      with None at_bound show ?thesis
        by (intro Fresh [of "prune_expired now l"]) (simp_all add: allow_def)
    qed
  qed
next
  case (Some b)
  have ok: "limiter_ok l" and le: "rb_count b \<le> rl_limit l"
    using assms Some by (auto simp: limiter_inv_def)
  note open_iff = in_window [OF ok, of now b]
  consider "expired now l b" | "\<not> expired now l b" "rb_count b < rl_limit l"
    | "\<not> expired now l b" "rb_count b = rl_limit l" using le by linarith
  then show ?thesis
  proof cases
    case 1
    with Some show ?thesis by (intro Restart) (simp_all add: allow_def open_iff)
  next
    case 2
    with Some show ?thesis
      by (intro Count) (simp_all add: allow_def open_iff count_wraps_not [OF assms Some])
  next
    case 3
    with Some show ?thesis by (intro Full) (simp_all add: allow_def open_iff)
  qed
qed

lemma limiter_inv_allow [inv_intros]:
  assumes "limiter_inv l"
  shows "limiter_inv (snd (allow now key l))"
  using assms
proof (cases rule: allow_cases [where now = now and key = key])
  case (Fresh l')
  with assms have "limiter_inv l'" by (auto intro: inv_intros)
  moreover from this have "1 \<le> rl_limit l'" by (auto simp: limiter_inv_def limiter_ok_def)
  ultimately show ?thesis using Fresh by (auto intro!: limiter_inv_put)
next
  case (Count b)
  with assms have "1 \<le> rb_count b" by (simp add: limiter_inv_def)
  with Count assms show ?thesis by (auto intro!: limiter_inv_put)
next
  case (Restart b)
  with assms have "1 \<le> rl_limit l" by (auto simp: limiter_inv_def limiter_ok_def)
  with Restart assms show ?thesis by (auto intro!: limiter_inv_put)
qed (use assms in \<open>auto intro: inv_intros\<close>)

lemma limiter_inv_run: "limiter_inv l \<Longrightarrow> limiter_inv (snd (allow_run cs l))"
proof (induction cs arbitrary: l)
  case (Cons c cs)
  with limiter_inv_allow [of l "fst c" "snd c"] show ?case by (simp add: split_beta)
qed simp

lemma allow_fields:
  "limiter_inv l \<Longrightarrow> rl_limit (snd (allow now key l)) = rl_limit l \<and> window (snd (allow now key l)) = window l"
  by (erule allow_cases [where now = now and key = key]) auto

text \<open>
  The answer of every call, whatever happened before: a request is refused exactly when
  its client has used up the whole \<open>limit\<close> of a window that is still open, or when it is a new
  client and \<open>maxKeys\<close> other clients have open windows. Expired windows never count against
  anybody, and the table keeps at most \<open>maxKeys\<close> buckets.
\<close>

lemma allow_refused_iff:
  assumes "limiter_inv (new_rate_limiter cfg)"
    and "l = snd (allow_run cs (new_rate_limiter cfg))"
  shows "(\<not> fst (fst (allow now key l)) \<longleftrightarrow>
    (case map_of (buckets l) key of
       Some b \<Rightarrow> \<not> expired now l b \<and> rb_count b = rl_limit l
     | None \<Rightarrow> max_keys l \<le> int (card {k. \<exists>b. map_of (buckets l) k = Some b \<and> \<not> expired now l b}))) \<and>
    int (length (buckets (snd (allow now key l)))) \<le> max_keys (snd (allow now key l))"
proof -
  from assms have inv: "limiter_inv l" by (simp add: limiter_inv_run)
  then have ok: "limiter_ok l" "distinct (map fst (buckets l))" by (simp_all add: limiter_inv_def)
  have "{k. \<exists>b. map_of (buckets l) k = Some b \<and> \<not> expired now l b} =
      dom (map_of (buckets (prune_expired now l)))"
    using map_of_prune [OF ok, of now] by (auto split: option.splits if_splits)
  also have "card \<dots> = length (buckets (prune_expired now l))"
    using distinct_prune [OF ok(2), of now]
    by (metis dom_map_of_conv_image_fst distinct_card length_map set_map)
  finally have card: "card {k. \<exists>b. map_of (buckets l) k = Some b \<and> \<not> expired now l b} =
      length (buckets (prune_expired now l))" .
  have "\<not> fst (fst (allow now key l)) \<longleftrightarrow>
    (case map_of (buckets l) key of
       Some b \<Rightarrow> \<not> expired now l b \<and> rb_count b = rl_limit l
     | None \<Rightarrow> max_keys l \<le> int (length (buckets (prune_expired now l))))"
    using inv
  proof (cases rule: allow_cases [where now = now and key = key])
    case (Fresh l')
    then show ?thesis using length_prune [of now l] by auto
  qed simp_all
  then show ?thesis
    using limiter_inv_allow [OF inv, of now key] unfolding card by (auto simp: limiter_inv_def)
qed

definition small_limit :: rate_limit where
  "small_limit = \<lparr>rl_enabled = True, rl_requests = 2, rl_window = 10 * second, rl_max_keys = 1\<rparr>"

lemma small_limit_inv: "limiter_inv (new_rate_limiter small_limit)"
  by (rule limiter_inv_new)
     (simp_all add: small_limit_def second_def is_int64_def min_int64_def max_int64_def)

section \<open>Waiting as long as told\<close>

text \<open>The seconds of the \<open>Retry-After\<close> header: rounded up, unless the window is within a second of
  the largest duration, where the addition wraps.\<close>

lemma retry_after_seconds_bounds:
  assumes "0 < d" and "d \<le> max_int64 - second"
  shows "d \<le> retry_after_seconds d * second \<and> retry_after_seconds d * second < d + second"
proof -
  have "wrap64 (d + second) = d + second" "wrap64 (d + second - 1) = d + second - 1"
    using assms by (auto intro!: wrap64_id simp: is_int64_def min_int64_def max_int64_def second_def)
  moreover have "go_div (d + second - 1) second = (d + second - 1) div second"
    using assms unfolding go_div_def
    by (subst wrap64_id) (auto simp: is_int64_def min_int64_def max_int64_def second_def sgn_if)
  moreover have "1 \<le> (d + second - 1) div second"
    using assms by (simp add: second_def)
  ultimately have "retry_after_seconds d = (d + second - 1) div second"
    using assms by (simp add: retry_after_seconds_def)
  moreover have "n div second * second = n - n mod second" "0 \<le> n mod second" "n mod second < second" for n
    by (simp_all add: minus_mod_eq_div_mult second_def)
  ultimately show ?thesis
    by (smt (verit, ccfv_threshold))
qed

text \<open>
  \<open>Retry-After\<close> tells the truth: when a client that used up its window is refused, the
  duration computed for it is positive and at most the window; the client stays refused at
  every moment before it has passed; and when it comes back after the number of seconds of the
  header (rounded up by less than one second) it is admitted, whatever other clients did in
  between short of pruning, and so on every state with the same bucket.
\<close>

lemma retry_after_honest:
  assumes "limiter_inv l" and "window l \<le> max_int64 - second"
    and "map_of (buckets l) key = Some b" and "rb_start b \<le> now"
    and "allow now key l = ((False, d), l')"
    and "limiter_inv m" and "map_of (buckets m) key = Some b"
    and "rl_limit m = rl_limit l" and "window m = window l"
  shows "0 < d \<and> d \<le> window l \<and> d \<le> retry_after_seconds d * second \<and>
    retry_after_seconds d * second < d + second \<and>
    (\<forall>t. now \<le> t \<and> t < now + d \<longrightarrow> \<not> fst (fst (allow t key m))) \<and>
    (\<forall>t. now + retry_after_seconds d * second \<le> t \<longrightarrow> fst (fst (allow t key m)))"
proof -
  from assms(1,3,5) have open_b: "\<not> expired now l b" and full: "rb_count b = rl_limit l"
    and d: "d = time_sub (time_add (rb_start b) (window l)) now"
    by (auto elim: allow_cases [where now = now and key = key])
  have "d = rb_start b + window l - now"
    unfolding d time_add_def
    by (rule time_sub_exact) (use assms(1,2,4) open_b in \<open>auto simp: limiter_inv_def limiter_ok_def expired_def
        is_int64_def min_int64_def max_int64_def second_def\<close>)
  with open_b assms(2,4) have d: "d = rb_start b + window l - now" "0 < d" "d \<le> window l" "d \<le> max_int64 - second"
    by (auto simp: expired_def)
  have stays: "\<not> fst (fst (allow t key m))" if "t < now + d" for t
    using assms(6)
    by (cases rule: allow_cases [where now = t and key = key])
       (use assms(7-9) full d that in \<open>auto simp: expired_def\<close>)
  have opens: "fst (fst (allow t key m))" if "now + d \<le> t" for t
    using assms(6)
    by (cases rule: allow_cases [where now = t and key = key])
       (use assms(7-9) d that in \<open>auto simp: expired_def\<close>)
  from retry_after_seconds_bounds [OF d(2,4)] d(2,3) stays opens show ?thesis
    by (smt (verit, best))
qed

section \<open>The rate\<close>

text \<open>
  The history of one key: its admitted requests, each with the start of the window it was
  counted in. Windows of one key start at least \<open>window\<close> apart, and each holds at most
  \<open>limit\<close> requests.
\<close>

type_synonym admissions = "(time \<times> time) list"

definition history_ok :: "rate_limiter \<Rightarrow> time \<Rightarrow> string \<Rightarrow> admissions \<Rightarrow> bool" where
  "history_ok l now key h \<longleftrightarrow>
     (\<forall>(t, s) \<in> set h. s \<le> t \<and> t < s + window l) \<and>
     (\<forall>s. int (count_list (map snd h) s) \<le> rl_limit l) \<and>
     (\<forall>s \<in> snd ` set h. \<forall>s' \<in> snd ` set h. s < s' \<longrightarrow> s + window l \<le> s') \<and>
     (case map_of (buckets l) key of
        Some b \<Rightarrow> rb_start b \<le> now \<and> (\<forall>s \<in> snd ` set h. s \<le> rb_start b) \<and>
          rb_start b \<in> snd ` set h \<and> int (count_list (map snd h) (rb_start b)) = rb_count b
      | None \<Rightarrow> \<forall>s \<in> snd ` set h. s + window l \<le> now)"

lemma history_start: "limiter_inv l \<Longrightarrow> buckets l = [] \<Longrightarrow> history_ok l now key []"
  by (simp add: history_ok_def limiter_inv_def limiter_ok_def)

lemma history_later: "history_ok l now key h \<Longrightarrow> now \<le> now' \<Longrightarrow> history_ok l now' key h"
  by (fastforce simp: history_ok_def split: option.splits)

lemma history_prune:
  assumes "limiter_inv l" "history_ok l now key h"
  shows "history_ok (prune_expired now l) now key h"
proof -
  have "limiter_ok l" "distinct (map fst (buckets l))" using assms(1) by (simp_all add: limiter_inv_def)
  note prune = map_of_prune [OF this, of now key]
  show ?thesis
  proof (cases "\<exists>b. map_of (buckets l) key = Some b \<and> expired now l b")
    case True
    then obtain b where b: "map_of (buckets l) key = Some b" "window l \<le> now - rb_start b"
      "map_of (buckets (prune_expired now l)) key = None"
      using prune by (auto simp: expired_def)
    with assms(2) have "\<forall>s \<in> snd ` set h. s + window l \<le> now" by (force simp: history_ok_def)
    with assms(2) b show ?thesis by (simp add: history_ok_def)
  next
    case False
    with prune have "map_of (buckets (prune_expired now l)) key = map_of (buckets l) key"
      by (auto split: option.splits)
    with assms(2) show ?thesis by (simp add: history_ok_def split: option.splits)
  qed
qed

lemma history_other:
  "history_ok l now key h \<Longrightarrow> k \<noteq> key \<Longrightarrow> history_ok (put_bucket k b l) now key h"
  by (simp add: history_ok_def split: option.splits)

lemma history_new_window:
  assumes "history_ok l now key h" "limiter_ok l"
    and "\<forall>s \<in> snd ` set h. s + window l \<le> now"
  shows "history_ok (put_bucket key \<lparr>rb_start = now, rb_count = 1\<rparr> l) now key (h @ [(now, now)])"
proof -
  have "now \<notin> snd ` set h" using assms(2,3) by (force simp: limiter_ok_def)
  then have "count_list (map snd h) now = 0" by (simp add: count_list_0_iff)
  moreover have "0 < window l" "0 < rl_limit l" using assms(2) by (simp_all add: limiter_ok_def)
  ultimately show ?thesis
    using assms(1,3) by (fastforce simp: history_ok_def)
qed

lemma history_count:
  assumes "history_ok l now key h" "map_of (buckets l) key = Some b" "\<not> expired now l b"
    and "rb_count b < rl_limit l"
  shows "history_ok (put_bucket key (b\<lparr>rb_count := rb_count b + 1\<rparr>) l) now key (h @ [(now, rb_start b)])"
proof -
  have new: "rb_start b \<in> snd ` set h" using assms(1,2) by (simp add: history_ok_def)
  then have "insert (rb_start b) (snd ` set h) = snd ` set h" by blast
  then show ?thesis
    using assms by (auto simp: history_ok_def expired_def)
qed

lemma history_step:
  assumes "limiter_inv l" "history_ok l now key h" "allow now k l = ((a, d), l')"
  shows "\<exists>h'. history_ok l' now key (h @ h') \<and> map fst h' = (if k = key \<and> a then [now] else [])"
proof -
  have ok: "limiter_ok l" using assms(1) by (simp add: limiter_inv_def)
  have keep: ?thesis if "history_ok l' now key h" "k \<noteq> key \<or> \<not> a"
    using that by (intro exI [of _ "[]"]) auto
  show ?thesis
    using assms(1)
  proof (cases rule: allow_cases [where now = now and key = k])
    case (Full b)
    with assms(2,3) keep show ?thesis by simp
  next
    case Refuse
    with assms keep history_prune show ?thesis by auto
  next
    case (Count b)
    with assms keep history_other [OF assms(2)] history_count [OF assms(2), of b] show ?thesis
      by (cases "k = key") (auto intro!: exI [of _ "[(now, rb_start b)]"])
  next
    case (Restart b)
    then have "k = key \<Longrightarrow> \<forall>s \<in> snd ` set h. s + window l \<le> now"
      using assms(2) by (force simp: history_ok_def expired_def)
    with Restart assms(3) keep history_other [OF assms(2)] history_new_window [OF assms(2) ok] show ?thesis
      by (cases "k = key") (auto intro!: exI [of _ "[(now, now)]"])
  next
    case (Fresh m)
    then have m: "history_ok m now key h" "limiter_ok m" "window m = window l"
      using assms(1,2) history_prune ok by auto
    have "map_of (buckets m) k = None"
      using Fresh(1,2) map_of_prune [of l now k] assms(1) by (auto simp: limiter_inv_def)
    then have "k = key \<Longrightarrow> \<forall>s \<in> snd ` set h. s + window m \<le> now"
      using m(1) by (simp add: history_ok_def)
    with Fresh assms(3) keep history_other [OF m(1)] history_new_window [OF m(1,2)] show ?thesis
      by (cases "k = key") (auto intro!: exI [of _ "[(now, now)]"])
  qed
qed

text \<open>The times at which the calls of a run admitted a key.\<close>

definition admitted :: "string \<Rightarrow> (time \<times> string) list \<Rightarrow> (bool \<times> duration) list \<Rightarrow> time list" where
  "admitted key cs rs = map (fst \<circ> fst) (filter (\<lambda>(c, r). snd c = key \<and> fst r) (zip cs rs))"

lemma history_run:
  "limiter_inv l \<Longrightarrow> history_ok l now key h \<Longrightarrow> sorted (now # map fst cs) \<Longrightarrow>
   allow_run cs l = (rs, l') \<Longrightarrow>
   \<exists>h' now'. history_ok l' now' key (h @ h') \<and> map fst h' = admitted key cs rs \<and> window l' = window l \<and>
     rl_limit l' = rl_limit l \<and> limiter_inv l'"
proof (induction cs arbitrary: l now h rs l')
  case Nil
  then show ?case by (auto simp: admitted_def intro!: exI [of _ "[]"])
next
  case (Cons c cs)
  obtain t k where c: "c = (t, k)" by (cases c)
  obtain a d m where step: "allow t k l = ((a, d), m)" by (metis surj_pair)
  obtain rs' where rest: "allow_run cs m = (rs', l')" and rs: "rs = (a, d) # rs'"
    using Cons.prems(4) by (auto simp: c step split: prod.splits)
  from Cons.prems(3) have "now \<le> t" and srt: "sorted (t # map fst cs)" by (auto simp: c)
  with Cons.prems(2) have "history_ok l t key h" by (blast intro: history_later)
  from history_step [OF Cons.prems(1) this step] obtain h1 where h1: "history_ok m t key (h @ h1)"
    "map fst h1 = (if k = key \<and> a then [t] else [])" by blast
  have m: "limiter_inv m" "window m = window l" "rl_limit m = rl_limit l"
    using limiter_inv_allow [OF Cons.prems(1), of t k] allow_fields [OF Cons.prems(1), of t k] step by auto
  from Cons.IH [OF m(1) h1(1) srt rest] obtain h2 now' where
    "history_ok l' now' key ((h @ h1) @ h2)" "map fst h2 = admitted key cs rs'" "window l' = window m"
    "rl_limit l' = rl_limit m" "limiter_inv l'" by blast
  with h1(2) m show ?case
    by (intro exI [of _ "h1 @ h2"] exI [of _ now']) (auto simp: admitted_def c rs)
qed

lemma card_spaced:
  fixes S :: "int set"
  assumes "finite S" and "\<forall>s \<in> S. \<forall>s' \<in> S. s < s' \<longrightarrow> s + w \<le> s'"
    and "\<forall>s \<in> S. a - w < s \<and> s < a + w"
  shows "card S \<le> 2"
proof (rule ccontr)
  assume "\<not> card S \<le> 2"
  then have "3 \<le> card S" by simp
  then obtain T where T: "T \<subseteq> S" "card T = 3" by (meson obtain_subset_with_card_n)
  then obtain x y z where "T = {x, y, z}" "x \<noteq> y" "y \<noteq> z" "x \<noteq> z" by (auto simp: card_3_iff)
  with T assms(2,3) have *: "x \<in> S" "y \<in> S" "z \<in> S" "x \<noteq> y" "y \<noteq> z" "x \<noteq> z" by auto
  have far: "s + w \<le> s' \<or> s' + w \<le> s" if "s \<in> S" "s' \<in> S" "s \<noteq> s'" for s s'
    using assms(2) that by (metis linorder_neqE)
  have "a - w < x" "x < a + w" "a - w < y" "y < a + w" "a - w < z" "z < a + w"
    using assms(3) * by auto
  with far [OF *(1,2,4)] far [OF *(2,3,5)] far [OF *(1,3,6)] show False by linarith
qed

lemma count_list_filter_le: "count_list (map f (filter P xs)) y \<le> count_list (map f xs) y"
  by (induction xs) auto

lemma length_by_label:
  assumes "\<And>y. int (count_list ys y) \<le> n" and "int (card (set ys)) \<le> m" and "0 \<le> n"
  shows "int (length ys) \<le> m * n"
proof -
  have "length ys = sum (count_list ys) (set ys)" by (rule sum_count_set [symmetric]) auto
  then have "int (length ys) = (\<Sum>y\<in>set ys. int (count_list ys y))" by simp
  also have "\<dots> \<le> (\<Sum>y\<in>set ys. n)" by (intro sum_mono assms(1))
  also have "\<dots> \<le> m * n" using assms(2,3) by (simp add: mult_right_mono)
  finally show ?thesis .
qed



end
