(* ===== verification/RoutePolicy.thy ===== *)
theory RoutePolicy
  imports Config
begin

text \<open>
  The admission rules of a route (package \<open>proxy\<close>, file \<open>policy.go\<close>), evaluated before rate
  limiting, the cache and any backend. The rules are checked in a fixed order and the first one
  that is violated gives the answer.
\<close>

record policy_denial =
  pd_status :: int
  pd_code :: string
  pd_message :: string
  pd_allow_methods :: "string list"

definition policy_reason_method_not_allowed :: string where
  "policy_reason_method_not_allowed = ''method_not_allowed''"

definition policy_reason_path_denied :: string where
  "policy_reason_path_denied = ''path_denied''"

definition policy_reason_required_header_missing :: string where
  "policy_reason_required_header_missing = ''required_header_missing''"

definition policy_reason_header_denied :: string where
  "policy_reason_header_denied = ''header_denied''"

definition policy_reason_query_too_large :: string where
  "policy_reason_query_too_large = ''query_too_large''"

lemmas policy_reasons = policy_reason_method_not_allowed_def policy_reason_path_denied_def
  policy_reason_required_header_missing_def policy_reason_header_denied_def
  policy_reason_query_too_large_def

definition denial :: "int \<Rightarrow> string \<Rightarrow> string \<Rightarrow> string list \<Rightarrow> policy_denial" where
  "denial st code msg methods =
     \<lparr>pd_status = st, pd_code = code, pd_message = msg, pd_allow_methods = methods\<rparr>"

primrec method_allowed :: "string list \<Rightarrow> string \<Rightarrow> bool" where
  "method_allowed [] meth = False"
| "method_allowed (candidate # allowed) meth =
     (if candidate = meth then True else method_allowed allowed meth)"

definition policy_path_matches :: "string \<Rightarrow> string \<Rightarrow> bool" where
  "policy_path_matches pre p =
     (if pre = ''/'' then has_prefix p ''/''
      else if p = pre then True
      else has_prefix p (trim_suffix pre ''/'' @ ''/''))"

definition evaluate_route_policy :: "route_policy \<Rightarrow> request \<Rightarrow> policy_denial option" where
  "evaluate_route_policy policy r =
     (if max_query_bytes policy > 0 \<and> int (length (raw_query (r_url r))) > max_query_bytes policy
      then Some (denial 414 policy_reason_query_too_large ''request query string too large'' [])
      else if length (allowed_methods policy) > 0 \<and> \<not> method_allowed (allowed_methods policy) (r_method r)
      then Some (denial 405 policy_reason_method_not_allowed ''request method is not allowed''
                   (allowed_methods policy))
      else if list_ex (\<lambda>pre. policy_path_matches pre (path (r_url r))) (denied_path_prefixes policy)
      then Some (denial 403 policy_reason_path_denied ''request path is denied'' [])
      else if list_ex (\<lambda>name. trim_space (hdr_get (r_header r) name) = []) (required_headers policy)
      then Some (denial 400 policy_reason_required_header_missing ''required request header is missing'' [])
      else if list_ex (\<lambda>name. length (hdr_values (r_header r) name) > 0) (denied_headers policy)
      then Some (denial 403 policy_reason_header_denied ''request header is denied'' [])
      else None)"

section \<open>What the rules admit\<close>

lemma method_allowed_iff: "method_allowed allowed meth \<longleftrightarrow> meth \<in> set allowed"
  by (induction allowed) auto

text \<open>A path lies under a prefix: it is the prefix, or continues it at a segment boundary.\<close>

definition path_under :: "string \<Rightarrow> string \<Rightarrow> bool" where
  "path_under pre p \<longleftrightarrow> (\<exists>rest. p = pre @ rest \<and>
     (rest = [] \<or> hd rest = CHR ''/'' \<or> pre \<noteq> [] \<and> last pre = CHR ''/''))"

lemma policy_path_matches_under: "policy_path_matches pre p \<longleftrightarrow> path_under pre p"
proof (cases "pre \<noteq> [] \<and> last pre = CHR ''/''")
  case True
  then obtain base where base: "pre = base @ ''/''" by (metis append_butlast_last_id)
  then have "trim_suffix pre ''/'' = base" by (simp add: trim_suffix_def has_suffix_iff)
  with base show ?thesis
    by (auto simp: policy_path_matches_def path_under_def has_prefix_iff)
next
  case False
  then have "pre \<noteq> ''/''" "trim_suffix pre ''/'' = pre"
    by (auto simp: trim_suffix_def has_suffix_iff)
  moreover have "path_under pre p \<longleftrightarrow> p = pre \<or> (\<exists>rest. p = pre @ ''/'' @ rest)"
  proof -
    have "rest = [] \<or> hd rest = CHR ''/'' \<longleftrightarrow> rest = [] \<or> (\<exists>t. rest = CHR ''/'' # t)" for rest
      by (cases rest) auto
    with False show ?thesis by (auto simp: path_under_def)
  qed
  ultimately show ?thesis
    by (auto simp: policy_path_matches_def has_prefix_iff)
qed

text \<open>
  C26. A request is admitted exactly when it violates no rule: the query fits (when a maximum
  is set), the method is listed (when there is a list), the path lies under no denied prefix,
  every required header has a non-blank first value, and no denied header occurs at all.
\<close>

theorem policy_admits_iff:
  "evaluate_route_policy policy r = None \<longleftrightarrow>
     (max_query_bytes policy \<le> 0 \<or> int (length (raw_query (r_url r))) \<le> max_query_bytes policy) \<and>
     (allowed_methods policy = [] \<or> r_method r \<in> set (allowed_methods policy)) \<and>
     (\<forall>pre \<in> set (denied_path_prefixes policy). \<not> path_under pre (path (r_url r))) \<and>
     (\<forall>name \<in> set (required_headers policy). trim_space (hdr_get (r_header r) name) \<noteq> []) \<and>
     (\<forall>name \<in> set (denied_headers policy). hdr_values (r_header r) name = [])"
  by (auto simp: evaluate_route_policy_def method_allowed_iff policy_path_matches_under list_ex_iff not_less)

theorem policy_admits_iff_witness:
  "evaluate_route_policy (no_policy\<lparr>denied_path_prefixes := [''/admin'']\<rparr>)
     (plain_request ''GET'' ''a.test'' ''/admin/users'') \<noteq> None"
proof -
  have "path_under ''/admin'' ''/admin/users''"
    unfolding policy_path_matches_under [symmetric] by code_simp
  then show ?thesis
    unfolding policy_admits_iff by (simp add: no_policy_def plain_request_def plain_url_def)
qed

lemma policy_cases:
  assumes "evaluate_route_policy policy r = Some d"
  obtains
    (Query) "d = denial 414 policy_reason_query_too_large ''request query string too large'' []"
  | (Method) "d = denial 405 policy_reason_method_not_allowed ''request method is not allowed''
        (allowed_methods policy)" "allowed_methods policy \<noteq> []" "r_method r \<notin> set (allowed_methods policy)"
  | (Path) "d = denial 403 policy_reason_path_denied ''request path is denied'' []"
  | (Required) "d = denial 400 policy_reason_required_header_missing ''required request header is missing'' []"
      "evaluate_route_policy (policy\<lparr>required_headers := [], denied_headers := []\<rparr>) r = None"
  | (Denied) "d = denial 403 policy_reason_header_denied ''request header is denied'' []"
      "evaluate_route_policy (policy\<lparr>required_headers := [], denied_headers := []\<rparr>) r = None"
proof -
  define q where "q \<longleftrightarrow> max_query_bytes policy > 0 \<and> int (length (raw_query (r_url r))) > max_query_bytes policy"
  define m where "m \<longleftrightarrow> allowed_methods policy \<noteq> [] \<and> r_method r \<notin> set (allowed_methods policy)"
  define p where "p \<longleftrightarrow> list_ex (\<lambda>pre. policy_path_matches pre (path (r_url r))) (denied_path_prefixes policy)"
  define h where "h \<longleftrightarrow> list_ex (\<lambda>name. trim_space (hdr_get (r_header r) name) = []) (required_headers policy)"
  note defs = evaluate_route_policy_def method_allowed_iff length_greater_0_conv
    q_def [symmetric] m_def [symmetric] p_def [symmetric] h_def [symmetric]
  let ?w = "policy\<lparr>required_headers := [], denied_headers := []\<rparr>"
  have bare: "evaluate_route_policy ?w r = None" if "\<not> q" "\<not> m" "\<not> p"
    using that by (simp add: evaluate_route_policy_def method_allowed_iff q_def m_def p_def)
  note ev = assms [unfolded defs]
  show thesis
  proof (cases q)
    case True
    with ev Query show thesis by simp
  next
    case nq: False
    show thesis
    proof (cases m)
      case True
      with nq ev Method show thesis by (simp add: m_def)
    next
      case nm: False
      show thesis
      proof (cases p)
        case True
        with nq nm ev Path show thesis by simp
      next
        case False
        with ev nq nm bare Required Denied show thesis by (simp split: if_splits)
      qed
    qed
  qed
qed

text \<open>
  Every refusal is one of five, each with its status, and \<open>Allow\<close> lists the allowed
  methods exactly for a refused method; a refusal for an earlier rule hides the later ones: a
  missing required header is only reported for requests whose query, method and path pass.
\<close>

lemma policy_denials:
  assumes "evaluate_route_policy policy r = Some d"
  shows "(pd_status d, pd_code d) \<in> {(414, ''query_too_large''), (405, ''method_not_allowed''),
      (403, ''path_denied''), (400, ''required_header_missing''), (403, ''header_denied'')} \<and>
    pd_allow_methods d = (if pd_status d = 405 then allowed_methods policy else []) \<and>
    (pd_status d = 405 \<longrightarrow> allowed_methods policy \<noteq> [] \<and> r_method r \<notin> set (allowed_methods policy)) \<and>
    (pd_code d \<in> {''required_header_missing'', ''header_denied''} \<longrightarrow>
       evaluate_route_policy (policy\<lparr>required_headers := [], denied_headers := []\<rparr>) r = None)"
  using assms by (cases rule: policy_cases) (simp_all add: denial_def policy_reasons)

end
