(* ===== verification/NetIP.thy ===== *)
theory NetIP
  imports GoHttp
begin

text \<open>
  The package \<open>net/netip\<close> as far as the proxy uses it: \<open>ParseAddr\<close>, \<open>Addr.String\<close>,
  \<open>ParsePrefix\<close> and \<open>Prefix.Contains\<close>. An IPv4 address is its four octets; an IPv6 address is
  its eight 16-bit groups and its zone (empty when there is none). An IPv4-mapped IPv6 address
  stays an IPv6 address, as in the package.
\<close>

datatype addr = V4 "nat list" | V6 "nat list" string

section \<open>Parsing\<close>

text \<open>
  \<open>parseIPv4Fields\<close>: the octets so far, the value of the current one and its number of digits.
\<close>

primrec v4_loop :: "string \<Rightarrow> nat list \<Rightarrow> nat \<Rightarrow> nat \<Rightarrow> nat list option" where
  "v4_loop [] octets val digits =
     (if length octets < 3 then None else Some (octets @ [val]))"
| "v4_loop (c # s) octets val digits =
     (if is_digit c then
        (if digits = 1 \<and> val = 0 then None
         else let v = val * 10 + nat (digit_val c) in
           if v > 255 then None else v4_loop s octets v (Suc digits))
      else if c = CHR ''.'' then
        (if digits = 0 \<or> s = [] then None
         else if length octets = 3 then None
         else v4_loop s (octets @ [val]) 0 0)
      else None)"

definition parse_v4 :: "string \<Rightarrow> nat list option" where
  "parse_v4 s = v4_loop s [] 0 0"

text \<open>One hexadecimal group: its value and the rest; \<^const>\<open>None\<close> for no digit or more than four.\<close>

definition hex_val :: "string \<Rightarrow> nat" where
  "hex_val s = foldl (\<lambda>acc c. acc * 16 + (case unhex c of Some d \<Rightarrow> d | None \<Rightarrow> 0)) 0 s"

definition hex_group :: "string \<Rightarrow> (nat \<times> string) option" where
  "hex_group s =
     (let ds = takeWhile (\<lambda>c. unhex c \<noteq> None) s
      in if ds = [] \<or> length ds > 4 then None else Some (hex_val ds, drop (length ds) s))"

text \<open>
  The loop of \<open>parseIPv6\<close> over at most \<open>n\<close> more groups: the rest of the text, the groups so far
  and the position of the ellipsis.
\<close>

primrec v6_loop ::
  "nat \<Rightarrow> string \<Rightarrow> nat list \<Rightarrow> nat option \<Rightarrow> (string \<times> nat list \<times> nat option) option" where
  "v6_loop 0 s gs ellipsis = Some (s, gs, ellipsis)"
| "v6_loop (Suc n) s gs ellipsis =
     (case hex_group s of
        None \<Rightarrow> None
      | Some (acc, rest) \<Rightarrow>
          (case rest of
             [] \<Rightarrow> Some ([], gs @ [acc], ellipsis)
           | c # s1 \<Rightarrow>
               if c = CHR ''.'' then
                 (if ellipsis = None \<and> length gs \<noteq> 6 then None
                  else if length gs + 2 > 8 then None
                  else (case parse_v4 s of
                          Some [a, b, x, y] \<Rightarrow> Some ([], gs @ [a * 256 + b, x * 256 + y], ellipsis)
                        | _ \<Rightarrow> None))
               else if c \<noteq> CHR '':'' then None
               else (case s1 of
                       [] \<Rightarrow> None
                     | d # s2 \<Rightarrow>
                         if d = CHR '':'' then
                           (if ellipsis \<noteq> None then None
                            else if s2 = [] then Some ([], gs @ [acc], Some (length gs + 1))
                            else v6_loop n s2 (gs @ [acc]) (Some (length gs + 1)))
                         else v6_loop n s1 (gs @ [acc]) ellipsis)))"

definition parse_v6 :: "string \<Rightarrow> addr option" where
  "parse_v6 input =
     (let (s, zone, bad) = (case index_of CHR ''%'' input of
            None \<Rightarrow> (input, [], False)
          | Some i \<Rightarrow> (take i input, drop (i + 1) input, drop (i + 1) input = []))
      in if bad then None
         else let lead = has_prefix s ''::'';
                  s' = (if lead then drop 2 s else s)
         in if lead \<and> s' = [] then Some (V6 (replicate 8 0) zone)
         else (case v6_loop 8 s' [] (if lead then Some 0 else None) of
            None \<Rightarrow> None
          | Some (rest, gs, ellipsis) \<Rightarrow>
              if rest \<noteq> [] then None
              else if length gs < 8 then
                (case ellipsis of
                   None \<Rightarrow> None
                 | Some e \<Rightarrow> Some (V6 (take e gs @ replicate (8 - length gs) 0 @ drop e gs) zone))
              else (case ellipsis of None \<Rightarrow> Some (V6 gs zone) | Some _ \<Rightarrow> None)))"

definition parse_addr :: "string \<Rightarrow> addr option" where
  "parse_addr s =
     (case find (\<lambda>c. c \<in> set ''.:%'') s of
        None \<Rightarrow> None
      | Some c \<Rightarrow>
          if c = CHR ''.'' then map_option V4 (parse_v4 s)
          else if c = CHR '':'' then parse_v6 s
          else None)"

section \<open>Printing\<close>

definition v4_string :: "nat list \<Rightarrow> string" where
  "v4_string octets = join ''.'' (map dec_digits octets)"

text \<open>Lower-case hexadecimal without leading zeros, as \<open>appendHex\<close> writes a group.\<close>

definition hex_char :: "nat \<Rightarrow> char" where
  "hex_char n = ''0123456789abcdef'' ! n"

definition hex_string :: "nat \<Rightarrow> string" where
  "hex_string n =
     (if n \<ge> 4096 then [hex_char (n div 4096)] else []) @
     (if n \<ge> 256 then [hex_char (n div 256 mod 16)] else []) @
     (if n \<ge> 16 then [hex_char (n div 16 mod 16)] else []) @ [hex_char (n mod 16)]"

text \<open>The longest run of at least two zero groups, the first one of that length.\<close>

definition zero_run_end :: "nat list \<Rightarrow> nat \<Rightarrow> nat" where
  "zero_run_end gs i = i + length (takeWhile (\<lambda>g. g = 0) (drop i gs))"

definition zero_run :: "nat list \<Rightarrow> (nat \<times> nat) option" where
  "zero_run gs = foldl (\<lambda>best i.
      let j = zero_run_end gs i; l = j - i
      in if l \<ge> 2 \<and> (case best of None \<Rightarrow> True | Some (a, b) \<Rightarrow> l > b - a) then Some (i, j) else best)
     None [0..<8]"

definition v6_groups_string :: "nat list \<Rightarrow> string" where
  "v6_groups_string gs =
     (case zero_run gs of
        None \<Rightarrow> join '':'' (map hex_string gs)
      | Some (a, b) \<Rightarrow> join '':'' (map hex_string (take a gs)) @ ''::'' @ join '':'' (map hex_string (drop b gs)))"

definition is_4in6 :: "nat list \<Rightarrow> bool" where
  "is_4in6 gs \<longleftrightarrow> take 6 gs = [0, 0, 0, 0, 0, 65535]"

definition zone_suffix :: "string \<Rightarrow> string" where
  "zone_suffix zone = (if zone = [] then [] else ''%'' @ zone)"

fun addr_string :: "addr \<Rightarrow> string" where
  "addr_string (V4 octets) = v4_string octets"
| "addr_string (V6 gs zone) =
     (if is_4in6 gs
      then ''::ffff:'' @ v4_string [gs ! 6 div 256, gs ! 6 mod 256, gs ! 7 div 256, gs ! 7 mod 256] @ zone_suffix zone
      else v6_groups_string gs @ zone_suffix zone)"

section \<open>Prefixes\<close>

record ip_prefix =
  pfx_addr :: addr
  pfx_bits :: nat

fun max_bits :: "addr \<Rightarrow> nat" where
  "max_bits (V4 _) = 32"
| "max_bits (V6 _ _) = 128"

fun has_zone :: "addr \<Rightarrow> bool" where
  "has_zone (V4 _) = False"
| "has_zone (V6 _ zone) \<longleftrightarrow> zone \<noteq> []"

definition parse_prefix :: "string \<Rightarrow> ip_prefix option" where
  "parse_prefix s =
     (case last_index_of CHR ''/'' s of
        None \<Rightarrow> None
      | Some i \<Rightarrow>
          (case parse_addr (take i s) of
             None \<Rightarrow> None
           | Some ip \<Rightarrow>
               if has_zone ip then None
               else let bits = drop (i + 1) s in
                 if length bits > 1 \<and> \<not> (is_digit (hd bits) \<and> hd bits \<noteq> CHR ''0'') then None
                 else (case parse_int bits of
                    None \<Rightarrow> None
                  | Some n \<Rightarrow> if n < 0 \<or> n > int (max_bits ip) then None
                      else Some \<lparr>pfx_addr = ip, pfx_bits = nat n\<rparr>)))"

text \<open>The value of an address as one number, most significant octet or group first.\<close>

fun addr_value :: "addr \<Rightarrow> nat" where
  "addr_value (V4 octets) = foldl (\<lambda>acc o'. acc * 256 + o') 0 octets"
| "addr_value (V6 gs _) = foldl (\<lambda>acc g. acc * 65536 + g) 0 gs"

definition prefix_contains :: "ip_prefix \<Rightarrow> addr \<Rightarrow> bool" where
  "prefix_contains p ip \<longleftrightarrow> \<not> has_zone ip \<and> max_bits (pfx_addr p) = max_bits ip \<and>
     addr_value ip div 2 ^ (max_bits ip - pfx_bits p) =
     addr_value (pfx_addr p) div 2 ^ (max_bits ip - pfx_bits p)"

section \<open>IPv4 addresses round-trip\<close>

lemma dec_digits_forms:
  "n < 10 \<Longrightarrow> dec_digits n = [dec_char n]"
  "10 \<le> n \<Longrightarrow> n < 100 \<Longrightarrow> dec_digits n = [dec_char (n div 10), dec_char (n mod 10)]"
  "100 \<le> n \<Longrightarrow> n < 1000 \<Longrightarrow>
     dec_digits n = [dec_char (n div 10 div 10), dec_char (n div 10 mod 10), dec_char (n mod 10)]"
proof -
  show one: "dec_digits n = [dec_char n]" if "n < 10" for n
    using that dec_digits.simps [of n] by simp
  show two: "dec_digits n = [dec_char (n div 10), dec_char (n mod 10)]" if "10 \<le> n" "n < 100" for n
  proof -
    have "n div 10 < 10" using that by linarith
    with that dec_digits.simps [of n] one [of "n div 10"] show ?thesis by simp
  qed
  assume "100 \<le> n" "n < 1000"
  then have "10 \<le> n div 10" "n div 10 < 100" by linarith+
  with \<open>100 \<le> n\<close> dec_digits.simps [of n] two [of "n div 10"]
  show "dec_digits n = [dec_char (n div 10 div 10), dec_char (n div 10 mod 10), dec_char (n mod 10)]"
    by simp
qed

lemma dec_char_cases:
  assumes "n < 10"
  shows "is_digit (dec_char n) \<and> digit_val (dec_char n) = int n"
proof -
  have "n \<in> {0, 1, 2, 3, 4, 5, 6, 7, 8, 9}" using assms by auto
  then show ?thesis
    by (elim insertE) (simp_all add: dec_char_def is_digit_def digit_val_def)
qed

lemma v4_loop_digit:
  assumes "d < 10" "v * 10 + d \<le> 255" "k = 1 \<longrightarrow> v \<noteq> 0"
  shows "v4_loop (dec_char d # s) octets v k = v4_loop s octets (v * 10 + d) (Suc k)"
proof -
  have "\<not> (k = 1 \<and> v = 0)" using assms(3) by blast
  with assms(1,2) dec_char_cases [of d] show ?thesis by (simp only: v4_loop.simps if_True if_False Let_def) simp
qed

lemma v4_loop_octet:
  assumes "n \<le> 255"
  shows "v4_loop (dec_digits n @ rest) octets 0 0 = v4_loop rest octets n (length (dec_digits n))"
proof -
  consider "n < 10" | "10 \<le> n" "n < 100" | "100 \<le> n" "n < 1000" using assms by linarith
  then show ?thesis
  proof cases
    case 1
    with assms show ?thesis by (simp add: dec_digits_forms v4_loop_digit del: v4_loop.simps)
  next
    case 2
    define a b where "a = n div 10" and "b = n mod 10"
    with 2 have "n = a * 10 + b" "0 < a" "a < 10" "b < 10" by auto
    with 2 assms show ?thesis
      by (simp add: dec_digits_forms a_def [symmetric] b_def [symmetric] v4_loop_digit del: v4_loop.simps)
  next
    case 3
    define a b c where "a = n div 10 div 10" and "b = n div 10 mod 10" and "c = n mod 10"
    have n: "n = (a * 10 + b) * 10 + c" "b < 10" "c < 10" by (simp_all add: a_def b_def c_def)
    have "0 < a" using 3 n by (cases a) auto
    moreover have "a < 10" using 3 by (simp add: a_def)
    moreover have "dec_digits n = [dec_char a, dec_char b, dec_char c]"
      using 3 by (simp only: dec_digits_forms(3) a_def b_def c_def)
    moreover have "a * 10 + b \<le> 255" using n(1) assms by auto
    ultimately show ?thesis
      using n assms by (simp add: v4_loop_digit del: v4_loop.simps)
  qed
qed

lemma v4_loop_dot:
  "0 < k \<Longrightarrow> s \<noteq> [] \<Longrightarrow> length octets < 3 \<Longrightarrow> v4_loop (CHR ''.'' # s) octets v k = v4_loop s (octets @ [v]) 0 0"
  by (simp add: is_digit_def)

lemma dec_digits_nonempty [simp]: "dec_digits n \<noteq> []"
  by (subst dec_digits.simps) simp

lemma parse_v4_string:
  assumes "a \<le> 255" "b \<le> 255" "c \<le> 255" "d \<le> 255"
  shows "parse_v4 (v4_string [a, b, c, d]) = Some [a, b, c, d]"
proof -
  have "v4_loop (dec_digits d) [a, b, c] 0 0 = Some [a, b, c, d]"
    using v4_loop_octet [OF assms(4), of "[]"] by simp
  then show ?thesis
    using assms by (simp add: parse_v4_def v4_string_def join_Cons v4_loop_octet v4_loop_dot del: v4_loop.simps)
qed

lemma find_dot:
  "list_all is_digit s \<Longrightarrow> find (\<lambda>c. c \<in> set ''.:%'') (s @ CHR ''.'' # rest) = Some CHR ''.''"
  by (induction s) (auto simp: is_digit_def)

lemma dec_digits_all: "list_all is_digit (dec_digits n)"
proof (induction n rule: dec_digits.induct)
  case (1 n)
  with dec_char_cases [of n] dec_char_cases [of "n mod 10"] show ?case
    by (cases "n < 10") (simp_all add: dec_digits.simps [of n])
qed

theorem parse_addr_v4_string:
  assumes "a \<le> 255" "b \<le> 255" "c \<le> 255" "d \<le> 255"
  shows "parse_addr (v4_string [a, b, c, d]) = Some (V4 [a, b, c, d])"
proof -
  have "find (\<lambda>c. c \<in> set ''.:%'') (v4_string [a, b, c, d]) = Some CHR ''.''"
    unfolding v4_string_def by (simp add: join_Cons find_dot [OF dec_digits_all, simplified])
  with parse_v4_string [OF assms] show ?thesis by (simp add: parse_addr_def)
qed

end
