(* ===== verification/ClientIP.thy ===== *)
theory ClientIP
  imports NetIP Config
begin

text \<open>
  Who a request comes from (package \<open>proxy\<close>, file \<open>clientip.go\<close>): the address of the socket
  peer, unless the peer is a trusted proxy and a configured header names another one. The
  empty string stands for "no address", as in the source.
\<close>

record client_ip_policy =
  cp_trusted :: "ip_prefix list"
  cp_headers :: "string list"

datatype client_ip_error =
    BadPrefix string
  | HeadersWithoutProxies
  | ProxiesWithoutHeaders
  | HeaderWhitespace nat
  | HeaderUnsupported nat
  | HeaderDuplicated string

primrec parse_trusted :: "string list \<Rightarrow> client_ip_error + ip_prefix list" where
  "parse_trusted [] = Inr []"
| "parse_trusted (cidr # cidrs) =
     (case parse_prefix cidr of
        None \<Rightarrow> Inl (BadPrefix cidr)
      | Some p \<Rightarrow> (case parse_trusted cidrs of Inl e \<Rightarrow> Inl e | Inr ps \<Rightarrow> Inr (p # ps)))"

primrec check_headers :: "nat \<Rightarrow> string list \<Rightarrow> string set \<Rightarrow> client_ip_error option" where
  "check_headers i [] seen = None"
| "check_headers i (hdr # hdrs) seen =
     (let normalized = to_lower (trim_space hdr)
      in if hdr \<noteq> trim_space hdr then Some (HeaderWhitespace i)
         else if normalized \<noteq> ''x-forwarded-for'' \<and> normalized \<noteq> ''x-real-ip'' then Some (HeaderUnsupported i)
         else if normalized \<in> seen then Some (HeaderDuplicated hdr)
         else check_headers (Suc i) hdrs (insert normalized seen))"

definition new_client_ip_policy :: "client_ip \<Rightarrow> client_ip_error + client_ip_policy" where
  "new_client_ip_policy cfg =
     (case parse_trusted (trusted_proxies cfg) of
        Inl e \<Rightarrow> Inl e
      | Inr ps \<Rightarrow>
          if length ps = 0 \<and> length (ci_headers cfg) > 0 then Inl HeadersWithoutProxies
          else if length ps > 0 \<and> length (ci_headers cfg) = 0 then Inl ProxiesWithoutHeaders
          else (case check_headers 0 (ci_headers cfg) {} of
                  Some e \<Rightarrow> Inl e
                | None \<Rightarrow> Inr \<lparr>cp_trusted = ps, cp_headers = ci_headers cfg\<rparr>))"

definition valid_ip :: "string \<Rightarrow> string" where
  "valid_ip v =
     (let v1 = trim_space v;
          v2 = (case split_host_port v1 of
                  Some (hst, port) \<Rightarrow> (if parse_uint 16 port \<noteq> None then hst else v1)
                | None \<Rightarrow> v1)
      in case parse_addr (trim_set v2 ''[]'') of None \<Rightarrow> [] | Some a \<Rightarrow> addr_string a)"

definition remote_ip :: "string \<Rightarrow> string" where
  "remote_ip remote_addr =
     valid_ip (case split_host_port remote_addr of Some (parsed, _) \<Rightarrow> parsed | None \<Rightarrow> remote_addr)"

definition trusted_peer :: "client_ip_policy \<Rightarrow> string \<Rightarrow> bool" where
  "trusted_peer p ip =
     (case parse_addr ip of
        None \<Rightarrow> False
      | Some a \<Rightarrow> list_ex (\<lambda>pfx. prefix_contains pfx a) (cp_trusted p))"

definition forwarded_chain :: "string list \<Rightarrow> string list" where
  "forwarded_chain vs =
     filter (\<lambda>ip. ip \<noteq> []) (map valid_ip (concat (map (split_on CHR '','') vs)))"

definition from_x_forwarded_for :: "client_ip_policy \<Rightarrow> string list \<Rightarrow> string" where
  "from_x_forwarded_for p vs =
     (let chain = forwarded_chain vs
      in case find (\<lambda>ip. \<not> trusted_peer p ip) (rev chain) of
           Some ip \<Rightarrow> ip
         | None \<Rightarrow> if length chain > 0 then chain ! 0 else [])"

primrec identity_loop :: "client_ip_policy \<Rightarrow> request \<Rightarrow> string \<Rightarrow> string list \<Rightarrow> string" where
  "identity_loop p r peer [] = peer"
| "identity_loop p r peer (hdr # hdrs) =
     (if to_lower hdr = ''x-forwarded-for'' then
        (let ip = from_x_forwarded_for p (hdr_values (r_header r) ''X-Forwarded-For'')
         in if ip \<noteq> [] then ip else identity_loop p r peer hdrs)
      else if to_lower hdr = ''x-real-ip'' then
        (let ip = valid_ip (hdr_get (r_header r) ''X-Real-IP'')
         in if ip \<noteq> [] then ip else identity_loop p r peer hdrs)
      else identity_loop p r peer hdrs)"

text \<open>The receiver may be \<open>nil\<close>: the policy is an option.\<close>

definition identity :: "client_ip_policy option \<Rightarrow> request \<Rightarrow> string" where
  "identity p r =
     (let peer = remote_ip (r_remote_addr r)
      in if peer = [] then ''unknown''
         else (case p of
                 None \<Rightarrow> peer
               | Some pol \<Rightarrow> if \<not> trusted_peer pol peer then peer
                   else identity_loop pol r peer (cp_headers pol)))"

section \<open>Who can influence the identity\<close>

lemma valid_ip_cases: "valid_ip v = [] \<or> (\<exists>s a. parse_addr s = Some a \<and> valid_ip v = addr_string a)"
  by (auto simp: valid_ip_def Let_def split: option.splits)

lemma from_xff_in:
  "from_x_forwarded_for p vs = [] \<or> from_x_forwarded_for p vs \<in> set (forwarded_chain vs)"
proof -
  have "x \<in> set xs" if "find P xs = Some x" for P :: "string \<Rightarrow> bool" and x xs
    using that by (induction xs) (auto split: if_splits)
  from this [of _ "rev (forwarded_chain vs)"] show ?thesis
    by (auto simp: from_x_forwarded_for_def Let_def split: option.splits)
qed

lemma forwarded_chain_valid: "ip \<in> set (forwarded_chain vs) \<Longrightarrow> \<exists>v. ip = valid_ip v \<and> ip \<noteq> []"
  by (auto simp: forwarded_chain_def)

lemma identity_loop_cases:
  "identity_loop p r peer hdrs = peer \<or> (\<exists>v. identity_loop p r peer hdrs = valid_ip v \<and> valid_ip v \<noteq> [])"
proof (induction hdrs)
  case (Cons hdr hdrs)
  have "from_x_forwarded_for p (hdr_values (r_header r) ''X-Forwarded-For'') = [] \<or>
    (\<exists>v. from_x_forwarded_for p (hdr_values (r_header r) ''X-Forwarded-For'') = valid_ip v)"
    using from_xff_in forwarded_chain_valid by metis
  with Cons.IH show ?case by (auto simp: Let_def)
qed simp

text \<open>
  C24. A peer that is not a trusted proxy cannot choose its identity: without a policy, or when
  the peer is not in a trusted prefix, no header of the request has any influence, and the
  identity is the peer's own address.
\<close>

theorem identity_ignores_untrusted_headers:
  assumes "p = None \<or> (\<exists>pol. p = Some pol \<and> \<not> trusted_peer pol (remote_ip (r_remote_addr r)))"
  shows "identity p (r\<lparr>r_header := h\<rparr>) = identity p r \<and>
    identity p r = (if remote_ip (r_remote_addr r) = [] then ''unknown'' else remote_ip (r_remote_addr r))"
  using assms by (auto simp: identity_def)

text \<open>
  C25. Whatever the headers hold, an identity is the word \<open>unknown\<close> or the printed form of an
  address that \<open>ParseAddr\<close> accepted: the rate limiter, the forwarding headers and the
  logs never get free text.
\<close>

theorem identity_is_address:
  "identity p r = ''unknown'' \<or> (\<exists>s a. parse_addr s = Some a \<and> identity p r = addr_string a)"
proof (cases "remote_ip (r_remote_addr r) = []")
  case False
  then have peer: "\<exists>s a. parse_addr s = Some a \<and> remote_ip (r_remote_addr r) = addr_string a"
    using valid_ip_cases by (metis remote_ip_def)
  have "identity p r = remote_ip (r_remote_addr r) \<or> (\<exists>v. identity p r = valid_ip v \<and> valid_ip v \<noteq> [])"
  proof (cases p)
    case None
    with False show ?thesis by (simp add: identity_def)
  next
    case (Some pol)
    with False identity_loop_cases [of pol r "remote_ip (r_remote_addr r)" "cp_headers pol"] show ?thesis
      by (auto simp: identity_def Let_def)
  qed
  with peer show ?thesis using valid_ip_cases by metis
qed (simp add: identity_def)

lemma split_on_joined:
  "c \<notin> set x \<Longrightarrow> \<forall>y \<in> set ys. c \<notin> set y \<Longrightarrow> split_on c (x @ concat (map (\<lambda>y. c # y) ys)) = x # ys"
  by (induction ys arbitrary: x) (simp_all add: split_on_single split_on_append)

lemma find_after: "\<forall>y \<in> set b. \<not> P y \<Longrightarrow> P x \<Longrightarrow> find P (b @ x # a) = Some x"
  by (induction b) auto

lemma chain_last_untrusted:
  assumes "CHR '','' \<notin> set x" "\<forall>y \<in> set ys. CHR '','' \<notin> set y" "valid_ip x \<noteq> []"
    and "\<not> trusted_peer pol (valid_ip x)"
    and "\<forall>y \<in> set ys. valid_ip y = [] \<or> trusted_peer pol (valid_ip y)"
  shows "from_x_forwarded_for pol (vs @ [left @ '','' @ x @ concat (map (\<lambda>y. '','' @ y) ys)]) = valid_ip x"
proof -
  have split: "split_on CHR '','' (left @ '','' @ x @ concat (map (\<lambda>y. '','' @ y) ys)) = split_on CHR '','' left @ x # ys"
    using split_on_append [of "CHR '',''" left] split_on_joined [OF assms(1,2)] by simp
  define b where "b = rev (filter (\<lambda>ip. ip \<noteq> []) (map valid_ip ys))"
  obtain a where chain: "rev (forwarded_chain (vs @ [left @ '','' @ x @ concat (map (\<lambda>y. '','' @ y) ys)])) = b @ valid_ip x # a"
    using assms(3) unfolding forwarded_chain_def map_append concat_append
    by (simp only: split list.map concat.simps) (auto simp: b_def)
  have "\<forall>y \<in> set b. trusted_peer pol y" using assms(5) by (auto simp: b_def)
  then have "find (\<lambda>ip. \<not> trusted_peer pol ip) (b @ valid_ip x # a) = Some (valid_ip x)"
    using assms(4) by (intro find_after) auto
  then show ?thesis by (simp only: from_x_forwarded_for_def Let_def chain option.case)
qed


definition ingress :: client_ip_policy where
  "ingress = \<lparr>cp_trusted = [\<lparr>pfx_addr = V4 [192, 0, 2, 0], pfx_bits = 24\<rparr>], cp_headers = [''X-Forwarded-For'']\<rparr>"

lemma valid_ip_v4:
  assumes "trim_space v = v4_string [a, b, c, d]" "a \<le> 255" "b \<le> 255" "c \<le> 255" "d \<le> 255"
    and "CHR '':'' \<notin> set (v4_string [a, b, c, d])" "trim_set (v4_string [a, b, c, d]) ''[]'' = v4_string [a, b, c, d]"
  shows "valid_ip v = v4_string [a, b, c, d]"
  using assms parse_addr_v4_string [OF assms(2-5)]
  by (simp add: valid_ip_def split_host_port_def last_index_of_def index_of_def)

lemma v4_literals:
  "v4_string [192, 0, 2, 10] = ''192.0.2.10''" "v4_string [198, 51, 100, 7] = ''198.51.100.7''"
  "v4_string [192, 0, 2, 3] = ''192.0.2.3''"
  by (simp_all add: v4_string_def dec_digits_forms dec_char_def)

lemma ingress_facts:
  "remote_ip ''192.0.2.10:4321'' = ''192.0.2.10''" "trusted_peer ingress ''192.0.2.10''"
  "valid_ip '' 198.51.100.7'' = ''198.51.100.7''" "\<not> trusted_peer ingress ''198.51.100.7''"
  "valid_ip '' 192.0.2.3'' = ''192.0.2.3''" "trusted_peer ingress ''192.0.2.3''"
proof -
  have "split_host_port ''192.0.2.10:4321'' = Some (''192.0.2.10'', ''4321'')" by code_simp
  moreover have "valid_ip ''192.0.2.10'' = ''192.0.2.10''"
    using valid_ip_v4 [of "''192.0.2.10''" 192 0 2 10] unfolding v4_literals
    by (simp add: trim_space_def trim_set_def trim_with_def is_space_def)
  ultimately show "remote_ip ''192.0.2.10:4321'' = ''192.0.2.10''" by (simp add: remote_ip_def)
  show "valid_ip '' 198.51.100.7'' = ''198.51.100.7''"
    using valid_ip_v4 [of "'' 198.51.100.7''" 198 51 100 7] unfolding v4_literals
    by (simp add: trim_space_def trim_set_def trim_with_def is_space_def)
  show "valid_ip '' 192.0.2.3'' = ''192.0.2.3''"
    using valid_ip_v4 [of "'' 192.0.2.3''" 192 0 2 3] unfolding v4_literals
    by (simp add: trim_space_def trim_set_def trim_with_def is_space_def)
  show "trusted_peer ingress ''192.0.2.10''" "trusted_peer ingress ''192.0.2.3''"
    "\<not> trusted_peer ingress ''198.51.100.7''"
    using parse_addr_v4_string [of 192 0 2 10] parse_addr_v4_string [of 192 0 2 3]
      parse_addr_v4_string [of 198 51 100 7] unfolding v4_literals
    by (simp_all add: trusted_peer_def ingress_def prefix_contains_def)
qed

theorem identity_ignores_untrusted_headers_witness:
  "identity None (plain_request ''GET'' ''a.test'' ''/''\<lparr>r_header := [(''X-Forwarded-For'', [''10.0.0.1''])]\<rparr>)
     = ''192.0.2.10''"
proof -
  let ?r = "plain_request ''GET'' ''a.test'' ''/''"
  have "remote_ip (r_remote_addr ?r) = ''192.0.2.10''" by (simp add: ingress_facts plain_request_def)
  with identity_ignores_untrusted_headers [of None ?r "[(''X-Forwarded-For'', [''10.0.0.1''])]"]
  show ?thesis by (simp del: split_paired_Ex)
qed


end
