(* ===== verification/Capture.thy ===== *)
theory Capture
  imports Prelude
begin

text \<open>
  Copying a response body into the cache while it streams to the client (package \<open>proxy\<close>,
  \<open>cacheCaptureBody\<close> and \<open>reserveCacheCapture\<close> in \<open>handler.go\<close>). All captures of a handler
  share one atomic counter of reserved bytes, which is passed explicitly here. The
  compare-and-swap loop of \<open>reserveCacheCapture\<close> takes effect at its successful exchange, so it
  is one atomic step. A commit is the value handed to the \<open>commit\<close> callback.
\<close>

record capture_body =
  cb_buffer :: string
  cb_max :: int64
  cb_overflow :: bool
  cb_finished :: bool
  cb_reserved :: int64

definition new_capture :: "int64 \<Rightarrow> capture_body" where
  "new_capture mx = \<lparr>cb_buffer = [], cb_max = mx, cb_overflow = False, cb_finished = False, cb_reserved = 0\<rparr>"

definition reserve_cache_capture :: "int64 \<Rightarrow> int64 \<Rightarrow> int64 \<Rightarrow> bool \<times> int64" where
  "reserve_cache_capture max_cache_body amount current =
     (if amount > wrap64 (max_cache_body - current) then (False, current)
      else (True, wrap64 (current + amount)))"

definition discard :: "capture_body \<Rightarrow> int64 \<Rightarrow> capture_body \<times> int64" where
  "discard b counter =
     (b\<lparr>cb_reserved := 0, cb_buffer := []\<rparr>,
      if cb_reserved b > 0 then wrap64 (counter - cb_reserved b) else counter)"

definition finish :: "bool \<Rightarrow> capture_body \<Rightarrow> int64 \<Rightarrow> string option \<times> capture_body \<times> int64" where
  "finish commit b counter =
     (if cb_finished b then (None, b, counter)
      else let b1 = b\<lparr>cb_finished := True\<rparr>
           in (if commit then Some (cb_buffer b1) else None, discard b1 counter))"

text \<open>\<open>Read\<close>: the bytes the wrapped reader returned, and whether it returned \<open>io.EOF\<close>.\<close>

definition capture_read ::
  "int64 \<Rightarrow> string \<Rightarrow> bool \<Rightarrow> capture_body \<Rightarrow> int64 \<Rightarrow> string option \<times> capture_body \<times> int64" where
  "capture_read max_cache_body p eof b counter =
     (let n = int (length p);
          (b1, counter1) =
            (if \<not> cb_overflow b \<and> n > 0 then
               (if int (length (cb_buffer b)) + n \<le> cb_max b \<and> fst (reserve_cache_capture max_cache_body n counter)
                then (b\<lparr>cb_buffer := cb_buffer b @ p, cb_reserved := wrap64 (cb_reserved b + n)\<rparr>,
                      snd (reserve_cache_capture max_cache_body n counter))
                else discard (b\<lparr>cb_overflow := True\<rparr>) counter)
             else (b, counter))
      in if eof then finish (\<not> cb_overflow b1) b1 counter1 else (None, b1, counter1))"

definition capture_close :: "capture_body \<Rightarrow> int64 \<Rightarrow> string option \<times> capture_body \<times> int64" where
  "capture_close b counter = finish False b counter"

lemmas capture_defs = capture_read_def capture_close_def finish_def discard_def reserve_cache_capture_def

section \<open>One body\<close>

text \<open>
  What a capture keeps: the reserved amount is the length of the buffer and within the bounds,
  nothing is held after an overflow or the end, and the counter holds at least its share.
\<close>

definition capture_ok :: "int64 \<Rightarrow> capture_body \<Rightarrow> int64 \<Rightarrow> bool" where
  "capture_ok mx b others \<longleftrightarrow> cb_max b = mx \<and> 0 \<le> mx \<and> is_int64 mx \<and> 0 \<le> others \<and>
     cb_reserved b = int (length (cb_buffer b)) \<and> others + cb_reserved b \<le> mx \<and>
     (cb_overflow b \<or> cb_finished b \<longrightarrow> cb_buffer b = [])"

lemma wrap_between [go_int]: "0 \<le> x \<Longrightarrow> x \<le> mx \<Longrightarrow> is_int64 mx \<Longrightarrow> wrap64 x = x"
  by (rule wrap64_id) (auto simp: is_int64_def min_int64_def)

lemma reserve_spec:
  assumes "0 \<le> c" "c \<le> mx" "is_int64 mx" "0 \<le> n"
  shows "reserve_cache_capture mx n c = (if c + n \<le> mx then (True, c + n) else (False, c))"
  using assms wrap_between [of "mx - c" mx] wrap_between [of "c + n" mx]
  by (auto simp: reserve_cache_capture_def)

lemma finish_ok:
  assumes "capture_ok mx b others" "\<not> cb_finished b"
    and "finish commit b (others + cb_reserved b) = (committed, b', c')"
  shows "capture_ok mx b' others \<and> cb_reserved b' = 0 \<and> cb_finished b' \<and> c' = others \<and>
    cb_overflow b' = cb_overflow b \<and> committed = (if commit then Some (cb_buffer b) else None)"
proof -
  have "wrap64 others = others" using assms(1) by (intro wrap_between [of _ mx]) (auto simp: capture_ok_def)
  with assms show ?thesis by (auto simp: finish_def discard_def capture_ok_def Let_def split: if_splits)
qed

lemma capture_read_ok:
  assumes "capture_ok mx b others" "\<not> cb_finished b"
    and "capture_read mx p eof b (others + cb_reserved b) = (committed, b', c')"
  shows "capture_ok mx b' others \<and> c' = others + cb_reserved b' \<and> cb_finished b' = eof \<and>
    (\<not> eof \<longrightarrow> (if cb_overflow b' then cb_buffer b' = [] else cb_buffer b' = cb_buffer b @ p)) \<and>
    (cb_overflow b \<longrightarrow> cb_overflow b') \<and>
    committed = (if eof \<and> \<not> cb_overflow b' then Some (cb_buffer b @ p) else None)"
proof -
  let ?n = "int (length p)"
  have ok: "0 \<le> others + cb_reserved b" "others + cb_reserved b \<le> mx" "is_int64 mx" "0 \<le> others"
    using assms(1) by (auto simp: capture_ok_def)
  note res = reserve_spec [OF ok(1-3), of ?n]
  have others: "wrap64 others = others" using ok assms(1) by (intro wrap_between [of _ mx]) (auto simp: capture_ok_def)
  consider (Skip) "cb_overflow b \<or> p = []"
    | (Fit) "\<not> cb_overflow b" "p \<noteq> []" "others + cb_reserved b + ?n \<le> mx"
    | (Over) "\<not> cb_overflow b" "p \<noteq> []" "\<not> others + cb_reserved b + ?n \<le> mx" by blast
  then show ?thesis
  proof cases
    case Skip
    then have "capture_read mx p eof b (others + cb_reserved b) =
        (if eof then finish (\<not> cb_overflow b) b (others + cb_reserved b) else (None, b, others + cb_reserved b))"
      by (auto simp: capture_read_def)
    then have read: "(if eof then finish (\<not> cb_overflow b) b (others + cb_reserved b)
        else (None, b, others + cb_reserved b)) = (committed, b', c')"
      using assms(3) by simp
    show ?thesis
    proof (cases eof)
      case True
      with read finish_ok [OF assms(1,2), of "\<not> cb_overflow b" committed b' c'] Skip show ?thesis by auto
    next
      case False
      with read assms(1,2) Skip show ?thesis by (auto simp: capture_ok_def)
    qed
  next
    case Fit
    let ?b = "b\<lparr>cb_buffer := cb_buffer b @ p, cb_reserved := cb_reserved b + ?n\<rparr>"
    have "wrap64 (cb_reserved b + ?n) = cb_reserved b + ?n"
      using assms(1) Fit by (intro wrap_between [of _ mx]) (auto simp: capture_ok_def)
    moreover have "int (length (cb_buffer b)) + ?n \<le> cb_max b"
      using assms(1) Fit by (simp add: capture_ok_def)
    ultimately have read: "(if eof then finish True ?b (others + cb_reserved ?b)
        else (None, ?b, others + cb_reserved ?b)) = (committed, b', c')"
      using Fit res assms(3) by (simp add: capture_read_def algebra_simps Let_def cong del: if_weak_cong)
    have ok': "capture_ok mx ?b others" and open_b: "\<not> cb_finished ?b"
      using assms(1,2) Fit by (auto simp: capture_ok_def)
    show ?thesis
    proof (cases eof)
      case True
      with read have "finish True ?b (others + cb_reserved ?b) = (committed, b', c')" by simp
      from finish_ok [OF ok' open_b this] True Fit show ?thesis by simp
    next
      case False
      with read have "committed = None" "b' = ?b" "c' = others + cb_reserved ?b" by auto
      with ok' open_b False Fit show ?thesis by simp
    qed
  next
    case Over
    let ?b = "b\<lparr>cb_overflow := True, cb_reserved := 0, cb_buffer := []\<rparr>"
    have back_out: "(if cb_reserved b > 0 then wrap64 (others + cb_reserved b - cb_reserved b)
        else others + cb_reserved b) = others"
      using others assms(1) by (auto simp: capture_ok_def)
    have read: "(if eof then finish False ?b others else (None, ?b, others)) = (committed, b', c')"
      using assms(3) Over res back_out by (simp add: capture_read_def discard_def Let_def cong del: if_weak_cong)
    have ok': "capture_ok mx ?b others" and open_b: "\<not> cb_finished ?b"
      using assms(1,2) by (auto simp: capture_ok_def)
    show ?thesis
    proof (cases eof)
      case True
      with read have "finish False ?b (others + cb_reserved ?b) = (committed, b', c')" by simp
      from finish_ok [OF ok' open_b this] True show ?thesis by simp
    next
      case False
      with read have "committed = None" "b' = ?b" "c' = others" by auto
      with ok' open_b False show ?thesis by simp
    qed
  qed
qed

text \<open>The reads of one body, on its own: the chunks, the last of them with the end of the body or not.\<close>

primrec capture_reads ::
  "int64 \<Rightarrow> (string \<times> bool) list \<Rightarrow> capture_body \<Rightarrow> int64 \<Rightarrow> string option \<times> capture_body \<times> int64" where
  "capture_reads mx [] b counter = (None, b, counter)"
| "capture_reads mx (c # cs) b counter =
     (case capture_read mx (fst c) (snd c) b counter of (committed, b', counter') \<Rightarrow>
        if snd c then (committed, b', counter') else capture_reads mx cs b' counter')"

lemma capture_reads_spec:
  assumes "capture_ok mx b others" "\<not> cb_finished b" "\<not> cb_overflow b"
    and "capture_reads mx (map (\<lambda>p. (p, False)) ps @ [(q, eof)]) b (others + cb_reserved b) = (committed, b', c')"
  shows "committed = (if eof \<and> \<not> cb_overflow b' then Some (cb_buffer b @ concat ps @ q) else None) \<and>
    capture_ok mx b' others \<and> c' = others + cb_reserved b' \<and> cb_finished b' = eof"
  using assms
proof (induction ps arbitrary: b)
  case Nil
  then obtain com1 b1 c1 where rd: "capture_read mx q eof b (others + cb_reserved b) = (com1, b1, c1)"
    by (metis prod_cases3)
  then have "committed = (if eof then com1 else None)" "b' = b1" "c' = c1" using Nil.prems(4) by (cases eof; auto)+
  with capture_read_ok [OF Nil.prems(1,2) rd] show ?case by simp
next
  case (Cons p ps)
  obtain com1 b1 c1 where rd: "capture_read mx p False b (others + cb_reserved b) = (com1, b1, c1)"
    by (metis prod_cases3)
  note ok = capture_read_ok [OF Cons.prems(1,2) rd]
  have rest: "capture_reads mx (map (\<lambda>p. (p, False)) ps @ [(q, eof)]) b1 (others + cb_reserved b1) = (committed, b', c')"
    using Cons.prems(4) rd ok by simp
  show ?case
  proof (cases "cb_overflow b1")
    case False
    with Cons.IH [of b1] ok rest show ?thesis by simp
  next
    case True
    have "committed = None \<and> capture_ok mx b' others \<and> c' = others + cb_reserved b' \<and>
        cb_finished b' = eof \<and> cb_overflow b'"
      if "capture_ok mx b others" "\<not> cb_finished b" "cb_overflow b"
        "capture_reads mx (map (\<lambda>p. (p, False)) ps @ [(q, eof)]) b (others + cb_reserved b) = (committed, b', c')"
      for b
      using that
    proof (induction ps arbitrary: b)
      case Nil
      then obtain com1 b1 c1 where rd: "capture_read mx q eof b (others + cb_reserved b) = (com1, b1, c1)"
        by (metis prod_cases3)
      then have "committed = (if eof then com1 else None)" "b' = b1" "c' = c1" using Nil.prems(4) by (cases eof; auto)+
      with capture_read_ok [OF Nil.prems(1,2) rd] Nil.prems(3) show ?case by simp
    next
      case (Cons p ps)
      obtain com1 b1 c1 where rd: "capture_read mx p False b (others + cb_reserved b) = (com1, b1, c1)"
        by (metis prod_cases3)
      note ok = capture_read_ok [OF Cons.prems(1,2) rd]
      with Cons.IH [of b1] Cons.prems(3,4) rd show ?case by simp
    qed
    from this [OF _ _ True rest] ok show ?thesis by simp
  qed
qed



section \<open>All bodies\<close>

text \<open>
  The captures of a handler, in any interleaving: a new one is opened, one is read from, or one
  is closed. The reverse proxy stops reading a body at its end, and closes it afterwards.
\<close>

datatype capture_event = OpenCapture | ReadCapture nat string bool | CloseCapture nat

fun capture_step :: "int64 \<Rightarrow> capture_body list \<times> int64 \<Rightarrow> capture_event \<Rightarrow> capture_body list \<times> int64" where
  "capture_step mx (bs, counter) OpenCapture = (bs @ [new_capture mx], counter)"
| "capture_step mx (bs, counter) (ReadCapture i p eof) =
     (if i < length bs \<and> \<not> cb_finished (bs ! i)
      then (case capture_read mx p eof (bs ! i) counter of (_, b', counter') \<Rightarrow> (bs[i := b'], counter'))
      else (bs, counter))"
| "capture_step mx (bs, counter) (CloseCapture i) =
     (if i < length bs
      then (case capture_close (bs ! i) counter of (_, b', counter') \<Rightarrow> (bs[i := b'], counter'))
      else (bs, counter))"

definition reserved_sum :: "capture_body list \<Rightarrow> int" where
  "reserved_sum bs = sum_list (map cb_reserved bs)"

definition captures_ok :: "int64 \<Rightarrow> capture_body list \<times> int64 \<Rightarrow> bool" where
  "captures_ok mx st \<longleftrightarrow> snd st = reserved_sum (fst st) \<and> reserved_sum (fst st) \<le> mx \<and>
     (\<forall>b \<in> set (fst st). capture_ok mx b 0)"

lemma reserved_sum_update:
  assumes "i < length bs"
  shows "reserved_sum (bs[i := b]) = reserved_sum bs - cb_reserved (bs ! i) + cb_reserved b"
proof -
  have "sum_list (xs[i := x]) = sum_list xs - xs ! i + x" if "i < length xs" for xs :: "int list" and x
    using that by (induction xs arbitrary: i) (auto split: nat.splits)
  from this [of "map cb_reserved bs"] assms show ?thesis by (simp add: reserved_sum_def map_update)
qed

lemma capture_ok_others:
  assumes "captures_ok mx (bs, c)" "i < length bs"
  shows "capture_ok mx (bs ! i) (reserved_sum bs - cb_reserved (bs ! i))"
proof -
  have all: "\<forall>b \<in> set bs. 0 \<le> cb_reserved b" and nth: "bs ! i \<in> set bs"
    using assms by (auto simp: captures_ok_def capture_ok_def)
  then have "cb_reserved (bs ! i) \<le> reserved_sum bs"
    unfolding reserved_sum_def by (intro member_le_sum_list) auto
  moreover have "capture_ok mx (bs ! i) 0" using assms nth by (simp add: captures_ok_def)
  then have "0 \<le> mx" "is_int64 mx" by (simp_all add: capture_ok_def)
  ultimately show ?thesis using assms(1) nth by (simp add: captures_ok_def capture_ok_def)
qed

lemma captures_ok_put:
  assumes "captures_ok mx (bs, c)" "i < length bs"
    and "capture_ok mx b (reserved_sum bs - cb_reserved (bs ! i))"
  shows "captures_ok mx (bs[i := b], reserved_sum bs - cb_reserved (bs ! i) + cb_reserved b)"
  using assms by (auto simp: captures_ok_def reserved_sum_update capture_ok_def dest!: set_update_subset_insert [THEN subsetD])

lemma captures_ok_step [inv_intros]:
  assumes "captures_ok mx st" "0 \<le> mx" "is_int64 mx"
  shows "captures_ok mx (capture_step mx st e)"
proof -
  obtain bs c where st: "st = (bs, c)" by (cases st)
  have c: "c = reserved_sum bs" using assms(1) st by (simp add: captures_ok_def)
  show ?thesis
  proof (cases e)
    case OpenCapture
    with assms st show ?thesis
      by (auto simp: captures_ok_def reserved_sum_def new_capture_def capture_ok_def)
  next
    case (ReadCapture i p eof)
    show ?thesis
    proof (cases "i < length bs \<and> \<not> cb_finished (bs ! i)")
      case True
      obtain com b' c' where rd: "capture_read mx p eof (bs ! i) c = (com, b', c')" by (metis prod_cases3)
      then have "capture_read mx p eof (bs ! i) (reserved_sum bs - cb_reserved (bs ! i) + cb_reserved (bs ! i)) = (com, b', c')"
        by (simp add: c)
      from capture_read_ok [OF capture_ok_others _ this] assms st True
      have "capture_ok mx b' (reserved_sum bs - cb_reserved (bs ! i))"
        "c' = reserved_sum bs - cb_reserved (bs ! i) + cb_reserved b'" by auto
      with captures_ok_put [of mx bs c i b'] assms st True ReadCapture rd show ?thesis by simp
    qed (use assms st ReadCapture in auto)
  next
    case (CloseCapture i)
    show ?thesis
    proof (cases "i < length bs \<and> \<not> cb_finished (bs ! i)")
      case True
      obtain com b' c' where fin: "finish False (bs ! i) c = (com, b', c')" by (metis prod_cases3)
      then have "finish False (bs ! i) (reserved_sum bs - cb_reserved (bs ! i) + cb_reserved (bs ! i)) = (com, b', c')"
        by (simp add: c)
      from finish_ok [OF capture_ok_others _ this] assms st True
      have "capture_ok mx b' (reserved_sum bs - cb_reserved (bs ! i))"
        "c' = reserved_sum bs - cb_reserved (bs ! i) + cb_reserved b'" by auto
      with captures_ok_put [of mx bs c i b'] assms st True CloseCapture fin show ?thesis
        by (simp add: capture_close_def)
    next
      case False
      then have "capture_step mx st e = st"
        by (auto simp: st CloseCapture capture_close_def finish_def)
      with assms show ?thesis by simp
    qed
  qed
qed

text \<open>
  All the captures of a handler together never buffer more than \<open>maxCacheBody\<close> bytes,
  however the reads of concurrent responses interleave, and the shared counter is exact: it is
  the sum of what the open captures hold, so it is back at zero once every body is closed.
\<close>

lemma capture_budget:
  assumes "0 \<le> mx" and "is_int64 mx" and "foldl (capture_step mx) ([], 0) es = (bs, counter)"
  shows "counter = sum_list (map (\<lambda>b. int (length (cb_buffer b))) bs) \<and> counter \<le> mx \<and>
    (list_all cb_finished bs \<longrightarrow> counter = 0)"
proof -
  have "captures_ok mx (foldl (capture_step mx) st es)" if "captures_ok mx st" for st
    using that assms(1,2) by (induction es arbitrary: st) (simp_all add: captures_ok_step)
  from this [of "([], 0)"] assms(1,3) have ok: "captures_ok mx (bs, counter)"
    by (simp add: captures_ok_def reserved_sum_def)
  have "\<forall>b \<in> set bs. cb_reserved b = int (length (cb_buffer b))"
    using ok by (auto simp: captures_ok_def capture_ok_def)
  then have "sum_list (map cb_reserved bs) = sum_list (map (\<lambda>b. int (length (cb_buffer b))) bs)"
    by (metis (no_types, lifting) map_eq_conv)
  moreover have "map cb_reserved bs = map (\<lambda>_. 0) bs" if "list_all cb_finished bs"
    using that ok by (auto simp: captures_ok_def capture_ok_def list_all_iff)
  ultimately show ?thesis
    using ok by (auto simp: captures_ok_def reserved_sum_def map_replicate_const sum_list_replicate)
qed

end
