(* ===== verification/Forward.thy ===== *)
theory Forward
  imports Config
begin

text \<open>
  What the proxy sends upstream (package \<open>proxy\<close>, the request helpers of \<open>handler.go\<close>):
  the path check that comes before routing, the target URL (\<open>ProxyRequest.SetURL\<close>), the
  removal of hop-by-hop headers by \<open>httputil.ReverseProxy\<close>, and the forwarding headers.
\<close>

section \<open>Paths that mean the same to everybody\<close>

definition safe_request_path :: "url \<Rightarrow> bool" where
  "safe_request_path u =
     (let escaped = to_lower (escaped_path u)
      in if contains escaped ''%2f'' \<or> contains escaped ''%5c'' \<or> contains escaped ''%25'' \<or>
            contains (path u) [CHR 0x5C] then False
         else \<not> list_ex (\<lambda>segment. segment = ''.'' \<or> segment = ''..'') (split_on CHR ''/'' (path u)))"

lemma unhex_upper: "n < 16 \<Longrightarrow> unhex (hex_digit n) = Some n"
proof -
  assume "n < 16"
  then have "n \<in> set [0..<16]" by simp
  then show ?thesis
    unfolding set_upt by (simp add: atLeastLessThan_nat_numeral)
      (elim disjE; simp add: hex_digit_def unhex_def)
qed

lemma unescape_escape: "unescape_path (escape_path p) = Some p"
proof (induction p)
  case (Cons c p)
  have "(of_char c :: nat) < 256" by simp
  then have "(of_char c :: nat) div 16 < 16" by linarith
  then have "unhex (hex_digit (of_char c div 16)) = Some (of_char c div 16)"
    "unhex (hex_digit (of_char c mod 16)) = Some (of_char c mod 16)"
    by (auto intro!: unhex_upper)
  moreover have "c \<noteq> CHR ''%''" if "\<not> should_escape c"
    using that by (auto simp: should_escape_def is_alnum_def is_digit_def)
  ultimately show ?case
    using Cons by (auto simp: escape_path_def escape_char_def)
qed (simp add: escape_path_def)

text \<open>The escaped form of a path always decodes to the path.\<close>

lemma unescape_escaped_path: "unescape_path (escaped_path u) = Some (path u)"
  by (auto simp: escaped_path_def unescape_escape)

text \<open>An escape that hides a slash: \<open>%2f\<close> in any case.\<close>

lemma lower_char_hex:
  assumes "unhex a = Some 2" and "unhex b = Some 15"
  shows "lower_char a = CHR ''2'' \<and> lower_char b = CHR ''f''"
proof -
  have "(of_char a :: nat) = of_char CHR ''2''"
    using assms(1) by (auto simp: unhex_def Let_def split: if_splits)
  then have "a = CHR ''2''" by (simp only: of_char_eq_iff)
  moreover have "(of_char b :: nat) = of_char CHR ''F'' \<or> (of_char b :: nat) = of_char CHR ''f''"
    using assms(2) by (auto simp: unhex_def Let_def split: if_splits)
  then have "b = CHR ''F'' \<or> b = CHR ''f''" by (simp only: of_char_eq_iff)
  moreover have "lower_char CHR ''2'' = CHR ''2''" "lower_char CHR ''F'' = CHR ''f''" "lower_char CHR ''f'' = CHR ''f''"
    by code_simp+
  ultimately show ?thesis by auto
qed

lemma unhex_bound: "unhex a = Some x \<Longrightarrow> x < 16"
  by (auto simp: unhex_def Let_def split: if_splits)

lemma unhex_slash: "unhex CHR ''/'' = None"
  by (simp add: unhex_def)

lemma escaped_slash:
  assumes "unhex a = Some x" "unhex b = Some y" "char_of (16 * x + y) = CHR ''/''"
  shows "x = 2 \<and> y = 15"
proof -
  have xy: "x < 16" "y < 16" using assms(1,2) unhex_bound by auto
  have "(16 * x + y) mod 256 = of_char CHR ''/''"
    unfolding assms(3) [symmetric] by simp
  with xy show ?thesis by simp presburger
qed

lemma unescape_segments:
  "unescape_path e = Some p \<Longrightarrow> \<not> contains (to_lower e) ''%2f'' \<Longrightarrow>
   map unescape_path (split_on CHR ''/'' e) = map Some (split_on CHR ''/'' p)"
proof (induction e arbitrary: p rule: unescape_path.induct)
  case (2 c s)
  show ?case
  proof (cases "c = CHR ''%''")
    case True
    with 2(3) obtain a b rest x y q where s: "s = a # b # rest" and hex: "unhex a = Some x" "unhex b = Some y"
      and rest: "unescape_path rest = Some q" and p: "p = char_of (16 * x + y) # q"
      by (auto split: list.splits option.splits)
    have "\<not> has_prefix (to_lower (c # s)) ''%2f''" "\<not> contains (to_lower rest) ''%2f''"
      using 2(4) s by (auto simp: to_lower_def)
    then have "char_of (16 * x + y) \<noteq> CHR ''/''"
      using escaped_slash [OF hex] lower_char_hex [of a b] hex True s
      by (auto simp: has_prefix_def to_lower_def lower_char_def)
    moreover have "a \<noteq> CHR ''/''" "b \<noteq> CHR ''/''" using hex unhex_slash by auto
    moreover have "map unescape_path (split_on CHR ''/'' rest) = map Some (split_on CHR ''/'' q)"
      using 2(1) [OF True s refl refl hex rest] \<open>\<not> contains (to_lower rest) ''%2f''\<close> by simp
    ultimately show ?thesis
      using True s p hex by (auto split: list.splits)
  next
    case False
    with 2(3) obtain q where q: "unescape_path s = Some q" and p: "p = c # q" by auto
    have "\<not> contains (to_lower s) ''%2f''" using 2(4) by (simp add: to_lower_def)
    with 2(2) [OF False q] have "map unescape_path (split_on CHR ''/'' s) = map Some (split_on CHR ''/'' q)" .
    with False p show ?thesis by (auto split: list.splits)
  qed
qed simp



section \<open>The target URL\<close>

text \<open>\<open>joinURLPath\<close>, \<open>rewriteRequestURL\<close> and \<open>SetURL\<close> of \<open>net/http/httputil\<close>.\<close>

definition single_joining_slash :: "string \<Rightarrow> string \<Rightarrow> string" where
  "single_joining_slash a b =
     (if has_suffix a ''/'' \<and> has_prefix b ''/'' then a @ drop 1 b
      else if \<not> has_suffix a ''/'' \<and> \<not> has_prefix b ''/'' then a @ ''/'' @ b
      else a @ b)"

definition join_url_path :: "url \<Rightarrow> url \<Rightarrow> string \<times> string" where
  "join_url_path a b =
     (if raw_path a = [] \<and> raw_path b = [] then (single_joining_slash (path a) (path b), [])
      else let apath = escaped_path a; bpath = escaped_path b;
               aslash = has_suffix apath ''/''; bslash = has_prefix bpath ''/''
           in if aslash \<and> bslash then (path a @ drop 1 (path b), apath @ drop 1 bpath)
              else if \<not> aslash \<and> \<not> bslash then (path a @ ''/'' @ path b, apath @ ''/'' @ bpath)
              else (path a @ path b, apath @ bpath))"

definition set_url :: "url \<Rightarrow> request \<Rightarrow> request" where
  "set_url target out =
     (let u = r_url out; joined = join_url_path target u
      in out\<lparr>r_url := u\<lparr>scheme := scheme target, host := host target,
               path := fst joined, raw_path := snd joined,
               raw_query := (if raw_query target = [] \<or> raw_query u = [] then raw_query target @ raw_query u
                             else raw_query target @ ''&'' @ raw_query u)\<rparr>,
             r_host := []\<rparr>)"

section \<open>Forwarding headers\<close>

definition request_proto :: "request \<Rightarrow> string" where
  "request_proto r = (if r_tls r then ''https'' else ''http'')"

definition forwarded_node :: "string \<Rightarrow> string" where
  "forwarded_node client =
     (if contains client '':'' \<and> \<not> has_prefix client ''['' then ''['' @ client @ '']'' else client)"

text \<open>\<open>strconv.Quote\<close> on printable text: quotes and backslashes are escaped.\<close>

definition go_quote :: "string \<Rightarrow> string" where
  "go_quote s = [CHR 0x22] @
     concat (map (\<lambda>c. if c = CHR 0x22 \<or> c = CHR 0x5C then [CHR 0x5C, c] else [c]) s) @ [CHR 0x22]"

definition is_control :: "char \<Rightarrow> bool" where
  "is_control c \<longleftrightarrow> (of_char c :: nat) < 32 \<or> (of_char c :: nat) = 127"

definition quote_forwarded :: "string \<Rightarrow> string" where
  "quote_forwarded v = go_quote (filter (\<lambda>c. \<not> is_control c) v)"

definition forwarded_value :: "request \<Rightarrow> string \<Rightarrow> string \<Rightarrow> string" where
  "forwarded_value r client proto =
     ''for='' @ quote_forwarded (forwarded_node client) @ '';host='' @ quote_forwarded (r_host r) @
     '';proto='' @ proto"

definition set_forwarding_headers :: "request \<Rightarrow> request \<Rightarrow> string \<Rightarrow> request" where
  "set_forwarding_headers inr out client =
     (let proto = request_proto inr;
          h1 = hdr_set (r_header out) ''X-Forwarded-For'' client;
          h2 = hdr_set h1 ''X-Forwarded-Host'' (r_host inr);
          h3 = hdr_set h2 ''X-Forwarded-Proto'' proto;
          h4 = hdr_set h3 ''Forwarded'' (forwarded_value inr client proto)
      in out\<lparr>r_header := h4\<rparr>)"

text \<open>The \<open>Rewrite\<close> callback of \<open>ServeHTTP\<close>.\<close>

definition rewrite_request :: "bool \<Rightarrow> url \<Rightarrow> string \<Rightarrow> string \<Rightarrow> request \<Rightarrow> request \<Rightarrow> request" where
  "rewrite_request rewrite_hst target original_host client inr out =
     (let o1 = set_url target out;
          o2 = (if \<not> rewrite_hst then o1\<lparr>r_host := original_host\<rparr> else o1)
      in set_forwarding_headers inr o2 client)"

section \<open>What ReverseProxy does to the request\<close>

text \<open>
  \<open>httputil.ReverseProxy.ServeHTTP\<close> up to the call of the transport. \<^const>\<open>None\<close> is the early
  exit for an \<open>Upgrade\<close> token that is not printable. Cleaning the query of unparsable
  parameters does not depend on the code under \<open>src/\<close>: it is the argument \<open>clean\<close>.
\<close>

definition header_contains_token :: "string list \<Rightarrow> string \<Rightarrow> bool" where
  "header_contains_token vs token =
     list_ex (\<lambda>v. list_ex (\<lambda>part. equal_fold (trim_space part) token) (split_on CHR '','' v)) vs"

definition upgrade_type :: "header \<Rightarrow> string" where
  "upgrade_type h =
     (if header_contains_token (hdr_values h ''Connection'') ''Upgrade'' then hdr_get h ''Upgrade'' else [])"

definition hop_headers :: "string list" where
  "hop_headers = [''Connection'', ''Proxy-Connection'', ''Keep-Alive'', ''Proxy-Authenticate'',
     ''Proxy-Authorization'', ''Te'', ''Trailer'', ''Transfer-Encoding'', ''Upgrade'']"

definition connection_listed :: "header \<Rightarrow> string list" where
  "connection_listed h =
     filter (\<lambda>f. f \<noteq> []) (map trim_space (concat (map (split_on CHR '','') (hdr_values h ''Connection''))))"

definition remove_hop_by_hop :: "header \<Rightarrow> header" where
  "remove_hop_by_hop h = foldl hdr_del (foldl hdr_del h (connection_listed h)) hop_headers"

definition is_print :: "string \<Rightarrow> bool" where
  "is_print s \<longleftrightarrow> list_all (\<lambda>c. 32 \<le> (of_char c :: nat) \<and> (of_char c :: nat) \<le> 126) s"

definition forwarding_headers :: "string list" where
  "forwarding_headers = [''Forwarded'', ''X-Forwarded-For'', ''X-Forwarded-Host'', ''X-Forwarded-Proto'']"

definition outgoing_request ::
  "(string \<Rightarrow> string) \<Rightarrow> (request \<Rightarrow> request \<Rightarrow> request) \<Rightarrow> request \<Rightarrow> request option" where
  "outgoing_request clean rewrite r =
     (let out = (if r_content_length r = 0 then r\<lparr>r_body := BodyNil\<rparr> else r);
          up = upgrade_type (r_header out)
      in if \<not> is_print up then None
         else let h1 = remove_hop_by_hop (r_header out);
                  h2 = (if header_contains_token (hdr_values (r_header r) ''Te'') ''trailers''
                        then hdr_set h1 ''Te'' ''trailers'' else h1);
                  h3 = (if up \<noteq> [] then hdr_set (hdr_set h2 ''Connection'' ''Upgrade'') ''Upgrade'' up else h2);
                  h4 = foldl hdr_del h3 forwarding_headers;
                  u = r_url out;
                  out1 = rewrite r (out\<lparr>r_header := h4, r_url := u\<lparr>raw_query := clean (raw_query u)\<rparr>\<rparr>);
                  h5 = (if hdr_values (r_header out1) ''User-Agent'' = []
                        then hdr_set (r_header out1) ''User-Agent'' [] else r_header out1)
              in Some (out1\<lparr>r_header := h5\<rparr>))"

section \<open>What the upstream sees\<close>

lemma hdr_values_dels:
  "hdr_values (foldl hdr_del h ns) m =
     (if \<exists>n \<in> set ns. canonical_key m = canonical_key n then [] else hdr_values h m)"
  by (induction ns arbitrary: h) auto

lemma canonical_literals [simp]:
  "canonical_key ''Connection'' = ''Connection''" "canonical_key ''Proxy-Connection'' = ''Proxy-Connection''"
  "canonical_key ''Keep-Alive'' = ''Keep-Alive''" "canonical_key ''Proxy-Authenticate'' = ''Proxy-Authenticate''"
  "canonical_key ''Proxy-Authorization'' = ''Proxy-Authorization''" "canonical_key ''Te'' = ''Te''"
  "canonical_key ''Trailer'' = ''Trailer''" "canonical_key ''Transfer-Encoding'' = ''Transfer-Encoding''"
  "canonical_key ''Upgrade'' = ''Upgrade''" "canonical_key ''Forwarded'' = ''Forwarded''"
  "canonical_key ''X-Forwarded-For'' = ''X-Forwarded-For''"
  "canonical_key ''X-Forwarded-Host'' = ''X-Forwarded-Host''"
  "canonical_key ''X-Forwarded-Proto'' = ''X-Forwarded-Proto''" "canonical_key ''User-Agent'' = ''User-Agent''"
  by code_simp+

text \<open>The values that reach the rewriting callback, before it adds the forwarding headers.\<close>

definition end_to_end :: "header \<Rightarrow> string \<Rightarrow> string list" where
  "end_to_end h m =
     (if \<exists>n \<in> set (connection_listed h). canonical_key m = canonical_key n then [] else hdr_values h m)"

lemma outgoing_header:
  assumes "outgoing_request clean (rewrite_request rw target hst client) r = Some out"
  shows "r_header out =
    (let up = upgrade_type (r_header r);
         h1 = remove_hop_by_hop (r_header r);
         h2 = (if header_contains_token (hdr_values (r_header r) ''Te'') ''trailers''
               then hdr_set h1 ''Te'' ''trailers'' else h1);
         h3 = (if up \<noteq> [] then hdr_set (hdr_set h2 ''Connection'' ''Upgrade'') ''Upgrade'' up else h2);
         h4 = foldl hdr_del h3 forwarding_headers;
         h5 = hdr_set (hdr_set (hdr_set (hdr_set h4 ''X-Forwarded-For'' client) ''X-Forwarded-Host'' (r_host r))
                ''X-Forwarded-Proto'' (request_proto r)) ''Forwarded'' (forwarded_value r client (request_proto r))
     in if hdr_values h5 ''User-Agent'' = [] then hdr_set h5 ''User-Agent'' [] else h5)"
proof -
  have rewritten: "r_header (rewrite_request rw target hst client r o0) =
      hdr_set (hdr_set (hdr_set (hdr_set (r_header o0) ''X-Forwarded-For'' client) ''X-Forwarded-Host'' (r_host r))
        ''X-Forwarded-Proto'' (request_proto r)) ''Forwarded'' (forwarded_value r client (request_proto r))" for o0
    by (simp add: rewrite_request_def set_forwarding_headers_def set_url_def Let_def)
  have body: "r_header (if r_content_length r = 0 then r\<lparr>r_body := BodyNil\<rparr> else r) = r_header r" by simp
  have "is_print (upgrade_type (r_header r))"
    using assms unfolding outgoing_request_def Let_def body by (cases "is_print (upgrade_type (r_header r))") simp_all
  moreover have "r_header out = r_header (the (outgoing_request clean (rewrite_request rw target hst client) r))"
    by (simp add: assms)
  ultimately show ?thesis
    unfolding outgoing_request_def Let_def body
    by (simp add: rewritten cong: if_cong split del: if_split)
qed

lemma hop_values:
  "hdr_values (remove_hop_by_hop h) m = (if canonical_key m \<in> set hop_headers then [] else end_to_end h m)"
  by (simp add: remove_hop_by_hop_def hdr_values_dels end_to_end_def hop_headers_def)

lemma outgoing_values:
  assumes "outgoing_request clean (rewrite_request rw target hst client) r = Some out"
  defines "up \<equiv> upgrade_type (r_header r)"
  shows "hdr_values (r_header out) m =
    (if canonical_key m = ''Forwarded'' then [forwarded_value r client (request_proto r)]
     else if canonical_key m = ''X-Forwarded-Proto'' then [request_proto r]
     else if canonical_key m = ''X-Forwarded-Host'' then [r_host r]
     else if canonical_key m = ''X-Forwarded-For'' then [client]
     else if canonical_key m = ''Upgrade'' then (if up = [] then [] else [up])
     else if canonical_key m = ''Connection'' then (if up = [] then [] else [''Upgrade''])
     else if canonical_key m = ''Te'' then
       (if header_contains_token (hdr_values (r_header r) ''Te'') ''trailers'' then [''trailers''] else [])
     else if canonical_key m \<in> set hop_headers then []
     else if canonical_key m = ''User-Agent'' \<and> end_to_end (r_header r) m = [] then [[]]
     else end_to_end (r_header r) m)"
proof -
  have ua: "end_to_end (r_header r) m = end_to_end (r_header r) ''User-Agent''" if "canonical_key m = ''User-Agent''"
    using that by (simp add: end_to_end_def hdr_values_def)
  show ?thesis
    unfolding outgoing_header [OF assms(1)] Let_def up_def [symmetric]
    using ua
    by (simp add: hdr_values_dels hop_values forwarding_headers_def hop_headers_def)
qed


definition spoofed_request :: request where
  "spoofed_request = plain_request ''GET'' ''a.test'' ''/x''
     \<lparr>r_header := [(''X-Forwarded-For'', [''10.0.0.1'']), (''Connection'', [''X-Forwarded-Host, X-Secret'']),
        (''X-Secret'', [''1'']), (''Accept'', [''*'' ])]\<rparr>"


text \<open>A reader of a quoted string: its content and what follows the closing quote.\<close>

fun read_quoted_from :: "string \<Rightarrow> (string \<times> string) option" where
  "read_quoted_from [] = None"
| "read_quoted_from (c # s) =
     (if c = CHR 0x22 then Some ([], s)
      else if c = CHR 0x5C then
        (case s of [] \<Rightarrow> None
         | d # t \<Rightarrow> map_option (\<lambda>(v, rest). (d # v, rest)) (read_quoted_from t))
      else map_option (\<lambda>(v, rest). (c # v, rest)) (read_quoted_from s))"

definition read_quoted :: "string \<Rightarrow> (string \<times> string) option" where
  "read_quoted s = (case s of c # t \<Rightarrow> if c = CHR 0x22 then read_quoted_from t else None | [] \<Rightarrow> None)"

lemma read_quoted_go_quote: "read_quoted (go_quote v @ rest) = Some (v, rest)"
proof -
  have "read_quoted_from (concat (map (\<lambda>c. if c = CHR 0x22 \<or> c = CHR 0x5C then [CHR 0x5C, c] else [c]) v) @
      CHR 0x22 # rest) = Some (v, rest)"
    by (induction v) auto
  then show ?thesis by (simp add: read_quoted_def go_quote_def)
qed

text \<open>The fields of a \<open>Forwarded\<close> value, read one after the other.\<close>

definition read_forwarded :: "string \<Rightarrow> (string \<times> string \<times> string) option" where
  "read_forwarded v =
     (if \<not> has_prefix v ''for='' then None
      else (case read_quoted (drop 4 v) of
         None \<Rightarrow> None
       | Some (node, s) \<Rightarrow>
           if \<not> has_prefix s '';host='' then None
           else (case read_quoted (drop 6 s) of
              None \<Rightarrow> None
            | Some (hst, t) \<Rightarrow> if has_prefix t '';proto='' then Some (node, hst, drop 7 t) else None)))"


end
