(* ===== verification/Proxy.thy ===== *)
theory Proxy
  imports Balance Routing Cache CachePolicy RateLimit RoutePolicy ClientIP Capture Forward
begin

text \<open>
  The request handler (package \<open>proxy\<close>, files \<open>handler.go\<close>, \<open>runtime.go\<close> and \<open>errors.go\<close>).
  A handler is an immutable snapshot of the configuration and a state that all its requests
  share. \<open>ServeHTTP\<close>, the reverse proxy it runs and \<open>retryTransport.RoundTrip\<close> are one
  program per request, cut into steps at the operations on the shared state: each step is the
  code from one such operation (a mutex, an atomic, a channel) to the next, and a program counter
  says which step comes next. Steps of different requests interleave freely.

  A step takes as input what the outside world decides: the reading of the clock, the result of
  the upstream round trip, the next piece of the response body, and whether the client still
  takes the bytes.
\<close>

section \<open>The handler\<close>

record runtime_pool =
  rp_backends :: "bid list"
  rp_max_attempts :: int
  rp_passive_threshold :: int

record handler =
  h_router :: router
  h_pools :: "(string \<times> runtime_pool) list"
  h_client_ip :: "client_ip_policy option"
  h_max_body_bytes :: int64
  h_capacity :: int
  h_cache_ttl :: duration
  h_max_cache_body :: int64
  h_observed :: bool
  h_clean_query :: "string \<Rightarrow> string"
  h_parse_time :: "string \<Rightarrow> time option"

datatype observation =
    ObserveRequest string string string string string int int string duration
  | ObserveRateLimit string string
  | ObservePolicyDeny string string
  | SetBackendActive string string int

record shared =
  sh_heap :: heap
  sh_balancers :: "string \<times> string \<Rightarrow> bal_state option"
  sh_limiters :: "string \<Rightarrow> rate_limiter option"
  sh_slots :: int
  sh_cache :: cache
  sh_capture :: int64
  sh_in_flight :: int64
  sh_retired :: bool
  sh_idle_closes :: nat
  sh_log :: "observation list"

definition observe :: "handler \<Rightarrow> observation \<Rightarrow> shared \<Rightarrow> shared" where
  "observe h ob sh = (if h_observed h then sh\<lparr>sh_log := sh_log sh @ [ob]\<rparr> else sh)"

definition observe_rate_limit :: "handler \<Rightarrow> string \<Rightarrow> bool \<Rightarrow> shared \<Rightarrow> shared" where
  "observe_rate_limit h rt allowed sh =
     observe h (ObserveRateLimit rt (if allowed then ''allowed'' else ''limited'')) sh"

definition observe_policy_deny :: "handler \<Rightarrow> string \<Rightarrow> string \<Rightarrow> shared \<Rightarrow> shared" where
  "observe_policy_deny h rt why sh = observe h (ObservePolicyDeny rt why) sh"

section \<open>The response writer\<close>

text \<open>
  \<open>statusWriter\<close> around the client's response writer: the header map, what was recorded, and
  the pieces of the body. An error body is the JSON object of \<open>errorResponse\<close>.
\<close>

datatype body_piece = ErrorJson string string | Bytes string

record reply =
  rw_header :: header
  rw_status :: int
  rw_wrote :: bool
  rw_body :: "body_piece list"

definition new_reply :: "header \<Rightarrow> reply" where
  "new_reply hdr = \<lparr>rw_header = hdr, rw_status = 200, rw_wrote = False, rw_body = []\<rparr>"

definition write_header :: "int \<Rightarrow> reply \<Rightarrow> reply" where
  "write_header st w =
     (if rw_wrote w then w
      else if st \<ge> 100 \<and> st < 200 \<and> st \<noteq> 101 then w
      else w\<lparr>rw_wrote := True, rw_status := st\<rparr>)"

definition write_body :: "body_piece \<Rightarrow> reply \<Rightarrow> reply" where
  "write_body p w =
     (let w1 = (if \<not> rw_wrote w then write_header 200 w else w) in w1\<lparr>rw_body := rw_body w1 @ [p]\<rparr>)"

definition write_error :: "int \<Rightarrow> string \<Rightarrow> string \<Rightarrow> reply \<Rightarrow> reply" where
  "write_error st code msg w =
     (let h1 = hdr_set (rw_header w) ''Content-Type'' ''application/json'';
          h2 = hdr_set h1 ''Cache-Control'' ''no-store''
      in write_body (ErrorJson code msg) (write_header st (w\<lparr>rw_header := h2\<rparr>)))"

definition set_reply_header :: "string \<Rightarrow> string \<Rightarrow> reply \<Rightarrow> reply" where
  "set_reply_header name v w = w\<lparr>rw_header := hdr_set (rw_header w) name v\<rparr>"

definition copy_header :: "header \<Rightarrow> reply \<Rightarrow> reply" where
  "copy_header src w =
     w\<lparr>rw_header := foldl (\<lambda>dst (name, vs). foldl (\<lambda>d v. hdr_add d name v) dst vs) (rw_header w) src\<rparr>"

text \<open>\<open>Seconds()\<close> of the age is a float; here the whole seconds are exact.\<close>

definition write_cached :: "time \<Rightarrow> response \<Rightarrow> reply \<Rightarrow> reply" where
  "write_cached now resp w =
     (let w1 = copy_header (resp_header resp) w;
          age0 = go_div (time_sub now (resp_stored resp)) second;
          age1 = (if age0 < 0 then 0 else age0);
          age = (case parse_int (trim_space (hdr_get (resp_header resp) ''Age'')) of
                   Some initial \<Rightarrow> if initial > 0 \<and> initial \<le> max_int64 - age1 then age1 + initial else age1
                 | None \<Rightarrow> age1);
          w2 = set_reply_header ''Age'' (format_int age) w1
      in write_body (Bytes (resp_body resp)) (write_header (resp_status resp) w2))"

section \<open>Errors\<close>

text \<open>What the handler asks of an error: \<open>errors.As MaxBytesError\<close>, \<open>errors.Is Canceled\<close> and
  \<open>errors.Is DeadlineExceeded\<close>.\<close>

record go_error =
  e_too_large :: bool
  e_canceled :: bool
  e_deadline :: bool

definition other_error :: go_error where
  "other_error = \<lparr>e_too_large = False, e_canceled = False, e_deadline = False\<rparr>"

definition is_backend_failure :: "go_error \<Rightarrow> bool" where
  "is_backend_failure e \<longleftrightarrow> \<not> e_too_large e \<and> \<not> e_canceled e"

definition error_handler :: "go_error \<Rightarrow> reply \<Rightarrow> reply" where
  "error_handler e w =
     (if e_too_large e then write_error 413 ''request_too_large'' ''request body too large'' w
      else if e_deadline e then write_error 504 ''upstream_timeout'' ''upstream timed out'' w
      else write_error 502 ''bad_gateway'' ''upstream request failed'' w)"

definition can_retry :: "request \<Rightarrow> bool" where
  "can_retry r =
     (if r_method r \<in> {''GET'', ''HEAD'', ''OPTIONS'', ''TRACE''}
      then r_body r = BodyNil \<or> r_body r = BodyNone \<or> r_get_body r else False)"

section \<open>A request in progress\<close>

text \<open>The head of an upstream response; \<open>up_trailers\<close> counts the announced trailers.\<close>

record upstream =
  up_status :: int
  up_header :: header
  up_trailers :: nat

datatype pc =
    Arrived | Limiting | Slotting | Caching | Selecting | Acquiring
  | Attempting | Failed | Reselecting | Reacquiring
  | Streaming | Closing | Releasing
  | Finishing | Reporting | Leaving | LeaveCheck bool | Done | Hung

record thread =
  th_pc :: pc
  th_req :: request
  th_started :: time
  th_w :: reply
  th_route :: "route option"
  th_route_name :: string
  th_backend_name :: string
  th_cache_result :: string
  th_attempts :: int
  th_client :: string
  th_slot :: bool
  th_key :: string
  th_selected :: bid
  th_held :: "bid option"
  th_attempt :: int
  th_initial :: request
  th_sent :: request
  th_error :: go_error
  th_capture :: "capture_body option"
  th_resp :: upstream
  th_ttl :: duration
  th_aborted :: bool
  th_panicked :: bool

datatype read_end = More | Eof | ReadError

datatype input =
    Go time
  | RoundTripError go_error
  | RoundTripResponse upstream time
  | GetBodyFails go_error
  | BodyChunk string read_end bool time time

definition new_thread :: "request \<Rightarrow> string \<Rightarrow> thread" where
  "new_thread r ident = \<lparr>th_pc = Arrived, th_req = r, th_started = 0,
     th_w = new_reply (hdr_set [] ''X-Request-ID'' ident), th_route = None,
     th_route_name = ''unmatched'', th_backend_name = [], th_cache_result = ''bypass'', th_attempts = 0,
     th_client = [], th_slot = False, th_key = [], th_selected = 0, th_held = None, th_attempt = 0,
     th_initial = r, th_sent = r, th_error = other_error, th_capture = None,
     th_resp = \<lparr>up_status = 0, up_header = [], up_trailers = 0\<rparr>, th_ttl = 0, th_aborted = False,
     th_panicked = False\<rparr>"

text \<open>An answer of the proxy's own, after which only the deferred functions run; and a panic.\<close>

definition fail_with :: "int \<Rightarrow> string \<Rightarrow> string \<Rightarrow> thread \<Rightarrow> thread" where
  "fail_with st code msg t = t\<lparr>th_w := write_error st code msg (th_w t), th_pc := Finishing\<rparr>"

definition crash :: "thread \<Rightarrow> thread" where
  "crash t = t\<lparr>th_aborted := True, th_panicked := True, th_pc := Finishing\<rparr>"

definition route_or_zero :: "route option \<Rightarrow> route" where
  "route_or_zero rt = (case rt of Some r \<Rightarrow> r | None \<Rightarrow> plain_route [] [] [] [])"

definition the_route :: "thread \<Rightarrow> route" where
  "the_route t = route_or_zero (th_route t)"

section \<open>Admission\<close>

definition limit_body :: "handler \<Rightarrow> request \<Rightarrow> request" where
  "limit_body h r =
     (case r_body r of
        BodyStream n \<Rightarrow> r\<lparr>r_body := BodyLimited n (h_max_body_bytes h)\<rparr>
      | BodyLimited n m \<Rightarrow> r\<lparr>r_body := BodyLimited n (min m (h_max_body_bytes h))\<rparr>
      | _ \<Rightarrow> r)"

definition serve_start :: "handler \<Rightarrow> time \<Rightarrow> shared \<Rightarrow> thread \<Rightarrow> shared \<times> thread" where
  "serve_start h now sh t0 =
     (let sh1 = sh\<lparr>sh_in_flight := wrap64 (sh_in_flight sh + 1)\<rparr>;
          t = t0\<lparr>th_started := now\<rparr>;
          r0 = th_req t
      in if r_content_length r0 > h_max_body_bytes h
         then (sh1, fail_with 413 ''request_too_large'' ''request body too large'' t)
         else let r = limit_body h r0; t1 = t\<lparr>th_req := r\<rparr> in
         if \<not> safe_request_path (r_url r)
         then (sh1, fail_with 400 ''ambiguous_request_path''
                 ''request path contains ambiguous separators or segments'' t1)
         else (case route_match (h_router h) (r_host r) (path (r_url r)) of
            None \<Rightarrow> (sh1, fail_with 404 ''route_not_found'' ''route not found'' t1)
          | Some rt \<Rightarrow>
              let t2 = t1\<lparr>th_route := Some rt, th_route_name := rt_name rt\<rparr> in
              (case evaluate_route_policy (rt_policy rt) r of
                 Some d \<Rightarrow>
                   (observe_policy_deny h (rt_name rt) (pd_code d) sh1,
                    fail_with (pd_status d) (pd_code d) (pd_message d)
                      (if length (pd_allow_methods d) > 0
                       then t2\<lparr>th_w := set_reply_header ''Allow'' (join '', '' (pd_allow_methods d)) (th_w t2)\<rparr>
                       else t2))
               | None \<Rightarrow> (sh1, t2\<lparr>th_client := identity (h_client_ip h) r, th_pc := Limiting\<rparr>))))"

definition serve_limit :: "handler \<Rightarrow> time \<Rightarrow> shared \<Rightarrow> thread \<Rightarrow> shared \<times> thread" where
  "serve_limit h now sh t =
     (let rt = the_route t in
      case sh_limiters sh (rt_name rt) of
        None \<Rightarrow> (sh, t\<lparr>th_pc := Slotting\<rparr>)
      | Some l \<Rightarrow>
          (case allow now (th_client t) l of ((allowed, retry_after), l') \<Rightarrow>
             let sh1 = sh\<lparr>sh_limiters := (sh_limiters sh)(rt_name rt \<mapsto> l')\<rparr>;
                 sh2 = observe_rate_limit h (rt_name rt) allowed sh1
             in if \<not> allowed
                then (sh2, fail_with 429 ''rate_limited'' ''request rate limit exceeded''
                        (t\<lparr>th_w := set_reply_header ''Retry-After'' (format_int (retry_after_seconds retry_after)) (th_w t)\<rparr>))
                else (sh2, t\<lparr>th_pc := Slotting\<rparr>)))"

definition serve_slot :: "handler \<Rightarrow> shared \<Rightarrow> thread \<Rightarrow> shared \<times> thread" where
  "serve_slot h sh t =
     (if sh_slots sh < h_capacity h
      then (sh\<lparr>sh_slots := sh_slots sh + 1\<rparr>, t\<lparr>th_slot := True, th_pc := Caching\<rparr>)
      else (sh, fail_with 503 ''proxy_overloaded'' ''proxy is at request capacity''
                 (t\<lparr>th_w := set_reply_header ''Retry-After'' ''1'' (th_w t)\<rparr>)))"

definition serve_cache :: "time \<Rightarrow> shared \<Rightarrow> thread \<Rightarrow> shared \<times> thread" where
  "serve_cache now sh t =
     (let rt = the_route t in
      if rt_cache_enabled rt \<and> fst (request_eligible (th_req t))
      then let key = cache_key (th_req t) in
           (case cache_get (sh_cache sh) now key of
              (Some cached, c') \<Rightarrow>
                (sh\<lparr>sh_cache := c'\<rparr>,
                 t\<lparr>th_key := key, th_cache_result := ''hit'',
                   th_w := write_cached now cached (th_w t), th_pc := Finishing\<rparr>)
            | (None, c') \<Rightarrow>
                (sh\<lparr>sh_cache := c'\<rparr>, t\<lparr>th_key := key, th_cache_result := ''miss'', th_pc := Selecting\<rparr>))
      else (sh, t\<lparr>th_pc := Selecting\<rparr>))"

section \<open>Selection and the upstream attempts\<close>

definition update_backend :: "bid \<Rightarrow> backend \<Rightarrow> shared \<Rightarrow> shared" where
  "update_backend b x sh = sh\<lparr>sh_heap := (sh_heap sh)(b := x)\<rparr>"

text \<open>\<open>Handler.acquire\<close> and the function it returns: the backend's counter and the gauge.\<close>

definition acquire_backend :: "handler \<Rightarrow> string \<Rightarrow> bid \<Rightarrow> shared \<Rightarrow> shared" where
  "acquire_backend h pl b sh =
     (let x = fst (acquire (sh_heap sh b))
      in observe h (SetBackendActive pl (b_name x) (sint (active x))) (update_backend b x sh))"

definition release_backend :: "handler \<Rightarrow> string \<Rightarrow> bid \<Rightarrow> bool \<Rightarrow> shared \<Rightarrow> shared" where
  "release_backend h pl b released sh =
     (let x = fst (release released (sh_heap sh b))
      in observe h (SetBackendActive pl (b_name x) (sint (active x))) (update_backend b x sh))"

text \<open>The handle a request holds is released at most once; it is gone afterwards.\<close>

definition release_held :: "handler \<Rightarrow> shared \<Rightarrow> thread \<Rightarrow> shared \<times> thread" where
  "release_held h sh t =
     (case th_held t of
        None \<Rightarrow> (sh, t)
      | Some b \<Rightarrow> (release_backend h (rt_pool (the_route t)) b False sh, t\<lparr>th_held := None\<rparr>))"

definition serve_select :: "handler \<Rightarrow> shared \<Rightarrow> thread \<Rightarrow> shared \<times> thread" where
  "serve_select h sh t =
     (let rt = the_route t in
      case map_of (h_pools h) (rt_pool rt) of
        None \<Rightarrow> (sh, crash t)
      | Some p \<Rightarrow>
          (case sh_balancers sh (rt_pool rt, strategy rt) of
             None \<Rightarrow> (sh, crash t)
           | Some bal \<Rightarrow>
               (case bal_next (sh_heap sh) bal (rp_backends p) of (res, bal') \<Rightarrow>
                  let sh1 = sh\<lparr>sh_balancers := (sh_balancers sh)((rt_pool rt, strategy rt) \<mapsto> bal')\<rparr>
                  in (case res of
                        Inl _ \<Rightarrow> (sh1, fail_with 503 ''no_healthy_upstream'' ''no healthy upstream'' t)
                      | Inr b \<Rightarrow> (sh1, t\<lparr>th_selected := b, th_pc := Acquiring\<rparr>)))))"

definition max_attempts :: "runtime_pool \<Rightarrow> request \<Rightarrow> int" where
  "max_attempts p original = (if \<not> can_retry original then 1 else rp_max_attempts p)"

definition pool_or_zero :: "handler \<Rightarrow> route \<Rightarrow> runtime_pool" where
  "pool_or_zero h rt = (case map_of (h_pools h) (rt_pool rt) of Some p \<Rightarrow> p
     | None \<Rightarrow> \<lparr>rp_backends = [], rp_max_attempts = 0, rp_passive_threshold = 0\<rparr>)"

definition the_pool :: "handler \<Rightarrow> thread \<Rightarrow> runtime_pool" where
  "the_pool h t = pool_or_zero h (the_route t)"

definition serve_acquire :: "handler \<Rightarrow> shared \<Rightarrow> thread \<Rightarrow> shared \<times> thread" where
  "serve_acquire h sh t =
     (let rt = the_route t; b = th_selected t; r = th_req t;
          sh1 = acquire_backend h (rt_pool rt) b sh;
          t1 = t\<lparr>th_held := Some b, th_backend_name := b_name (sh_heap sh b), th_attempts := 1\<rparr>
      in case backend_url (sh_heap sh b) of
           None \<Rightarrow> (sh1, crash t1)
         | Some target \<Rightarrow>
             (case outgoing_request (h_clean_query h)
                     (rewrite_request (rewrite_host rt) target (r_host r) (th_client t)) r of
                None \<Rightarrow> (sh1, t1\<lparr>th_w := error_handler other_error (th_w t1), th_pc := Finishing\<rparr>)
              | Some out \<Rightarrow>
                  if max_attempts (the_pool h t) r < 1
                  then (sh1, t1\<lparr>th_w := error_handler other_error (th_w t1), th_pc := Finishing\<rparr>)
                  else (sh1, t1\<lparr>th_initial := out, th_sent := out, th_attempt := 1, th_pc := Attempting\<rparr>)))"

text \<open>The loop of \<open>RoundTrip\<close>: the transport failed, or it returned a response.\<close>

definition attempt_error :: "handler \<Rightarrow> go_error \<Rightarrow> shared \<Rightarrow> thread \<Rightarrow> shared \<times> thread" where
  "attempt_error h e sh t =
     (case release_held h sh t of (sh1, t1) \<Rightarrow> (sh1, t1\<lparr>th_error := e, th_pc := Failed\<rparr>))"

definition attempt_failed :: "handler \<Rightarrow> shared \<Rightarrow> thread \<Rightarrow> shared \<times> thread" where
  "attempt_failed h sh t =
     (if \<not> is_backend_failure (th_error t)
      then (sh, t\<lparr>th_w := error_handler (th_error t) (th_w t), th_pc := Finishing\<rparr>)
      else let p = the_pool h t; b = th_selected t;
               sh1 = update_backend b (snd (record_passive_failure (rp_passive_threshold p) (sh_heap sh b))) sh
           in if th_attempt t = max_attempts p (th_req t)
              then (sh1, t\<lparr>th_w := error_handler (th_error t) (th_w t), th_pc := Finishing\<rparr>)
              else (sh1, t\<lparr>th_pc := Reselecting\<rparr>))"

definition attempt_reselect :: "handler \<Rightarrow> shared \<Rightarrow> thread \<Rightarrow> shared \<times> thread" where
  "attempt_reselect h sh t =
     (let rt = the_route t; p = the_pool h t in
      case sh_balancers sh (rt_pool rt, strategy rt) of
        None \<Rightarrow> (sh, crash t)
      | Some bal \<Rightarrow>
          (case next_retry_backend bal_next (sh_heap sh) bal (rp_backends p) (th_selected t) of (res, bal') \<Rightarrow>
             let sh1 = sh\<lparr>sh_balancers := (sh_balancers sh)((rt_pool rt, strategy rt) \<mapsto> bal')\<rparr>
             in (case res of
                   Inl _ \<Rightarrow> (sh1, t\<lparr>th_w := error_handler other_error (th_w t), th_pc := Finishing\<rparr>)
                 | Inr b \<Rightarrow> (sh1, t\<lparr>th_selected := b, th_pc := Reacquiring\<rparr>))))"

definition retry_request :: "bool \<Rightarrow> url \<Rightarrow> request \<Rightarrow> request \<Rightarrow> request" where
  "retry_request rewrite_hst target original initial =
     (let o1 = set_url target initial
      in if \<not> rewrite_hst then o1\<lparr>r_host := r_host original\<rparr> else o1)"

definition attempt_reacquire :: "handler \<Rightarrow> go_error option \<Rightarrow> shared \<Rightarrow> thread \<Rightarrow> shared \<times> thread" where
  "attempt_reacquire h get_body_error sh t =
     (let rt = the_route t; b = th_selected t;
          sh1 = acquire_backend h (rt_pool rt) b sh;
          t1 = t\<lparr>th_held := Some b, th_attempts := th_attempts t + 1,
                 th_backend_name := b_name (sh_heap sh b)\<rparr>
      in case (if r_get_body (th_req t) then get_body_error else None) of
           Some e \<Rightarrow> (case release_held h sh1 t1 of (sh2, t2) \<Rightarrow>
             (sh2, t2\<lparr>th_w := error_handler e (th_w t2), th_pc := Finishing\<rparr>))
         | None \<Rightarrow>
             (case backend_url (sh_heap sh b) of
                None \<Rightarrow> (sh1, crash t1)
              | Some target \<Rightarrow>
                  (sh1, t1\<lparr>th_sent := retry_request (rewrite_host rt) target (th_req t) (th_initial t),
                           th_attempt := th_attempt t + 1, th_pc := Attempting\<rparr>)))"

section \<open>The response\<close>

text \<open>
  The transport returned a response: \<open>RecordPassiveSuccess\<close>, and what \<open>ReverseProxy\<close> does
  with the head. A response that switches protocols is refused, because the wrapped body is not
  writable, and its body is not closed.
\<close>

definition modify_response :: "handler \<Rightarrow> time \<Rightarrow> thread \<Rightarrow> header \<Rightarrow> upstream \<Rightarrow> thread" where
  "modify_response h now t hdr resp =
     (if th_key t = [] then t
      else if up_trailers resp > 0 \<or> hdr_get hdr ''Content-Range'' \<noteq> [] then t
      else let d = evaluate (h_parse_time h) now (th_req t) (up_status resp) hdr (h_cache_ttl h)
           in if cacheable d
              then t\<lparr>th_capture := Some (new_capture (h_max_cache_body h)), th_ttl := d_ttl d\<rparr> else t)"

definition attempt_response :: "handler \<Rightarrow> upstream \<Rightarrow> time \<Rightarrow> shared \<Rightarrow> thread \<Rightarrow> shared \<times> thread" where
  "attempt_response h resp now sh t =
     (let b = th_selected t;
          sh1 = update_backend b (record_passive_success (sh_heap sh b)) sh
      in if up_status resp = 101
         then (sh1, t\<lparr>th_resp := resp, th_w := error_handler other_error (th_w t), th_pc := Finishing\<rparr>)
         else let hdr = remove_hop_by_hop (up_header resp);
                  resp1 = resp\<lparr>up_header := hdr\<rparr>;
                  t1 = modify_response h now t hdr resp1
              in (sh1, t1\<lparr>th_resp := resp1, th_w := write_header (up_status resp) (copy_header hdr (th_w t1)),
                          th_pc := Streaming\<rparr>))"

text \<open>
  One read of the body and the write to the client. \<open>capture_chunk\<close> is the wrapped reader's
  share: reserving, and at the end of the body the commit to the cache.
\<close>

definition capture_chunk ::
  "handler \<Rightarrow> string \<Rightarrow> bool \<Rightarrow> time \<Rightarrow> time \<Rightarrow> shared \<Rightarrow> thread \<Rightarrow> (shared \<times> thread) option" where
  "capture_chunk h p eof now1 now2 sh t =
     (case th_capture t of
        None \<Rightarrow> Some (sh, t)
      | Some cb \<Rightarrow>
          (case capture_read (h_max_cache_body h) p eof cb (sh_capture sh) of (committed, cb', counter') \<Rightarrow>
             let sh1 = sh\<lparr>sh_capture := counter'\<rparr>; t1 = t\<lparr>th_capture := Some cb'\<rparr>
             in (case committed of
                   None \<Rightarrow> Some (sh1, t1)
                 | Some body \<Rightarrow>
                     map_option (\<lambda>(_, c'). (sh1\<lparr>sh_cache := c'\<rparr>, t1))
                       (cache_set (sh_cache sh1) now1 now2 (th_key t)
                          \<lparr>resp_status = up_status (th_resp t), resp_header = up_header (th_resp t),
                            resp_body = body, resp_stored = 0\<rparr> (th_ttl t)))))"

definition stream_chunk ::
  "handler \<Rightarrow> string \<Rightarrow> read_end \<Rightarrow> bool \<Rightarrow> time \<Rightarrow> time \<Rightarrow> shared \<Rightarrow> thread \<Rightarrow> shared \<times> thread" where
  "stream_chunk h p e ok now1 now2 sh t =
     (case capture_chunk h p (e = Eof) now1 now2 sh t of
        None \<Rightarrow> (sh, t\<lparr>th_pc := Hung\<rparr>)
      | Some (sh1, t1) \<Rightarrow>
          if p \<noteq> [] \<and> \<not> ok then (sh1, t1\<lparr>th_aborted := True, th_pc := Closing\<rparr>)
          else let t2 = (if p \<noteq> [] then t1\<lparr>th_w := write_body (Bytes p) (th_w t1)\<rparr> else t1)
               in (case e of
                     More \<Rightarrow> (sh1, t2)
                   | Eof \<Rightarrow> (sh1, t2\<lparr>th_pc := Closing\<rparr>)
                   | ReadError \<Rightarrow> (sh1, t2\<lparr>th_aborted := True, th_pc := Closing\<rparr>)))"

definition close_capture :: "shared \<Rightarrow> thread \<Rightarrow> shared \<times> thread" where
  "close_capture sh t =
     (case th_capture t of
        None \<Rightarrow> (sh, t\<lparr>th_pc := Releasing\<rparr>)
      | Some cb \<Rightarrow> (case capture_close cb (sh_capture sh) of (_, cb', counter') \<Rightarrow>
          (sh\<lparr>sh_capture := counter'\<rparr>, t\<lparr>th_capture := Some cb', th_pc := Releasing\<rparr>)))"

definition close_release :: "handler \<Rightarrow> shared \<Rightarrow> thread \<Rightarrow> shared \<times> thread" where
  "close_release h sh t = (case release_held h sh t of (sh1, t1) \<Rightarrow> (sh1, t1\<lparr>th_pc := Finishing\<rparr>))"

section \<open>The deferred functions\<close>

definition serve_finish :: "shared \<Rightarrow> thread \<Rightarrow> shared \<times> thread" where
  "serve_finish sh t =
     (if th_slot t then (sh\<lparr>sh_slots := sh_slots sh - 1\<rparr>, t\<lparr>th_slot := False, th_pc := Reporting\<rparr>)
      else (sh, t\<lparr>th_pc := Reporting\<rparr>))"

definition serve_report :: "handler \<Rightarrow> string \<Rightarrow> time \<Rightarrow> shared \<Rightarrow> thread \<Rightarrow> shared \<times> thread" where
  "serve_report h ident now sh t =
     (observe h (ObserveRequest ident (th_route_name t) (r_method (th_req t)) (path (r_url (th_req t)))
        (th_backend_name t) (rw_status (th_w t)) (th_attempts t) (th_cache_result t)
        (time_sub now (th_started t))) sh,
      t\<lparr>th_pc := Leaving\<rparr>)"

definition close_idle_connections :: "shared \<Rightarrow> shared" where
  "close_idle_connections sh = sh\<lparr>sh_idle_closes := sh_idle_closes sh + 1\<rparr>"

definition serve_leave :: "shared \<Rightarrow> thread \<Rightarrow> shared \<times> thread" where
  "serve_leave sh t =
     (let n = wrap64 (sh_in_flight sh - 1)
      in (sh\<lparr>sh_in_flight := n\<rparr>, t\<lparr>th_pc := LeaveCheck (n = 0)\<rparr>))"

definition serve_leave_check :: "bool \<Rightarrow> shared \<Rightarrow> thread \<Rightarrow> shared \<times> thread" where
  "serve_leave_check zero sh t =
     (if zero \<and> sh_retired sh then close_idle_connections sh else sh, t\<lparr>th_pc := Done\<rparr>)"

section \<open>A step of a request\<close>

definition serve_step :: "handler \<Rightarrow> string \<Rightarrow> input \<Rightarrow> shared \<Rightarrow> thread \<Rightarrow> shared \<times> thread" where
  "serve_step h ident i sh t =
     (case i of
        Go now \<Rightarrow>
          (case th_pc t of
             Arrived \<Rightarrow> serve_start h now sh t
           | Limiting \<Rightarrow> serve_limit h now sh t
           | Slotting \<Rightarrow> serve_slot h sh t
           | Caching \<Rightarrow> serve_cache now sh t
           | Selecting \<Rightarrow> serve_select h sh t
           | Acquiring \<Rightarrow> serve_acquire h sh t
           | Failed \<Rightarrow> attempt_failed h sh t
           | Reselecting \<Rightarrow> attempt_reselect h sh t
           | Reacquiring \<Rightarrow> attempt_reacquire h None sh t
           | Closing \<Rightarrow> close_capture sh t
           | Releasing \<Rightarrow> close_release h sh t
           | Finishing \<Rightarrow> serve_finish sh t
           | Reporting \<Rightarrow> serve_report h ident now sh t
           | Leaving \<Rightarrow> serve_leave sh t
           | LeaveCheck zero \<Rightarrow> serve_leave_check zero sh t
           | _ \<Rightarrow> (sh, t))
      | RoundTripError e \<Rightarrow> (if th_pc t = Attempting then attempt_error h e sh t else (sh, t))
      | RoundTripResponse resp now \<Rightarrow>
          (if th_pc t = Attempting then attempt_response h resp now sh t else (sh, t))
      | GetBodyFails e \<Rightarrow> (if th_pc t = Reacquiring then attempt_reacquire h (Some e) sh t else (sh, t))
      | BodyChunk p e ok now1 now2 \<Rightarrow>
          (if th_pc t = Streaming then stream_chunk h p e ok now1 now2 sh t else (sh, t)))"

text \<open>The cases of a step: one per operation, with the program counter that runs it.\<close>

lemma step_cases [consumes 1]:
  assumes "serve_step h ident i sh t = (sh', t')"
  obtains
    (Stay) "sh' = sh" "t' = t"
  | (Start) now where "th_pc t = Arrived" "serve_start h now sh t = (sh', t')"
  | (Limit) now where "th_pc t = Limiting" "serve_limit h now sh t = (sh', t')"
  | (Slot) "th_pc t = Slotting" "serve_slot h sh t = (sh', t')"
  | (Cache) now where "th_pc t = Caching" "serve_cache now sh t = (sh', t')"
  | (Select) "th_pc t = Selecting" "serve_select h sh t = (sh', t')"
  | (Acquire) "th_pc t = Acquiring" "serve_acquire h sh t = (sh', t')"
  | (Error) e where "th_pc t = Attempting" "attempt_error h e sh t = (sh', t')"
  | (Response) resp now where "th_pc t = Attempting" "attempt_response h resp now sh t = (sh', t')"
  | (Failure) "th_pc t = Failed" "attempt_failed h sh t = (sh', t')"
  | (Reselect) "th_pc t = Reselecting" "attempt_reselect h sh t = (sh', t')"
  | (Reacquire) ge where "th_pc t = Reacquiring" "attempt_reacquire h ge sh t = (sh', t')"
  | (Chunk) p e ok now1 now2 where "th_pc t = Streaming" "stream_chunk h p e ok now1 now2 sh t = (sh', t')"
  | (Close) "th_pc t = Closing" "close_capture sh t = (sh', t')"
  | (Release) "th_pc t = Releasing" "close_release h sh t = (sh', t')"
  | (Finish) "th_pc t = Finishing" "serve_finish sh t = (sh', t')"
  | (Report) now where "th_pc t = Reporting" "serve_report h ident now sh t = (sh', t')"
  | (Leave) "th_pc t = Leaving" "serve_leave sh t = (sh', t')"
  | (Check) z where "th_pc t = LeaveCheck z" "serve_leave_check z sh t = (sh', t')"
proof (cases i)
  case (Go now)
  with assms that show thesis by (cases "th_pc t") (simp_all add: serve_step_def)
next
  case (RoundTripError e)
  with assms Stay Error show thesis by (cases "th_pc t = Attempting") (simp_all add: serve_step_def)
next
  case (RoundTripResponse resp now)
  with assms Stay Response show thesis by (cases "th_pc t = Attempting") (simp_all add: serve_step_def)
next
  case (GetBodyFails e)
  with assms Stay Reacquire show thesis by (cases "th_pc t = Reacquiring") (simp_all add: serve_step_def)
next
  case (BodyChunk p e ok now1 now2)
  with assms Stay Chunk show thesis by (cases "th_pc t = Streaming") (simp_all add: serve_step_def)
qed

end
