(* ===== verification/ProxyInv.thy ===== *)
theory ProxyInv
  imports Proxy
begin

text \<open>
  What holds of a handler in every interleaving of its requests: the accounting of the slots, of
  the backends' active counts, of the in-flight count and of the capture budget. Each step of a
  request is shown to change a shared counter exactly by the change of its own share; the
  invariants of the whole handler follow by adding up.
\<close>

section \<open>What a request holds\<close>

definition slot_share :: "thread \<Rightarrow> int" where
  "slot_share t = of_bool (th_slot t)"

definition active_share :: "bid \<Rightarrow> thread \<Rightarrow> int" where
  "active_share b t = of_bool (th_held t = Some b)"

definition capture_share :: "thread \<Rightarrow> int" where
  "capture_share t = (case th_capture t of None \<Rightarrow> 0 | Some cb \<Rightarrow> cb_reserved cb)"

definition inside :: "thread \<Rightarrow> int" where
  "inside t = (case th_pc t of Arrived \<Rightarrow> 0 | LeaveCheck _ \<Rightarrow> 0 | Done \<Rightarrow> 0 | _ \<Rightarrow> 1)"

text \<open>What the program counter says about the rest of a request.\<close>

definition thread_ok :: "handler \<Rightarrow> thread \<Rightarrow> bool" where
  "thread_ok h t \<longleftrightarrow>
     (\<forall>cb. th_capture t = Some cb \<longrightarrow> capture_ok (h_max_cache_body h) cb 0) \<and>
     (case th_pc t of
        Arrived \<Rightarrow> \<not> th_slot t \<and> th_held t = None \<and> th_capture t = None
      | Limiting \<Rightarrow> \<not> th_slot t \<and> th_held t = None \<and> th_capture t = None
      | Slotting \<Rightarrow> \<not> th_slot t \<and> th_held t = None \<and> th_capture t = None
      | Caching \<Rightarrow> th_slot t \<and> th_held t = None \<and> th_capture t = None
      | Selecting \<Rightarrow> th_slot t \<and> th_held t = None \<and> th_capture t = None
      | Acquiring \<Rightarrow> th_slot t \<and> th_held t = None \<and> th_capture t = None
      | Attempting \<Rightarrow> th_slot t \<and> th_held t = Some (th_selected t) \<and> th_capture t = None
      | Failed \<Rightarrow> th_slot t \<and> th_held t = None \<and> th_capture t = None
      | Reselecting \<Rightarrow> th_slot t \<and> th_held t = None \<and> th_capture t = None
      | Reacquiring \<Rightarrow> th_slot t \<and> th_held t = None \<and> th_capture t = None
      | Streaming \<Rightarrow> th_slot t \<and> th_held t = Some (th_selected t) \<and>
          (\<forall>cb. th_capture t = Some cb \<longrightarrow> \<not> cb_finished cb)
      | Closing \<Rightarrow> th_slot t \<and> th_held t = Some (th_selected t)
      | Releasing \<Rightarrow> th_slot t \<and> th_held t = Some (th_selected t) \<and> capture_share t = 0
      | Finishing \<Rightarrow> capture_share t = 0
      | Hung \<Rightarrow> False
      | _ \<Rightarrow> \<not> th_slot t \<and> capture_share t = 0)"

text \<open>The change of the shared counters by a step, and what stays.\<close>

definition footprint :: "handler \<Rightarrow> shared \<Rightarrow> thread \<Rightarrow> shared \<Rightarrow> thread \<Rightarrow> bool" where
  "footprint h sh t sh' t' \<longleftrightarrow>
     thread_ok h t' \<and>
     sh_slots sh' = sh_slots sh - slot_share t + slot_share t' \<and>
     (sh_slots sh \<le> h_capacity h \<longrightarrow> sh_slots sh' \<le> h_capacity h) \<and>
     (\<forall>b. active (sh_heap sh' b) = active (sh_heap sh b) - of_int (active_share b t) + of_int (active_share b t')) \<and>
     sh_in_flight sh' = wrap64 (sh_in_flight sh - inside t + inside t') \<and>
     sh_capture sh' = sh_capture sh - capture_share t + capture_share t'"

lemma observe_frame [simp]:
  "sh_slots (observe h ob sh) = sh_slots sh" "sh_heap (observe h ob sh) = sh_heap sh"
  "sh_in_flight (observe h ob sh) = sh_in_flight sh" "sh_capture (observe h ob sh) = sh_capture sh"
  "sh_cache (observe h ob sh) = sh_cache sh" "sh_limiters (observe h ob sh) = sh_limiters sh"
  "sh_balancers (observe h ob sh) = sh_balancers sh" "sh_retired (observe h ob sh) = sh_retired sh"
  "sh_idle_closes (observe h ob sh) = sh_idle_closes sh"
  by (simp_all add: observe_def)

lemmas observers = observe_policy_deny_def observe_rate_limit_def

lemmas shares = slot_share_def active_share_def capture_share_def inside_def

lemma footprint_local:
  assumes "thread_ok h t'" "th_slot t' = th_slot t" "th_held t' = th_held t" "capture_share t' = capture_share t"
    and "inside t' = inside t" "is_int64 (sh_in_flight sh)"
    and "sh_slots sh' = sh_slots sh" "\<And>b. active (sh_heap sh' b) = active (sh_heap sh b)"
    and "sh_in_flight sh' = sh_in_flight sh" "sh_capture sh' = sh_capture sh"
  shows "footprint h sh t sh' t'"
  using assms by (simp add: footprint_def slot_share_def active_share_def wrap64_id)

section \<open>Admission\<close>

lemma start_effect:
  assumes "serve_start h now sh t = (sh', t')"
  shows "th_pc t' \<in> {Finishing, Limiting} \<and> th_slot t' = th_slot t \<and> th_held t' = th_held t \<and>
    th_capture t' = th_capture t \<and> sh_slots sh' = sh_slots sh \<and> sh_heap sh' = sh_heap sh \<and>
    sh_capture sh' = sh_capture sh \<and> sh_in_flight sh' = wrap64 (sh_in_flight sh + 1)"
  using assms by (auto simp: serve_start_def Let_def fail_with_def observers split: if_splits option.splits)

lemma start_footprint:
  assumes "th_pc t = Arrived" "thread_ok h t" "serve_start h now sh t = (sh', t')"
  shows "footprint h sh t sh' t'"
  using assms(1,2) start_effect [OF assms(3)]
  by (auto simp: footprint_def thread_ok_def shares)

lemma limit_footprint:
  assumes "th_pc t = Limiting" "thread_ok h t" "is_int64 (sh_in_flight sh)" "serve_limit h now sh t = (sh', t')"
  shows "footprint h sh t sh' t'"
  using assms(1,2,4)
  by (intro footprint_local assms(3))
     (auto simp: serve_limit_def Let_def thread_ok_def shares fail_with_def observers
      split: if_splits option.splits prod.splits)

lemma slot_footprint:
  assumes "th_pc t = Slotting" "thread_ok h t" "is_int64 (sh_in_flight sh)" "serve_slot h sh t = (sh', t')"
  shows "footprint h sh t sh' t'"
  using assms
  by (auto simp: serve_slot_def footprint_def thread_ok_def shares fail_with_def wrap64_id split: if_splits)

lemma cache_footprint:
  assumes "th_pc t = Caching" "thread_ok h t" "is_int64 (sh_in_flight sh)" "serve_cache now sh t = (sh', t')"
  shows "footprint h sh t sh' t'"
  using assms(1,2,4)
  by (intro footprint_local assms(3))
     (auto simp: serve_cache_def Let_def thread_ok_def shares split: if_splits option.splits prod.splits)

lemma select_footprint:
  assumes "th_pc t = Selecting" "thread_ok h t" "is_int64 (sh_in_flight sh)" "serve_select h sh t = (sh', t')"
  shows "footprint h sh t sh' t'"
  using assms(1,2,4)
  by (intro footprint_local assms(3))
     (auto simp: serve_select_def Let_def thread_ok_def shares fail_with_def crash_def
      split: if_splits option.splits prod.splits sum.splits)

section \<open>The attempts\<close>

lemma acquire_frame [simp]:
  "sh_slots (acquire_backend h pl b sh) = sh_slots sh" "sh_in_flight (acquire_backend h pl b sh) = sh_in_flight sh"
  "sh_capture (acquire_backend h pl b sh) = sh_capture sh"
  "sh_slots (release_backend h pl b f sh) = sh_slots sh" "sh_in_flight (release_backend h pl b f sh) = sh_in_flight sh"
  "sh_capture (release_backend h pl b f sh) = sh_capture sh"
  "sh_slots (update_backend b x sh) = sh_slots sh" "sh_in_flight (update_backend b x sh) = sh_in_flight sh"
  "sh_capture (update_backend b x sh) = sh_capture sh"
  by (simp_all add: acquire_backend_def release_backend_def update_backend_def Let_def)

lemma active_acquire [simp]:
  "active (sh_heap (acquire_backend h pl b sh) c) = active (sh_heap sh c) + of_bool (c = b)"
  by (simp add: acquire_backend_def update_backend_def acquire_def Let_def)

lemma active_release [simp]:
  "active (sh_heap (release_backend h pl b False sh) c) = active (sh_heap sh c) - of_bool (c = b)"
  by (simp add: release_backend_def update_backend_def release_def Let_def)

lemma active_update [simp]:
  "active x = active (sh_heap sh b) \<Longrightarrow> active (sh_heap (update_backend b x sh) c) = active (sh_heap sh c)"
  by (simp add: update_backend_def)

lemma active_records [simp]:
  "active (snd (record_passive_failure th x)) = active x" "active (record_passive_success x) = active x"
  by (simp_all add: record_passive_failure_def record_passive_success_def Let_def)

lemma acquire_footprint:
  assumes "th_pc t = Acquiring" "thread_ok h t" "is_int64 (sh_in_flight sh)" "serve_acquire h sh t = (sh', t')"
  shows "footprint h sh t sh' t'"
proof -
  have "sh' = acquire_backend h (rt_pool (the_route t)) (th_selected t) sh \<and>
      th_held t' = Some (th_selected t) \<and> th_slot t' = th_slot t \<and> th_capture t' = None \<and>
      th_selected t' = th_selected t \<and> th_pc t' \<in> {Finishing, Attempting}"
    using assms(1,2,4)
    by (auto simp: serve_acquire_def Let_def thread_ok_def crash_def split: if_splits option.splits)
  with assms(1-3) show ?thesis
    by (auto simp: footprint_def thread_ok_def shares wrap64_id)
qed

lemma error_footprint:
  assumes "th_pc t = Attempting" "thread_ok h t" "is_int64 (sh_in_flight sh)" "attempt_error h e sh t = (sh', t')"
  shows "footprint h sh t sh' t'"
  using assms
  by (auto simp: attempt_error_def release_held_def footprint_def thread_ok_def shares wrap64_id)

lemma failed_footprint:
  assumes "th_pc t = Failed" "thread_ok h t" "is_int64 (sh_in_flight sh)" "attempt_failed h sh t = (sh', t')"
  shows "footprint h sh t sh' t'"
  using assms(1,2,4)
  by (intro footprint_local assms(3))
     (auto simp: attempt_failed_def Let_def thread_ok_def shares split: if_splits)

lemma reselect_footprint:
  assumes "th_pc t = Reselecting" "thread_ok h t" "is_int64 (sh_in_flight sh)" "attempt_reselect h sh t = (sh', t')"
  shows "footprint h sh t sh' t'"
  using assms(1,2,4)
  by (intro footprint_local assms(3))
     (auto simp: attempt_reselect_def Let_def thread_ok_def shares crash_def
      split: option.splits prod.splits sum.splits)

lemma reacquire_footprint:
  assumes "th_pc t = Reacquiring" "thread_ok h t" "is_int64 (sh_in_flight sh)" "attempt_reacquire h ge sh t = (sh', t')"
  shows "footprint h sh t sh' t'"
proof -
  consider (Got) "sh' = acquire_backend h (rt_pool (the_route t)) (th_selected t) sh" "th_held t' = Some (th_selected t)"
      "th_slot t' = th_slot t" "th_capture t' = None" "th_selected t' = th_selected t" "th_pc t' \<in> {Finishing, Attempting}"
    | (Back) "sh' = release_backend h (rt_pool (the_route t)) (th_selected t) False
        (acquire_backend h (rt_pool (the_route t)) (th_selected t) sh)" "th_held t' = None"
      "th_slot t' = th_slot t" "th_capture t' = None" "th_pc t' = Finishing"
    using assms(1,2,4)
    by (auto simp: attempt_reacquire_def Let_def thread_ok_def crash_def release_held_def the_route_def
        split: if_splits option.splits)
  then show ?thesis
    using assms(1-3) by cases (auto simp: footprint_def thread_ok_def shares wrap64_id)
qed

section \<open>The response\<close>

lemma capture_ok_new: "0 \<le> mx \<Longrightarrow> is_int64 mx \<Longrightarrow> capture_ok mx (new_capture mx) 0"
  by (simp add: capture_ok_def new_capture_def)

lemma response_footprint:
  assumes "th_pc t = Attempting" "thread_ok h t" "is_int64 (sh_in_flight sh)"
    and "0 \<le> h_max_cache_body h" "is_int64 (h_max_cache_body h)"
    and "attempt_response h resp now sh t = (sh', t')"
  shows "footprint h sh t sh' t'"
  using assms(1,2,4-6) capture_ok_new [OF assms(4,5)]
  by (intro footprint_local assms(3))
     (auto simp: attempt_response_def modify_response_def Let_def thread_ok_def shares new_capture_def split: if_splits)

text \<open>The budget as one request sees it: its own share on top of everybody else's.\<close>

definition budget_ok :: "handler \<Rightarrow> shared \<Rightarrow> thread \<Rightarrow> bool" where
  "budget_ok h sh t \<longleftrightarrow> is_int64 (h_max_cache_body h) \<and> 0 \<le> h_max_cache_body h \<and>
     0 \<le> sh_capture sh - capture_share t \<and> sh_capture sh \<le> h_max_cache_body h"

lemma capture_ok_shift:
  "capture_ok mx cb 0 \<Longrightarrow> 0 \<le> others \<Longrightarrow> others + cb_reserved cb \<le> mx \<Longrightarrow> capture_ok mx cb others"
  "capture_ok mx cb others \<Longrightarrow> capture_ok mx cb 0"
  by (auto simp: capture_ok_def)

lemma capture_chunk_ok:
  assumes "\<forall>cb. th_capture t = Some cb \<longrightarrow> capture_ok (h_max_cache_body h) cb 0 \<and> \<not> cb_finished cb"
    and "budget_ok h sh t" "cache_inv (sh_cache sh)"
  shows "\<exists>c' counter' cap'. capture_chunk h p eof now1 now2 sh t =
      Some (sh\<lparr>sh_cache := c', sh_capture := counter'\<rparr>, t\<lparr>th_capture := cap'\<rparr>) \<and>
    cache_inv c' \<and> max_entries c' = max_entries (sh_cache sh) \<and> max_bytes c' = max_bytes (sh_cache sh) \<and>
    counter' - capture_share (t\<lparr>th_capture := cap'\<rparr>) = sh_capture sh - capture_share t \<and>
    counter' \<le> h_max_cache_body h \<and>
    (\<forall>cb. cap' = Some cb \<longrightarrow> capture_ok (h_max_cache_body h) cb 0 \<and> cb_finished cb = eof) \<and>
    (cap' = None \<longleftrightarrow> th_capture t = None)"
proof (cases "th_capture t")
  case None
  have "sh\<lparr>sh_cache := sh_cache sh, sh_capture := sh_capture sh\<rparr> = sh"
    "t\<lparr>th_capture := None\<rparr> = t" using None by simp_all
  with None assms show ?thesis
    by (intro exI [of _ "sh_cache sh"] exI [of _ "sh_capture sh"] exI [of _ None])
       (simp add: capture_chunk_def capture_share_def budget_ok_def)
next
  case (Some cb)
  let ?mx = "h_max_cache_body h"
  define others where "others = sh_capture sh - cb_reserved cb"
  have counter: "sh_capture sh = others + cb_reserved cb" by (simp add: others_def)
  have ok: "capture_ok ?mx cb others" "\<not> cb_finished cb"
    using assms(1,2) Some by (auto simp: budget_ok_def capture_share_def others_def intro: capture_ok_shift(1))
  obtain com cb' c' where rd: "capture_read ?mx p eof cb (others + cb_reserved cb) = (com, cb', c')"
    by (metis prod_cases3)
  note read = capture_read_ok [OF ok rd]
  then have fin: "capture_ok ?mx cb' 0" "c' = others + cb_reserved cb'" "c' \<le> ?mx" "cb_finished cb' = eof"
    using capture_ok_shift(2) by (auto simp: capture_ok_def)
  obtain c'' where cache: "cache_inv c''" "max_entries c'' = max_entries (sh_cache sh)"
      "max_bytes c'' = max_bytes (sh_cache sh)"
    and res: "capture_chunk h p eof now1 now2 sh t =
      Some (sh\<lparr>sh_cache := c'', sh_capture := c'\<rparr>, t\<lparr>th_capture := Some cb'\<rparr>)"
  proof (cases com)
    case None
    show thesis
      by (rule that [of "sh_cache sh"]) (simp_all add: assms capture_chunk_def Some rd counter None)
  next
    case (Some body)
    let ?resp = "\<lparr>resp_status = up_status (th_resp t), resp_header = up_header (th_resp t),
      resp_body = body, resp_stored = 0\<rparr>"
    from cache_set_refines [OF assms(3), of now1 now2 "th_key t" ?resp "th_ttl t"]
    obtain ok c'' where set: "cache_set (sh_cache sh) now1 now2 (th_key t) ?resp (th_ttl t) = Some (ok, c'')"
      "cache_inv c''" "max_entries c'' = max_entries (sh_cache sh)" "max_bytes c'' = max_bytes (sh_cache sh)"
      by blast
    show thesis
      by (rule that [OF set(2-4)]) (simp add: capture_chunk_def \<open>th_capture t = Some cb\<close> rd counter Some set(1))
  qed
  show ?thesis
    by (intro exI conjI, rule res) (use cache fin in \<open>auto simp: capture_share_def Some others_def\<close>)
qed

lemma stream_footprint:
  assumes "th_pc t = Streaming" "thread_ok h t" "is_int64 (sh_in_flight sh)" "budget_ok h sh t"
    and "cache_inv (sh_cache sh)" "stream_chunk h p e ok now1 now2 sh t = (sh', t')"
  shows "footprint h sh t sh' t' \<and> budget_ok h sh' t' \<and> cache_inv (sh_cache sh') \<and>
    max_entries (sh_cache sh') = max_entries (sh_cache sh) \<and> max_bytes (sh_cache sh') = max_bytes (sh_cache sh)"
proof -
  have pre: "th_slot t" "th_held t = Some (th_selected t)"
    "\<forall>cb. th_capture t = Some cb \<longrightarrow> capture_ok (h_max_cache_body h) cb 0 \<and> \<not> cb_finished cb"
    using assms(1,2) by (auto simp: thread_ok_def)
  obtain c' counter' cap' where
    ch: "capture_chunk h p (e = Eof) now1 now2 sh t =
      Some (sh\<lparr>sh_cache := c', sh_capture := counter'\<rparr>, t\<lparr>th_capture := cap'\<rparr>)"
    and c: "cache_inv c'" "max_entries c' = max_entries (sh_cache sh)" "max_bytes c' = max_bytes (sh_cache sh)"
    and share: "counter' - capture_share (t\<lparr>th_capture := cap'\<rparr>) = sh_capture sh - capture_share t"
    and le: "counter' \<le> h_max_cache_body h"
    and cap: "\<forall>cb. cap' = Some cb \<longrightarrow> capture_ok (h_max_cache_body h) cb 0 \<and> cb_finished cb = (e = Eof)"
    using capture_chunk_ok [OF pre(3) assms(4,5), of p "e = Eof" now1 now2] by blast
  have t': "th_slot t' = th_slot t" "th_held t' = th_held t" "th_selected t' = th_selected t"
      "th_capture t' = cap'" "sh' = sh\<lparr>sh_cache := c', sh_capture := counter'\<rparr>"
      "th_pc t' = Streaming \<and> e \<noteq> Eof \<or> th_pc t' = Closing"
    using assms(6) assms(1) by (auto simp: stream_chunk_def ch Let_def split: if_splits read_end.splits)
  have shr: "capture_share t' = capture_share (t\<lparr>th_capture := cap'\<rparr>)" by (simp add: capture_share_def t')
  have "thread_ok h t'" using t' pre cap by (auto simp: thread_ok_def)
  moreover have "inside t = 1" "inside t' = 1" using assms(1) t'(6) by (auto simp: inside_def)
  ultimately have "footprint h sh t sh' t'"
    using t' shr share assms(3) by (simp add: footprint_def slot_share_def active_share_def wrap64_id)
  with c share le assms(4) shr t'(5) show ?thesis by (simp add: budget_ok_def)
qed

lemma close_footprint:
  assumes "th_pc t = Closing" "thread_ok h t" "is_int64 (sh_in_flight sh)" "budget_ok h sh t"
    and "close_capture sh t = (sh', t')"
  shows "footprint h sh t sh' t' \<and> budget_ok h sh' t' \<and> sh_cache sh' = sh_cache sh"
proof (cases "th_capture t")
  case None
  with assms show ?thesis
    by (auto simp: close_capture_def footprint_def thread_ok_def shares wrap64_id budget_ok_def)
next
  case (Some cb)
  define others where "others = sh_capture sh - cb_reserved cb"
  have counter: "sh_capture sh = others + cb_reserved cb" by (simp add: others_def)
  have ok: "capture_ok (h_max_cache_body h) cb others"
    using assms(1,2,4) Some
    by (auto simp: budget_ok_def capture_share_def others_def thread_ok_def intro: capture_ok_shift(1))
  obtain com cb' c' where cl: "finish False cb (others + cb_reserved cb) = (com, cb', c')"
    by (metis prod_cases3)
  have fin: "cb_reserved cb' = 0" "c' = others" "capture_ok (h_max_cache_body h) cb' 0"
  proof -
    have "cb_reserved cb' = 0 \<and> c' = others \<and> capture_ok (h_max_cache_body h) cb' 0"
    proof (cases "cb_finished cb")
      case True
      with cl ok show ?thesis by (auto simp: finish_def capture_ok_def)
    next
      case False
      with finish_ok [OF ok _ cl] show ?thesis by (simp add: capture_ok_def)
    qed
    then show "cb_reserved cb' = 0" "c' = others" "capture_ok (h_max_cache_body h) cb' 0" by simp_all
  qed
  have sh': "sh' = sh\<lparr>sh_capture := c'\<rparr>" and t': "t' = t\<lparr>th_capture := Some cb', th_pc := Releasing\<rparr>"
    using assms(5) cl by (simp_all add: close_capture_def Some capture_close_def counter)
  have "thread_ok h t'" using assms(1,2) fin(1,3) by (simp add: thread_ok_def t' capture_share_def)
  moreover have "0 \<le> others" "cb_reserved cb \<ge> 0" using assms(4) ok Some
    by (auto simp: budget_ok_def others_def capture_share_def capture_ok_def)
  ultimately show ?thesis
    using assms(1,3,4) Some fin counter
    by (auto simp: footprint_def shares t' sh' wrap64_id budget_ok_def)
qed

lemma release_footprint:
  assumes "th_pc t = Releasing" "thread_ok h t" "is_int64 (sh_in_flight sh)" "close_release h sh t = (sh', t')"
  shows "footprint h sh t sh' t'"
  using assms by (auto simp: close_release_def release_held_def footprint_def thread_ok_def shares wrap64_id)

section \<open>The deferred functions\<close>

lemma finish_footprint:
  assumes "th_pc t = Finishing" "thread_ok h t" "is_int64 (sh_in_flight sh)" "serve_finish sh t = (sh', t')"
  shows "footprint h sh t sh' t'"
  using assms by (auto simp: serve_finish_def footprint_def thread_ok_def shares wrap64_id split: if_splits)

lemma report_footprint:
  assumes "th_pc t = Reporting" "thread_ok h t" "is_int64 (sh_in_flight sh)" "serve_report h ident now sh t = (sh', t')"
  shows "footprint h sh t sh' t'"
  using assms by (auto simp: serve_report_def footprint_def thread_ok_def shares wrap64_id)

lemma leave_footprint:
  assumes "th_pc t = Leaving" "thread_ok h t" "serve_leave sh t = (sh', t')"
  shows "footprint h sh t sh' t'"
  using assms by (auto simp: serve_leave_def footprint_def thread_ok_def shares Let_def)

lemma leave_check_footprint:
  assumes "th_pc t = LeaveCheck z" "thread_ok h t" "is_int64 (sh_in_flight sh)" "serve_leave_check z sh t = (sh', t')"
  shows "footprint h sh t sh' t'"
  using assms
  by (auto simp: serve_leave_check_def close_idle_connections_def footprint_def thread_ok_def shares wrap64_id
      split: if_splits)

section \<open>Any step\<close>

lemma step_footprint:
  assumes "thread_ok h t" "is_int64 (sh_in_flight sh)" "budget_ok h sh t" "cache_inv (sh_cache sh)"
    and "serve_step h ident i sh t = (sh', t')"
  shows "footprint h sh t sh' t'"
  using assms(5)
proof (cases rule: step_cases)
  case Stay
  with assms(1,2) show ?thesis by (simp add: footprint_def wrap64_id)
next
  case (Response resp now)
  with assms show ?thesis by (intro response_footprint) (simp_all add: budget_ok_def)
next
  case (Chunk p e ok now1 now2)
  with assms stream_footprint show ?thesis by blast
next
  case Close
  with assms close_footprint show ?thesis by blast
qed (use assms in \<open>simp_all add: start_footprint limit_footprint slot_footprint
    cache_footprint select_footprint acquire_footprint error_footprint failed_footprint reselect_footprint
    reacquire_footprint release_footprint finish_footprint report_footprint leave_footprint
    leave_check_footprint\<close>)

text \<open>Only a read of the body and a close touch the budget, and only lookups and commits the cache.\<close>

lemma cache_frame [simp]:
  "sh_cache (acquire_backend h pl b sh) = sh_cache sh" "sh_cache (release_backend h pl b f sh) = sh_cache sh"
  "sh_cache (update_backend b x sh) = sh_cache sh"
  by (simp_all add: acquire_backend_def release_backend_def update_backend_def Let_def)

lemma release_held_frame:
  "release_held h sh t = (sh', t') \<Longrightarrow> sh_capture sh' = sh_capture sh \<and> sh_cache sh' = sh_cache sh"
  by (auto simp: release_held_def split: option.splits)

lemma op_frames:
  "serve_start h now sh t = (sh', t') \<Longrightarrow> sh_capture sh' = sh_capture sh \<and> sh_cache sh' = sh_cache sh"
  "serve_limit h now sh t = (sh', t') \<Longrightarrow> sh_capture sh' = sh_capture sh \<and> sh_cache sh' = sh_cache sh"
  "serve_slot h sh t = (sh', t') \<Longrightarrow> sh_capture sh' = sh_capture sh \<and> sh_cache sh' = sh_cache sh"
  "serve_select h sh t = (sh', t') \<Longrightarrow> sh_capture sh' = sh_capture sh \<and> sh_cache sh' = sh_cache sh"
  "serve_acquire h sh t = (sh', t') \<Longrightarrow> sh_capture sh' = sh_capture sh \<and> sh_cache sh' = sh_cache sh"
  "attempt_failed h sh t = (sh', t') \<Longrightarrow> sh_capture sh' = sh_capture sh \<and> sh_cache sh' = sh_cache sh"
  "attempt_reselect h sh t = (sh', t') \<Longrightarrow> sh_capture sh' = sh_capture sh \<and> sh_cache sh' = sh_cache sh"
  "serve_finish sh t = (sh', t') \<Longrightarrow> sh_capture sh' = sh_capture sh \<and> sh_cache sh' = sh_cache sh"
  "serve_report h ident now sh t = (sh', t') \<Longrightarrow> sh_capture sh' = sh_capture sh \<and> sh_cache sh' = sh_cache sh"
  "serve_leave sh t = (sh', t') \<Longrightarrow> sh_capture sh' = sh_capture sh \<and> sh_cache sh' = sh_cache sh"
  "serve_leave_check z sh t = (sh', t') \<Longrightarrow> sh_capture sh' = sh_capture sh \<and> sh_cache sh' = sh_cache sh"
  "attempt_response h resp now sh t = (sh', t') \<Longrightarrow> sh_capture sh' = sh_capture sh \<and> sh_cache sh' = sh_cache sh"
  by (auto simp: serve_start_def serve_limit_def serve_slot_def serve_select_def serve_acquire_def
      attempt_failed_def attempt_reselect_def serve_finish_def serve_report_def serve_leave_def
      serve_leave_check_def close_idle_connections_def attempt_response_def observers Let_def
      split: if_splits option.splits prod.splits sum.splits)

lemma release_op_frames:
  "attempt_error h e sh t = (sh', t') \<Longrightarrow> sh_capture sh' = sh_capture sh \<and> sh_cache sh' = sh_cache sh"
  "close_release h sh t = (sh', t') \<Longrightarrow> sh_capture sh' = sh_capture sh \<and> sh_cache sh' = sh_cache sh"
  "attempt_reacquire h ge sh t = (sh', t') \<Longrightarrow> sh_capture sh' = sh_capture sh \<and> sh_cache sh' = sh_cache sh"
  by (auto simp: attempt_error_def close_release_def attempt_reacquire_def Let_def dest!: release_held_frame
      split: if_splits option.splits prod.splits)

lemma cache_op_frame:
  assumes "serve_cache now sh t = (sh', t')"
  shows "sh_capture sh' = sh_capture sh \<and>
    (sh_cache sh' = sh_cache sh \<or> sh_cache sh' = snd (cache_get (sh_cache sh) now (cache_key (th_req t))))"
  using assms by (auto simp: serve_cache_def Let_def split: if_splits option.splits prod.splits)

lemma step_shared:
  assumes "thread_ok h t" "is_int64 (sh_in_flight sh)" "budget_ok h sh t" "cache_inv (sh_cache sh)"
    and "serve_step h ident i sh t = (sh', t')"
  shows "sh_capture sh' \<le> h_max_cache_body h \<and> cache_inv (sh_cache sh') \<and>
    max_entries (sh_cache sh') = max_entries (sh_cache sh) \<and> max_bytes (sh_cache sh') = max_bytes (sh_cache sh)"
proof -
  have le: "sh_capture sh \<le> h_max_cache_body h" using assms(3) by (simp add: budget_ok_def)
  have same: ?thesis if "sh_capture sh' = sh_capture sh \<and> sh_cache sh' = sh_cache sh"
    using that le assms(4) by simp
  show ?thesis
    using assms(5)
  proof (cases rule: step_cases)
    case (Cache now)
    from cache_op_frame [OF Cache(2)] le assms(4) cache_get_refines [OF assms(4), of now "cache_key (th_req t)"]
    show ?thesis by auto
  next
    case Close
    from close_footprint [OF Close(1) assms(1-3) Close(2)] assms(4) show ?thesis by (simp add: budget_ok_def)
  next
    case (Chunk p e ok now1 now2)
    from stream_footprint [OF Chunk(1) assms(1-4) Chunk(2)] show ?thesis by (simp add: budget_ok_def)
  qed (rule same; simp add: op_frames release_op_frames)+
qed

section \<open>All requests of a handler\<close>

text \<open>
  The handler with its requests, each with its identifier. Requests arrive, take steps, and
  share the backends with the health checkers; a reload retires the handler in two steps, the
  store of the flag and the load of the in-flight count.
\<close>

record system =
  sy_shared :: shared
  sy_threads :: "(string \<times> thread) list"

datatype action =
    Arrive string request
  | Step nat input
  | Health bid int int health_event
  | RetireStore
  | RetireLoad

definition retire_store :: "shared \<Rightarrow> shared" where
  "retire_store sh = sh\<lparr>sh_retired := True\<rparr>"

definition retire_load :: "shared \<Rightarrow> shared" where
  "retire_load sh = (if sh_in_flight sh = 0 then close_idle_connections sh else sh)"

fun sys_step :: "handler \<Rightarrow> system \<Rightarrow> action \<Rightarrow> system" where
  "sys_step h sy (Arrive ident r) = sy\<lparr>sy_threads := sy_threads sy @ [(ident, new_thread r ident)]\<rparr>"
| "sys_step h sy (Step k i) =
     (if k < length (sy_threads sy)
      then (case sy_threads sy ! k of (ident, t) \<Rightarrow>
              case serve_step h ident i (sy_shared sy) t of (sh', t') \<Rightarrow>
                sy\<lparr>sy_shared := sh', sy_threads := (sy_threads sy)[k := (ident, t')]\<rparr>)
      else sy)"
| "sys_step h sy (Health b healthy unhealthy e) =
     sy\<lparr>sy_shared := update_backend b (health_step healthy unhealthy (sh_heap (sy_shared sy) b) e) (sy_shared sy)\<rparr>"
| "sys_step h sy RetireStore = sy\<lparr>sy_shared := retire_store (sy_shared sy)\<rparr>"
| "sys_step h sy RetireLoad =
     (if sh_retired (sy_shared sy) then sy\<lparr>sy_shared := retire_load (sy_shared sy)\<rparr> else sy)"

definition sys_run :: "handler \<Rightarrow> system \<Rightarrow> action list \<Rightarrow> system" where
  "sys_run h sy as = foldl (sys_step h) sy as"

definition total :: "(thread \<Rightarrow> int) \<Rightarrow> system \<Rightarrow> int" where
  "total f sy = sum_list (map (f \<circ> snd) (sy_threads sy))"

definition accounted :: "handler \<Rightarrow> system \<Rightarrow> bool" where
  "accounted h sy \<longleftrightarrow>
     (\<forall>(ident, t) \<in> set (sy_threads sy). thread_ok h t) \<and>
     sh_slots (sy_shared sy) = total slot_share sy \<and> sh_slots (sy_shared sy) \<le> h_capacity h \<and>
     (\<forall>b. active (sh_heap (sy_shared sy) b) = of_int (total (active_share b) sy)) \<and>
     sh_in_flight (sy_shared sy) = wrap64 (total inside sy) \<and>
     sh_capture (sy_shared sy) = total capture_share sy \<and>
     sh_capture (sy_shared sy) \<le> h_max_cache_body h \<and> cache_inv (sh_cache (sy_shared sy))"

text \<open>A handler that was just built: nothing in use, a consistent cache, and the bounds in range.\<close>

definition fresh_handler :: "handler \<Rightarrow> shared \<Rightarrow> bool" where
  "fresh_handler h sh \<longleftrightarrow> sh_slots sh = 0 \<and> 0 \<le> h_capacity h \<and> (\<forall>b. active (sh_heap sh b) = 0) \<and>
     sh_in_flight sh = 0 \<and> sh_capture sh = 0 \<and> 0 \<le> h_max_cache_body h \<and> is_int64 (h_max_cache_body h) \<and>
     cache_inv (sh_cache sh)"

lemma total_arrive: "total f (sy\<lparr>sy_threads := sy_threads sy @ [(ident, t)]\<rparr>) = total f sy + f t"
  by (simp add: total_def)

lemma total_update:
  assumes "k < length (sy_threads sy)" "sy_threads sy ! k = (ident, t)"
  shows "total f (sy\<lparr>sy_shared := sh, sy_threads := (sy_threads sy)[k := (ident, t')]\<rparr>) = total f sy - f t + f t'"
proof -
  have "sum_list (xs[k := x]) = sum_list xs - xs ! k + x" if "k < length xs" for xs :: "int list" and x k
    using that by (induction xs arbitrary: k) (auto split: nat.splits)
  from this [of k "map (f \<circ> snd) (sy_threads sy)" "f t'"] assms show ?thesis
    by (simp add: total_def map_update comp_def)
qed

lemma total_shared [simp]: "total f (sy\<lparr>sy_shared := sh\<rparr>) = total f sy"
  by (simp add: total_def)

lemma capture_share_nonneg: "thread_ok h t \<Longrightarrow> 0 \<le> capture_share t"
  by (auto simp: thread_ok_def capture_share_def capture_ok_def split: pc.splits option.splits)

lemma capture_total_others:
  assumes "\<forall>(ident, t) \<in> set (sy_threads sy). thread_ok h t" "k < length (sy_threads sy)"
    "sy_threads sy ! k = (ident, t)"
  shows "capture_share t \<le> total capture_share sy"
proof -
  have "(ident, t) \<in> set (sy_threads sy)" using assms(2,3) nth_mem by metis
  with assms(1) show ?thesis
    unfolding total_def by (intro member_le_sum_list) (auto dest!: capture_share_nonneg simp: image_iff intro!: bexI [of _ "(ident, t)"])
qed

lemma wrap64_wrap: "wrap64 (wrap64 x - a + b) = wrap64 (x - a + b)"
proof -
  have "(b - a + (x + 9223372036854775808) mod 18446744073709551616) mod 18446744073709551616 =
      (b - a + (x + 9223372036854775808)) mod 18446744073709551616"
    by (rule mod_add_right_eq)
  then show ?thesis by (simp add: wrap64_def algebra_simps)
qed

lemma active_health [simp]: "active (health_step hl uh x e) = active x"
  by (cases e) (simp_all add: backend_ops Let_def)

lemma new_thread_ok: "thread_ok h (new_thread r ident)"
  by (simp add: thread_ok_def new_thread_def)

lemma new_thread_shares:
  "slot_share (new_thread r ident) = 0" "active_share b (new_thread r ident) = 0"
  "inside (new_thread r ident) = 0" "capture_share (new_thread r ident) = 0"
  by (simp_all add: new_thread_def shares)

lemma accounted_fresh: "fresh_handler h sh \<Longrightarrow> accounted h \<lparr>sy_shared = sh, sy_threads = []\<rparr>"
  by (simp add: accounted_def fresh_handler_def total_def wrap64_def)

lemma accounted_arrive [inv_intros]: "accounted h sy \<Longrightarrow> accounted h (sys_step h sy (Arrive ident r))"
  by (auto simp: accounted_def total_arrive new_thread_shares new_thread_ok)

lemma accounted_step [inv_intros]:
  assumes "accounted h sy" "is_int64 (h_max_cache_body h)" "0 \<le> h_max_cache_body h"
  shows "accounted h (sys_step h sy (Step k i))"
proof (cases "k < length (sy_threads sy)")
  case True
  obtain ident t where t: "sy_threads sy ! k = (ident, t)" by fastforce
  obtain sh' t' where step: "serve_step h ident i (sy_shared sy) t = (sh', t')" by fastforce
  let ?sy' = "sy\<lparr>sy_shared := sh', sy_threads := (sy_threads sy)[k := (ident, t')]\<rparr>"
  have "(ident, t) \<in> set (sy_threads sy)" using True t nth_mem by metis
  then have ok: "thread_ok h t" using assms(1) by (auto simp: accounted_def)
  have others: "capture_share t \<le> total capture_share sy"
    by (rule capture_total_others [where h = h, OF _ True t]) (use assms(1) in \<open>simp add: accounted_def\<close>)
  have int: "is_int64 (sh_in_flight (sy_shared sy))" using assms(1) by (simp add: accounted_def is_int64_wrap64)
  have budget: "budget_ok h (sy_shared sy) t" using assms others by (simp add: accounted_def budget_ok_def)
  have cache: "cache_inv (sh_cache (sy_shared sy))" using assms(1) by (simp add: accounted_def)
  have foot: "footprint h (sy_shared sy) t sh' t'" by (rule step_footprint [OF ok int budget cache step])
  have shr: "sh_capture sh' \<le> h_max_cache_body h \<and> cache_inv (sh_cache sh')"
    using step_shared [OF ok int budget cache step] by blast
  have threads: "\<forall>(ident, t) \<in> set ((sy_threads sy)[k := (ident, t')]). thread_ok h t"
  proof (intro ballI, clarify)
    fix j u assume "(j, u) \<in> set ((sy_threads sy)[k := (ident, t')])"
    then have "(j, u) = (ident, t') \<or> (j, u) \<in> set (sy_threads sy)"
      using set_update_subset_insert by (metis insertE subsetD)
    with foot assms(1) show "thread_ok h u" by (auto simp: footprint_def accounted_def)
  qed
  have "sys_step h sy (Step k i) = ?sy'" using True by (simp add: t step)
  moreover have "accounted h ?sy'"
    using assms(1) foot shr threads
    by (simp add: accounted_def footprint_def total_update [OF True t] wrap64_wrap)
  ultimately show ?thesis by simp
next
  case False
  with assms(1) show ?thesis by simp
qed

lemma accounted_other [inv_intros]:
  "accounted h sy \<Longrightarrow> accounted h (sys_step h sy (Health b hl uh e))"
  "accounted h sy \<Longrightarrow> accounted h (sys_step h sy RetireStore)"
  "accounted h sy \<Longrightarrow> accounted h (sys_step h sy RetireLoad)"
  by (simp_all add: accounted_def update_backend_def retire_store_def retire_load_def close_idle_connections_def)

lemma accounted_run:
  assumes "accounted h sy" "is_int64 (h_max_cache_body h)" "0 \<le> h_max_cache_body h"
  shows "accounted h (sys_run h sy as)"
  using assms
proof (induction as arbitrary: sy)
  case (Cons a as)
  then have "accounted h (sys_step h sy a)" by (cases a) (auto intro: inv_intros simp del: sys_step.simps)
  with Cons show ?case by (simp add: sys_run_def)
qed (simp add: sys_run_def)

end
