(* ===== verification/ProxyProps.thy ===== *)
theory ProxyProps
  imports ProxyInv
begin

text \<open>
  The properties of the handler as a whole, over every interleaving of any requests: the bound
  on concurrent work, the exact accounting of backends, memory and in-flight requests, and the
  rules of retrying.
\<close>

definition run_from :: "handler \<Rightarrow> shared \<Rightarrow> action list \<Rightarrow> system" where
  "run_from h sh as = sys_run h \<lparr>sy_shared = sh, sy_threads = []\<rparr> as"

lemma accounted_run_from: "fresh_handler h sh \<Longrightarrow> accounted h (run_from h sh as)"
  unfolding run_from_def by (rule accounted_run [OF accounted_fresh]) (simp_all add: fresh_handler_def)

lemma total_filter: "total (\<lambda>t. of_bool (P t)) sy = int (length (filter (P \<circ> snd) (sy_threads sy)))"
proof -
  have "sum_list (map ((\<lambda>t. of_bool (P t)) \<circ> snd) xs) = int (length (filter (P \<circ> snd) xs))"
    for xs :: "(string \<times> thread) list" by (induction xs) auto
  then show ?thesis by (simp add: total_def)
qed

section \<open>A handler at work\<close>

text \<open>
  One pool, one backend, one slot and two requests: the second one is refused while the first is
  upstream; the first attempt fails, the retry succeeds. The witnesses below are about this run.
\<close>

definition demo_handler :: handler where
  "demo_handler = \<lparr>h_router = [plain_route ''api'' [] ''/api'' ''main''],
     h_pools = [(''main'', \<lparr>rp_backends = [0], rp_max_attempts = 2, rp_passive_threshold = 3\<rparr>)],
     h_client_ip = None, h_max_body_bytes = 100, h_capacity = 1, h_cache_ttl = 30 * second,
     h_max_cache_body = 1000, h_observed = False, h_clean_query = (\<lambda>q. q), h_parse_time = (\<lambda>_. None)\<rparr>"

definition demo_shared :: shared where
  "demo_shared = \<lparr>sh_heap = (\<lambda>_. new_backend ''one'' (Some (plain_url []))),
     sh_balancers = (\<lambda>_. Some (RoundRobin 0)), sh_limiters = (\<lambda>_. None), sh_slots = 0,
     sh_cache = new_cache 10 1000, sh_capture = 0, sh_in_flight = 0, sh_retired = False,
     sh_idle_closes = 0, sh_log = []\<rparr>"

definition demo_run :: "action list" where
  "demo_run = [Arrive ''1'' (plain_request ''GET'' ''a.test'' ''/api''),
     Arrive ''2'' (plain_request ''GET'' ''a.test'' ''/api'')] @
     replicate 6 (Step 0 (Go 0)) @ replicate 3 (Step 1 (Go 0))"

definition demo_end :: "action list" where
  "demo_end = [Step 0 (RoundTripError other_error)] @ replicate 3 (Step 0 (Go 0)) @
     [Step 0 (RoundTripResponse \<lparr>up_status = 200, up_header = [], up_trailers = 0\<rparr> 0),
      Step 0 (BodyChunk ''hello'' Eof True 0 0)] @ replicate 6 (Step 0 (Go 0)) @ replicate 4 (Step 1 (Go 0))"

lemma demo_fresh: "fresh_handler demo_handler demo_shared"
  by (simp add: fresh_handler_def demo_handler_def demo_shared_def new_backend_def is_int64_def
      max_int64_def min_int64_def cache_inv_new)


lemma demo_run_threads:
  "map (\<lambda>(_, t). (th_pc t, th_attempts t)) (sy_threads (run_from demo_handler demo_shared demo_run)) =
     [(Attempting, 1), (Finishing, 0)]"
  by code_simp

lemma demo_end_threads:
  "map (\<lambda>(_, t). (th_pc t, th_attempts t)) (sy_threads (run_from demo_handler demo_shared (demo_run @ demo_end))) =
     [(Done, 2), (Done, 0)]"
  by code_simp

section \<open>Bounds\<close>

text \<open>The steps that run between taking a request slot and giving it back.\<close>

definition working :: "thread \<Rightarrow> bool" where
  "working t \<longleftrightarrow> th_pc t \<in> {Caching, Selecting, Acquiring, Attempting, Failed, Reselecting, Reacquiring,
     Streaming, Closing, Releasing}"

text \<open>
  C8. \<open>max_concurrent_requests\<close> is a hard bound: in every interleaving, at most that many
  requests look into the cache, wait for a backend or stream a response at the same time, and
  the slots in use are exactly the requests that hold one.
\<close>

theorem concurrency_bounded:
  assumes "fresh_handler h sh" and "sy = run_from h sh as"
  shows "int (length (filter (working \<circ> snd) (sy_threads sy))) \<le> h_capacity h \<and>
    sh_slots (sy_shared sy) = int (length (filter (th_slot \<circ> snd) (sy_threads sy)))"
proof -
  have acc: "accounted h sy" using assms by (simp add: accounted_run_from)
  have slots: "total slot_share sy = int (length (filter (th_slot \<circ> snd) (sy_threads sy)))"
    using total_filter [of th_slot sy] by (simp add: slot_share_def [abs_def])
  have "th_slot t" if "working t" "(ident, t) \<in> set (sy_threads sy)" for ident t
    using that acc by (auto simp: accounted_def thread_ok_def working_def)
  then have "length (filter (working \<circ> snd) (sy_threads sy)) \<le> length (filter (th_slot \<circ> snd) (sy_threads sy))"
    by (intro length_filter_imp) auto
  with acc slots show ?thesis by (simp add: accounted_def)
qed

theorem concurrency_bounded_witness:
  "int (length (filter (working \<circ> snd) (sy_threads (run_from demo_handler demo_shared demo_run)))) \<le> 1 \<and>
   sh_slots (sy_shared (run_from demo_handler demo_shared demo_run)) =
     int (length (filter (th_slot \<circ> snd) (sy_threads (run_from demo_handler demo_shared demo_run))))"
  using concurrency_bounded [OF demo_fresh refl, of demo_run] by (simp add: demo_handler_def)

text \<open>
  C9. The load figures are exact: in every interleaving, with health events in between, the
  active count of a backend is the number of requests that hold a handle on it, and the
  in-flight count of the handler is the number of requests inside it (both as 64-bit counters).
\<close>

theorem load_exact:
  assumes "fresh_handler h sh" and "sy = run_from h sh as"
  shows "active (sh_heap (sy_shared sy) b) =
      of_nat (length (filter (\<lambda>x. th_held (snd x) = Some b) (sy_threads sy))) \<and>
    sh_in_flight (sy_shared sy) = wrap64 (int (length (filter (\<lambda>x. inside (snd x) = 1) (sy_threads sy))))"
proof -
  have acc: "accounted h sy" using assms by (simp add: accounted_run_from)
  have one: "inside = (\<lambda>t. of_bool (inside t = 1))" by (auto simp: inside_def fun_eq_iff split: pc.splits)
  have "total (active_share b) sy = int (length (filter (\<lambda>x. th_held (snd x) = Some b) (sy_threads sy)))"
    using total_filter [of "\<lambda>t. th_held t = Some b" sy] by (simp add: active_share_def [abs_def] comp_def)
  moreover have "total inside sy = int (length (filter (\<lambda>x. inside (snd x) = 1) (sy_threads sy)))"
    using total_filter [of "\<lambda>t. inside t = 1" sy] by (subst one) (simp add: comp_def)
  ultimately show ?thesis using acc by (simp add: accounted_def)
qed

theorem load_exact_witness:
  "active (sh_heap (sy_shared (run_from demo_handler demo_shared demo_run)) 0) =
     of_nat (length (filter (\<lambda>x. th_held (snd x) = Some 0) (sy_threads (run_from demo_handler demo_shared demo_run))))"
  using load_exact [OF demo_fresh refl, of demo_run 0] by (rule conjunct1)



text \<open>
  C12. Nothing is lost: when every request is done, the slots, the in-flight count and the
  capture budget are back at zero.
\<close>

theorem quiescent_returns_everything:
  assumes "fresh_handler h sh" and "sy = run_from h sh as"
    and "list_all (\<lambda>x. th_pc (snd x) = Done) (sy_threads sy)"
  shows "sh_slots (sy_shared sy) = 0 \<and> sh_in_flight (sy_shared sy) = 0 \<and> sh_capture (sy_shared sy) = 0"
proof -
  have acc: "accounted h sy" using assms by (simp add: accounted_run_from)
  have zero: "total f sy = 0" if "\<And>t. th_pc t = Done \<Longrightarrow> thread_ok h t \<Longrightarrow> f t = 0" for f
  proof -
    have "map (f \<circ> snd) (sy_threads sy) = map (\<lambda>_. 0) (sy_threads sy)"
    proof (rule map_cong [OF refl])
      fix x assume x: "x \<in> set (sy_threads sy)"
      with assms(3) have "th_pc (snd x) = Done" by (simp add: list_all_iff)
      moreover have "thread_ok h (snd x)" using acc x by (auto simp: accounted_def)
      ultimately show "(f \<circ> snd) x = 0" using that by simp
    qed
    then show ?thesis unfolding total_def by (simp add: map_replicate_const sum_list_replicate)
  qed
  have "total slot_share sy = 0" "total inside sy = 0" "total capture_share sy = 0"
    by (rule zero; simp add: slot_share_def inside_def thread_ok_def)+
  with acc show ?thesis by (simp add: accounted_def wrap64_def)
qed

theorem quiescent_returns_everything_witness:
  "sh_slots (sy_shared (run_from demo_handler demo_shared (demo_run @ demo_end))) = 0"
proof -
  have "list_all (\<lambda>x. th_pc (snd x) = Done) (sy_threads (run_from demo_handler demo_shared (demo_run @ demo_end)))"
    using demo_end_threads by (auto simp: list_all_iff map_eq_Cons_conv)
  from quiescent_returns_everything [OF demo_fresh refl this] show ?thesis by simp
qed

section \<open>A request on its own\<close>

text \<open>An invariant of the shared state together with one of every request; and of a request alone.\<close>

lemma sys_run_invariant:
  assumes init: "I sh"
    and new: "\<And>r ident. P (new_thread r ident)"
    and step: "\<And>ident i sh t sh' t'. I sh \<Longrightarrow> P t \<Longrightarrow> serve_step h ident i sh t = (sh', t') \<Longrightarrow> I sh' \<and> P t'"
    and health: "\<And>sh b hl uh e. I sh \<Longrightarrow> I (update_backend b (health_step hl uh (sh_heap sh b) e) sh)"
    and retire: "\<And>sh. I sh \<Longrightarrow> I (retire_store sh) \<and> I (retire_load sh)"
  shows "I (sy_shared (run_from h sh as)) \<and> (\<forall>(ident, t) \<in> set (sy_threads (run_from h sh as)). P t)"
proof -
  define ok where "ok = (\<lambda>sy :: system. I (sy_shared sy) \<and> (\<forall>(ident, t) \<in> set (sy_threads sy). P t))"
  have one: "ok (sys_step h sy a)" if ok: "ok sy" for sy a
  proof (cases a)
    case (Step k i)
    show ?thesis
    proof (cases "k < length (sy_threads sy)")
      case True
      obtain j u where u: "sy_threads sy ! k = (j, u)" by fastforce
      obtain sh' u' where st: "serve_step h j i (sy_shared sy) u = (sh', u')" by fastforce
      have "I (sy_shared sy)" "P u" using ok u True nth_mem [OF True] by (auto simp: ok_def)
      from step [OF this st] have "I sh' \<and> P u'" .
      moreover have "set ((sy_threads sy)[k := (j, u')]) \<subseteq> insert (j, u') (set (sy_threads sy))"
        by (rule set_update_subset_insert)
      ultimately show ?thesis using ok Step True u st by (auto simp: ok_def)
    qed (use ok Step in simp)
  qed (use ok new health retire in \<open>auto simp: ok_def\<close>)
  have "ok sy \<Longrightarrow> ok (sys_run h sy as)" for sy
    by (induction as arbitrary: sy) (simp_all add: sys_run_def one)
  from this [of "\<lparr>sy_shared = sh, sy_threads = []\<rparr>"] init show ?thesis by (auto simp: run_from_def ok_def)
qed

lemma sys_thread_invariant:
  assumes new: "\<And>r ident. P (new_thread r ident)"
    and step: "\<And>ident i sh t sh' t'. P t \<Longrightarrow> serve_step h ident i sh t = (sh', t') \<Longrightarrow> P t'"
    and "(ident, t) \<in> set (sy_threads (run_from h sh as))"
  shows "P t"
  using sys_run_invariant [of "\<lambda>_. True" sh P h as] assms by blast

text \<open>Where a request is in its attempts, and what allows it to be there.\<close>

definition attempts_ok :: "handler \<Rightarrow> thread \<Rightarrow> bool" where
  "attempts_ok h t \<longleftrightarrow>
     (let limit = max_attempts (the_pool h t) (th_req t) in
      case th_pc t of
        Attempting \<Rightarrow> th_attempts t = th_attempt t \<and> 1 \<le> th_attempt t \<and> th_attempt t \<le> limit
      | Failed \<Rightarrow> th_attempts t = th_attempt t \<and> 1 \<le> th_attempt t \<and> th_attempt t \<le> limit
      | Reselecting \<Rightarrow> th_attempts t = th_attempt t \<and> 1 \<le> th_attempt t \<and> th_attempt t < limit
      | Reacquiring \<Rightarrow> th_attempts t = th_attempt t \<and> 1 \<le> th_attempt t \<and> th_attempt t < limit
      | pc \<Rightarrow> if pc \<in> {Arrived, Limiting, Slotting, Caching, Selecting, Acquiring} then th_attempts t = 0
          else th_attempts t \<le> max 1 limit)"

lemma capture_chunk_frame:
  assumes "capture_chunk h p eof now1 now2 sh t = Some (sh', t')"
  shows "\<exists>cap. t' = t\<lparr>th_capture := cap\<rparr>"
proof (cases "th_capture t")
  case None
  with assms have "t' = t\<lparr>th_capture := th_capture t\<rparr>" by (simp add: capture_chunk_def)
  then show ?thesis ..
next
  case (Some cb)
  with assms show ?thesis
    by (auto simp: capture_chunk_def Let_def split: prod.splits option.splits)
qed

lemma stream_chunk_frame:
  assumes "stream_chunk h p e ok now1 now2 sh t = (sh', t')"
  shows "\<exists>cap w ab pc'. t' = t\<lparr>th_capture := cap, th_w := w, th_aborted := ab, th_pc := pc'\<rparr> \<and>
    pc' \<in> {th_pc t, Closing, Hung}"
proof (cases "capture_chunk h p (e = Eof) now1 now2 sh t")
  case None
  with assms have "t' = t\<lparr>th_capture := th_capture t, th_w := th_w t, th_aborted := th_aborted t, th_pc := Hung\<rparr>"
    by (simp add: stream_chunk_def)
  then show ?thesis by blast
next
  case (Some r)
  obtain sh1 cap where r: "r = (sh1, t\<lparr>th_capture := cap\<rparr>)"
    using capture_chunk_frame [of h p "e = Eof" now1 now2 sh t] Some by (metis surj_pair)
  have "t' = t\<lparr>th_capture := cap, th_w := th_w t', th_aborted := th_aborted t', th_pc := th_pc t'\<rparr> \<and>
      th_pc t' \<in> {th_pc t, Closing, Hung}"
    using assms by (auto simp: stream_chunk_def Some r Let_def split: if_splits read_end.splits)
  then show ?thesis by blast
qed

lemmas attempts_defs = attempts_ok_def the_pool_def the_route_def Let_def

lemma attempts_ok_admission:
  "th_pc t = Arrived \<Longrightarrow> attempts_ok h t \<Longrightarrow> serve_start h now sh t = (sh', t') \<Longrightarrow> attempts_ok h t'"
  "th_pc t = Limiting \<Longrightarrow> attempts_ok h t \<Longrightarrow> serve_limit h now sh t = (sh', t') \<Longrightarrow> attempts_ok h t'"
  "th_pc t = Slotting \<Longrightarrow> attempts_ok h t \<Longrightarrow> serve_slot h sh t = (sh', t') \<Longrightarrow> attempts_ok h t'"
  "th_pc t = Caching \<Longrightarrow> attempts_ok h t \<Longrightarrow> serve_cache now sh t = (sh', t') \<Longrightarrow> attempts_ok h t'"
  "th_pc t = Selecting \<Longrightarrow> attempts_ok h t \<Longrightarrow> serve_select h sh t = (sh', t') \<Longrightarrow> attempts_ok h t'"
  by (auto simp: serve_start_def serve_limit_def serve_slot_def serve_cache_def serve_select_def
      fail_with_def crash_def attempts_defs split: if_splits option.splits prod.splits sum.splits)

lemma attempts_ok_upstream:
  "th_pc t = Acquiring \<Longrightarrow> attempts_ok h t \<Longrightarrow> serve_acquire h sh t = (sh', t') \<Longrightarrow> attempts_ok h t'"
  "th_pc t = Attempting \<Longrightarrow> attempts_ok h t \<Longrightarrow> attempt_error h e sh t = (sh', t') \<Longrightarrow> attempts_ok h t'"
  "th_pc t = Attempting \<Longrightarrow> attempts_ok h t \<Longrightarrow> attempt_response h resp now sh t = (sh', t') \<Longrightarrow> attempts_ok h t'"
  "th_pc t = Failed \<Longrightarrow> attempts_ok h t \<Longrightarrow> attempt_failed h sh t = (sh', t') \<Longrightarrow> attempts_ok h t'"
  "th_pc t = Reselecting \<Longrightarrow> attempts_ok h t \<Longrightarrow> attempt_reselect h sh t = (sh', t') \<Longrightarrow> attempts_ok h t'"
  "th_pc t = Reacquiring \<Longrightarrow> attempts_ok h t \<Longrightarrow> attempt_reacquire h ge sh t = (sh', t') \<Longrightarrow> attempts_ok h t'"
  by (auto simp: serve_acquire_def attempt_error_def attempt_response_def modify_response_def
      attempt_failed_def attempt_reselect_def attempt_reacquire_def release_held_def
      crash_def attempts_defs split: if_splits option.splits prod.splits sum.splits)

lemma attempts_ok_closing:
  "th_pc t = Closing \<Longrightarrow> attempts_ok h t \<Longrightarrow> close_capture sh t = (sh', t') \<Longrightarrow> attempts_ok h t'"
  "th_pc t = Releasing \<Longrightarrow> attempts_ok h t \<Longrightarrow> close_release h sh t = (sh', t') \<Longrightarrow> attempts_ok h t'"
  "th_pc t = Finishing \<Longrightarrow> attempts_ok h t \<Longrightarrow> serve_finish sh t = (sh', t') \<Longrightarrow> attempts_ok h t'"
  "th_pc t = Reporting \<Longrightarrow> attempts_ok h t \<Longrightarrow> serve_report h ident now sh t = (sh', t') \<Longrightarrow> attempts_ok h t'"
  "th_pc t = Leaving \<Longrightarrow> attempts_ok h t \<Longrightarrow> serve_leave sh t = (sh', t') \<Longrightarrow> attempts_ok h t'"
  "th_pc t = LeaveCheck z \<Longrightarrow> attempts_ok h t \<Longrightarrow> serve_leave_check z sh t = (sh', t') \<Longrightarrow> attempts_ok h t'"
  by (auto simp: close_capture_def close_release_def release_held_def serve_finish_def serve_report_def
      serve_leave_def serve_leave_check_def attempts_defs split: if_splits option.splits prod.splits)

lemma attempts_ok_step:
  assumes "attempts_ok h t" "serve_step h ident i sh t = (sh', t')"
  shows "attempts_ok h t'"
  using assms(2)
proof (cases rule: step_cases)
  case (Chunk p e ok now1 now2)
  with stream_chunk_frame [OF Chunk(2)] assms(1) show ?thesis by (auto simp: attempts_defs)
qed (use assms(1) in \<open>blast intro: attempts_ok_admission attempts_ok_upstream attempts_ok_closing\<close>)+

lemma reachable_attempts_ok:
  assumes "(ident, t) \<in> set (sy_threads (run_from h sh as))"
  shows "attempts_ok h t"
  by (rule sys_thread_invariant [OF _ attempts_ok_step assms])
     (simp_all add: attempts_ok_def new_thread_def Let_def)

text \<open>
  C10. Retries are bounded and only for requests that can be repeated: no request makes more
  upstream attempts than its pool allows, and one that makes a second attempt is a \<open>GET\<close>,
  \<open>HEAD\<close>, \<open>OPTIONS\<close> or \<open>TRACE\<close> without a body, or with a body that can be replayed. A
  \<open>POST\<close> never reaches two backends.
\<close>

theorem retries_bounded:
  assumes "(ident, t) \<in> set (sy_threads (run_from h sh as))"
  shows "th_attempts t \<le> max 1 (rp_max_attempts (the_pool h t)) \<and>
    (th_attempts t > 1 \<longrightarrow> r_method (th_req t) \<in> {''GET'', ''HEAD'', ''OPTIONS'', ''TRACE''} \<and>
       (r_body (th_req t) = BodyNil \<or> r_body (th_req t) = BodyNone \<or> r_get_body (th_req t)))"
proof -
  have "attempts_ok h t" by (rule reachable_attempts_ok [OF assms])
  then have "th_attempts t \<le> max 1 (max_attempts (the_pool h t) (th_req t))"
    by (auto simp: attempts_ok_def Let_def split: pc.splits)
  then show ?thesis by (auto simp: max_attempts_def can_retry_def split: if_splits)
qed

theorem retries_bounded_witness:
  "th_attempts (snd (sy_threads (run_from demo_handler demo_shared (demo_run @ demo_end)) ! 0)) \<le>
     max 1 (rp_max_attempts (the_pool demo_handler
       (snd (sy_threads (run_from demo_handler demo_shared (demo_run @ demo_end)) ! 0))))"
proof -
  have "length (sy_threads (run_from demo_handler demo_shared (demo_run @ demo_end))) = 2"
    using arg_cong [OF demo_end_threads, of length] by simp
  then have "(fst (sy_threads (run_from demo_handler demo_shared (demo_run @ demo_end)) ! 0),
      snd (sy_threads (run_from demo_handler demo_shared (demo_run @ demo_end)) ! 0)) \<in>
      set (sy_threads (run_from demo_handler demo_shared (demo_run @ demo_end)))"
    by simp
  from retries_bounded [OF this] show ?thesis by (rule conjunct1)
qed

end
