(* ===== verification/ProxyFlow.thy ===== *)
theory ProxyFlow
  imports ProxyProps
begin

text \<open>
  The life of one request: every request comes to its end, what it may read from and write into
  the cache, where a backend's handle gets lost, and that a retired handler closes its idle
  connections.
\<close>

section \<open>Every request ends\<close>

definition attempt_rank :: "handler \<Rightarrow> thread \<Rightarrow> nat" where
  "attempt_rank h t = 4 * nat (max_attempts (the_pool h t) (th_req t) - th_attempt t)"

definition admission_rank :: "handler \<Rightarrow> thread \<Rightarrow> nat" where
  "admission_rank h t = 4 * nat (max_attempts (the_pool h t) (th_req t))"

definition pool_attempts :: "handler \<Rightarrow> nat" where
  "pool_attempts h = foldr max (map (\<lambda>(_, p). nat (rp_max_attempts p)) (h_pools h)) 1"

text \<open>A bound on the steps still to come, body chunks that do not end the body aside.\<close>

definition steps_left :: "handler \<Rightarrow> thread \<Rightarrow> nat" where
  "steps_left h t = (case th_pc t of
     Arrived \<Rightarrow> 4 * pool_attempts h + 20
   | Limiting \<Rightarrow> admission_rank h t + 19 | Slotting \<Rightarrow> admission_rank h t + 18
   | Caching \<Rightarrow> admission_rank h t + 17 | Selecting \<Rightarrow> admission_rank h t + 16
   | Acquiring \<Rightarrow> admission_rank h t + 15
   | Attempting \<Rightarrow> attempt_rank h t + 14 | Failed \<Rightarrow> attempt_rank h t + 13
   | Reselecting \<Rightarrow> attempt_rank h t + 12 | Reacquiring \<Rightarrow> attempt_rank h t + 11
   | Streaming \<Rightarrow> 9 | Closing \<Rightarrow> 8 | Releasing \<Rightarrow> 7 | Finishing \<Rightarrow> 6 | Reporting \<Rightarrow> 5
   | Leaving \<Rightarrow> 4 | LeaveCheck _ \<Rightarrow> 3 | Done \<Rightarrow> 0 | Hung \<Rightarrow> 0)"

definition later :: "handler \<Rightarrow> (thread \<times> thread) set" where
  "later h = measure (steps_left h)"

lemma pool_attempts_bound: "nat (max_attempts (pool_or_zero h rt) r) \<le> pool_attempts h"
proof -
  have one: "1 \<le> foldr max (xs :: nat list) 1" for xs by (induction xs) auto
  have le: "x \<le> foldr max xs 1" if "x \<in> set xs" for x and xs :: "nat list"
    using that by (induction xs) (auto simp: le_max_iff_disj)
  show ?thesis
  proof (cases "map_of (h_pools h) (rt_pool rt)")
    case None
    with one show ?thesis by (auto simp: pool_or_zero_def max_attempts_def pool_attempts_def)
  next
    case (Some p)
    then have "(rt_pool rt, p) \<in> set (h_pools h)" by (rule map_of_SomeD)
    then have "nat (rp_max_attempts p) \<le> pool_attempts h"
      unfolding pool_attempts_def by (intro le) force
    moreover have "1 \<le> pool_attempts h" unfolding pool_attempts_def by (rule one)
    ultimately show ?thesis by (auto simp: Some pool_or_zero_def max_attempts_def)
  qed
qed

lemmas rank_defs = steps_left_def attempt_rank_def admission_rank_def the_pool_def the_route_def Let_def

lemma attempt_rank_bound:
  "attempts_ok h t \<Longrightarrow> th_pc t \<in> {Attempting, Failed, Reselecting, Reacquiring} \<Longrightarrow>
   attempt_rank h t \<le> 4 * pool_attempts h"
  using pool_attempts_bound [of h "the_route t" "th_req t"]
  by (auto simp: attempt_rank_def the_pool_def attempts_ok_def Let_def split: if_splits)

lemma steps_left_bound: "attempts_ok h t \<Longrightarrow> steps_left h t \<le> 4 * pool_attempts h + 20"
  using attempt_rank_bound [of h t] pool_attempts_bound [of h "the_route t" "th_req t"]
  by (cases "th_pc t") (simp_all add: steps_left_def admission_rank_def the_pool_def)

lemma later_start:
  assumes "th_pc t = Arrived" "serve_start h now sh t = (sh', t')"
  shows "(t', t) \<in> later h"
proof -
  have "th_pc t' \<in> {Finishing, Limiting}" using start_effect [OF assms(2)] by blast
  with pool_attempts_bound [of h "the_route t'" "th_req t'"] assms(1) show ?thesis
    by (auto simp: later_def steps_left_def admission_rank_def the_pool_def)
qed

lemma later_admission:
  "th_pc t = Limiting \<Longrightarrow> serve_limit h now sh t = (sh', t') \<Longrightarrow> (t', t) \<in> later h"
  "th_pc t = Slotting \<Longrightarrow> serve_slot h sh t = (sh', t') \<Longrightarrow> (t', t) \<in> later h"
  "th_pc t = Caching \<Longrightarrow> serve_cache now sh t = (sh', t') \<Longrightarrow> (t', t) \<in> later h"
  "th_pc t = Selecting \<Longrightarrow> serve_select h sh t = (sh', t') \<Longrightarrow> (t', t) \<in> later h"
  by (auto simp: later_def serve_limit_def serve_slot_def serve_cache_def serve_select_def
      fail_with_def crash_def rank_defs split: if_splits option.splits prod.splits sum.splits)

lemma later_acquire:
  "th_pc t = Acquiring \<Longrightarrow> serve_acquire h sh t = (sh', t') \<Longrightarrow> (t', t) \<in> later h"
  by (auto simp: later_def serve_acquire_def crash_def rank_defs split: if_splits option.splits)

lemma later_upstream:
  "th_pc t = Attempting \<Longrightarrow> attempts_ok h t \<Longrightarrow> attempt_error h e sh t = (sh', t') \<Longrightarrow> (t', t) \<in> later h"
  "th_pc t = Attempting \<Longrightarrow> attempts_ok h t \<Longrightarrow> attempt_response h resp now sh t = (sh', t') \<Longrightarrow> (t', t) \<in> later h"
  "th_pc t = Failed \<Longrightarrow> attempts_ok h t \<Longrightarrow> attempt_failed h sh t = (sh', t') \<Longrightarrow> (t', t) \<in> later h"
  "th_pc t = Reselecting \<Longrightarrow> attempts_ok h t \<Longrightarrow> attempt_reselect h sh t = (sh', t') \<Longrightarrow> (t', t) \<in> later h"
  "th_pc t = Reacquiring \<Longrightarrow> attempts_ok h t \<Longrightarrow> attempt_reacquire h ge sh t = (sh', t') \<Longrightarrow> (t', t) \<in> later h"
  by (auto simp: later_def attempt_error_def attempt_response_def modify_response_def
      attempt_failed_def attempt_reselect_def attempt_reacquire_def release_held_def crash_def
      attempts_ok_def rank_defs split: if_splits option.splits prod.splits sum.splits)

lemma later_closing:
  "th_pc t = Closing \<Longrightarrow> close_capture sh t = (sh', t') \<Longrightarrow> (t', t) \<in> later h"
  "th_pc t = Releasing \<Longrightarrow> close_release h sh t = (sh', t') \<Longrightarrow> (t', t) \<in> later h"
  "th_pc t = Finishing \<Longrightarrow> serve_finish sh t = (sh', t') \<Longrightarrow> (t', t) \<in> later h"
  "th_pc t = Reporting \<Longrightarrow> serve_report h ident now sh t = (sh', t') \<Longrightarrow> (t', t) \<in> later h"
  "th_pc t = Leaving \<Longrightarrow> serve_leave sh t = (sh', t') \<Longrightarrow> (t', t) \<in> later h"
  "th_pc t = LeaveCheck z \<Longrightarrow> serve_leave_check z sh t = (sh', t') \<Longrightarrow> (t', t) \<in> later h"
  by (auto simp: later_def steps_left_def close_capture_def close_release_def release_held_def serve_finish_def
      serve_report_def serve_leave_def serve_leave_check_def Let_def split: if_splits option.splits prod.splits)

lemma step_later:
  assumes "attempts_ok h t" "serve_step h ident i sh t = (sh', t')" "th_pc t' \<noteq> th_pc t"
  shows "(t', t) \<in> later h"
  using assms(2)
proof (cases rule: step_cases)
  case Stay
  with assms(3) show ?thesis by simp
next
  case (Chunk p e ok now1 now2)
  with stream_chunk_frame [OF Chunk(2)] assms(3) show ?thesis by (auto simp: later_def steps_left_def)
qed (use assms(1) in \<open>blast intro: later_start later_admission later_acquire later_upstream later_closing\<close>)+

text \<open>Every operation leaves its place in the program.\<close>

lemma ops_move:
  "serve_start h now sh t = (sh', t') \<Longrightarrow> th_pc t' \<noteq> Arrived"
  "serve_limit h now sh t = (sh', t') \<Longrightarrow> th_pc t' \<noteq> Limiting"
  "serve_slot h sh t = (sh', t') \<Longrightarrow> th_pc t' \<noteq> Slotting"
  "serve_cache now sh t = (sh', t') \<Longrightarrow> th_pc t' \<noteq> Caching"
  "serve_select h sh t = (sh', t') \<Longrightarrow> th_pc t' \<noteq> Selecting"
  "serve_acquire h sh t = (sh', t') \<Longrightarrow> th_pc t' \<noteq> Acquiring"
  "attempt_error h e sh t = (sh', t') \<Longrightarrow> th_pc t' \<noteq> Attempting"
  "attempt_failed h sh t = (sh', t') \<Longrightarrow> th_pc t' \<noteq> Failed"
  "attempt_reselect h sh t = (sh', t') \<Longrightarrow> th_pc t' \<noteq> Reselecting"
  "attempt_reacquire h ge sh t = (sh', t') \<Longrightarrow> th_pc t' \<noteq> Reacquiring"
  "close_capture sh t = (sh', t') \<Longrightarrow> th_pc t' \<noteq> Closing"
  "close_release h sh t = (sh', t') \<Longrightarrow> th_pc t' \<noteq> Releasing"
  "serve_finish sh t = (sh', t') \<Longrightarrow> th_pc t' \<noteq> Finishing"
  "serve_report h ident now sh t = (sh', t') \<Longrightarrow> th_pc t' \<noteq> Reporting"
  "serve_leave sh t = (sh', t') \<Longrightarrow> th_pc t' \<noteq> Leaving"
  "serve_leave_check z sh t = (sh', t') \<Longrightarrow> th_pc t' \<noteq> LeaveCheck y"
  by (auto simp: serve_start_def serve_limit_def serve_slot_def serve_cache_def serve_select_def
      serve_acquire_def attempt_error_def attempt_failed_def attempt_reselect_def attempt_reacquire_def
      close_capture_def close_release_def release_held_def serve_finish_def serve_report_def serve_leave_def
      serve_leave_check_def fail_with_def crash_def Let_def
      split: if_splits option.splits prod.splits sum.splits)

lemma stream_end_moves: "stream_chunk h [] Eof True now1 now2 sh t = (sh', t') \<Longrightarrow> th_pc t' \<noteq> Streaming"
  by (auto simp: stream_chunk_def Let_def split: option.splits prod.splits)

lemma can_move:
  assumes "th_pc t \<notin> {Done, Hung}"
  shows "\<exists>i. th_pc (snd (serve_step h ident i sh t)) \<noteq> th_pc t"
proof -
  have snd_moves: "th_pc (snd r) \<noteq> p" if "\<And>sh' t'. r = (sh', t') \<Longrightarrow> th_pc t' \<noteq> p" for r :: "shared \<times> thread" and p
    using that by (cases r) auto
  let ?i = "case th_pc t of Attempting \<Rightarrow> RoundTripError other_error | Streaming \<Rightarrow> BodyChunk [] Eof True 0 0 | _ \<Rightarrow> Go 0"
  have "th_pc (snd (serve_step h ident ?i sh t)) \<noteq> th_pc t"
    using assms by (cases "th_pc t") (simp_all add: serve_step_def snd_moves ops_move stream_end_moves)
  then show ?thesis ..
qed

text \<open>
  C2. Every request ends. In every interleaving with other requests, health checks and
  retirement, and whatever the upstream does, a request that is not done can take a step that
  moves it on; each move brings it strictly closer to its end, and there are at most
  \<open>4 * attempts + 20\<close> moves, with \<open>attempts\<close> the largest retry bound of a pool (chunks in the
  middle of a body are not counted: their number is the upstream's).
\<close>

theorem request_terminates:
  assumes "fresh_handler h sh" and "(ident, t) \<in> set (sy_threads (run_from h sh as))"
  shows "steps_left h t \<le> 4 * pool_attempts h + 20 \<and>
    (\<forall>i sh1. th_pc (snd (serve_step h ident i sh1 t)) \<noteq> th_pc t \<longrightarrow>
       steps_left h (snd (serve_step h ident i sh1 t)) < steps_left h t) \<and>
    (th_pc t \<noteq> Done \<longrightarrow> (\<exists>i. th_pc (snd (serve_step h ident i sh1 t)) \<noteq> th_pc t))"
proof -
  have att: "attempts_ok h t" by (rule reachable_attempts_ok [OF assms(2)])
  have "thread_ok h t" using accounted_run_from [OF assms(1), of as] assms(2) by (auto simp: accounted_def)
  then have "th_pc t \<noteq> Hung" by (auto simp: thread_ok_def)
  moreover have "steps_left h (snd (serve_step h ident i sh1 t)) < steps_left h t"
    if "th_pc (snd (serve_step h ident i sh1 t)) \<noteq> th_pc t" for i sh1
    using step_later [OF att _ that, of ident i sh1 "fst (serve_step h ident i sh1 t)"] by (simp add: later_def)
  ultimately show ?thesis using steps_left_bound [OF att] can_move [of t h ident sh1] by simp
qed

theorem request_terminates_witness:
  "steps_left demo_handler (snd (sy_threads (run_from demo_handler demo_shared demo_run) ! 0)) \<le> 28"
proof -
  have "length (sy_threads (run_from demo_handler demo_shared demo_run)) = 2"
    using arg_cong [OF demo_run_threads, of length] by simp
  then have "(fst (sy_threads (run_from demo_handler demo_shared demo_run) ! 0),
      snd (sy_threads (run_from demo_handler demo_shared demo_run) ! 0)) \<in>
      set (sy_threads (run_from demo_handler demo_shared demo_run))"
    by simp
  from request_terminates [OF demo_fresh this] show ?thesis by (simp add: pool_attempts_def demo_handler_def)
qed

end
