(* ===== verification/Validate.thy ===== *)
theory Validate
  imports Config NetIP
begin

text \<open>
  Validation of a configuration (package \<open>config\<close>, file \<open>validate.go\<close>). \<open>Validate\<close> collects all
  errors instead of stopping at the first one: each function here returns the list of errors in
  the order of the source, one constructor per message with the fields the message names, and
  \<open>errors.Join\<close> of no errors is \<open>nil\<close>. The loops keep the \<open>seen\<close> maps of the source as sets. The
  pools are visited in the order of the association list, which stands for the unspecified
  order of a Go map. \<open>url.Parse\<close> is a parameter.
\<close>

section \<open>The errors\<close>

datatype listener_error =
    ListenerRequired | ListenerCount | ListenerAddress nat | ListenerDuplicated string | ListenerTls nat

datatype admin_error =
    AdminAddress | AdminEnv | AdminAuthRequired | AdminAddressPublic
  | TokenCount | TokenName nat | TokenNameDuplicated string | TokenEnv nat | TokenEnvDuplicated string
  | TokenScopes nat | ScopeSpace nat nat | ScopeUnknown nat nat | ScopeDuplicated nat string

datatype policy_error =
    MethodCount | MethodMalformed nat | MethodDuplicated string
  | DeniedPathCount | DeniedPathMalformed nat | DeniedPathDuplicated string
  | HeaderCount string | HeaderMalformed string nat | HeaderDuplicated string string
  | HeaderConflict string | QueryBound

datatype route_error =
    RouteName | RouteNameDuplicated string | RouteHostSpace | RoutePrefixSlash | RoutePrefixAmbiguous
  | RouteMatchDuplicated string string | RoutePoolMissing string | RouteStrategy
  | RoutePolicyError policy_error | RateLimitPositive | RateLimitKeys

datatype pool_error =
    PoolName | PoolEmpty | BackendUrl nat | BackendName | TlsWithoutHttps | ClientCertPair
  | ServerNameSpace | HealthPath | HealthValues | RetryAttempts

datatype client_ip_conf_error =
    TrustedCount | TrustedSpace nat | TrustedCidr nat | HeadersWithoutTrusted | TrustedWithoutHeaders
  | ClientHeaderSpace nat | ClientHeaderUnknown nat | ClientHeaderDuplicated string

datatype config_error =
    ListenerError listener_error | AdminError admin_error
  | RoutesRequired | RouteCount | PoolCount | RouteError nat route_error
  | PoolError string pool_error | BackendCount | TimeoutsPositive | LimitsPositive
  | ConcurrencyBound | ConnectionBound | ClientIpError client_ip_conf_error | CacheBounds | LogLevel

definition report :: "bool \<Rightarrow> 'e \<Rightarrow> 'e list" where
  "report bad e = (if bad then [e] else [])"

lemma report_ok [simp]: "report bad e = [] \<longleftrightarrow> \<not> bad"
  by (simp add: report_def)

section \<open>Patterns and helpers\<close>

definition identifier_char :: "char \<Rightarrow> bool" where
  "identifier_char c \<longleftrightarrow> is_alnum c \<or> c \<in> set ''_.-''"

text \<open>\<open>identifierPattern\<close>, \<open>envNamePattern\<close> and \<open>httpTokenPattern\<close>.\<close>

definition identifier_pattern :: "string \<Rightarrow> bool" where
  "identifier_pattern s = (case s of [] \<Rightarrow> False
     | c # cs \<Rightarrow> is_alnum c \<and> list_all identifier_char cs \<and> length cs \<le> 127)"

definition env_char :: "char \<Rightarrow> bool" where
  "env_char c \<longleftrightarrow> is_alnum c \<or> c = CHR ''_''"

definition env_name_pattern :: "string \<Rightarrow> bool" where
  "env_name_pattern s = (case s of [] \<Rightarrow> False
     | c # cs \<Rightarrow> env_char c \<and> \<not> is_digit c \<and> list_all env_char cs)"

definition http_token_pattern :: "string \<Rightarrow> bool" where
  "http_token_pattern s \<longleftrightarrow> s \<noteq> [] \<and> list_all token_char s"

definition normalized_host :: "string \<Rightarrow> string" where
  "normalized_host hst =
     (let h = trim_suffix (to_lower (trim_space hst)) ''.''
      in case split_host_port h of Some (parsed, _) \<Rightarrow> parsed | None \<Rightarrow> h)"

definition ambiguous_path :: "string \<Rightarrow> bool" where
  "ambiguous_path v =
     (let lower = to_lower v
      in if contains lower ''%2f'' \<or> contains lower ''%5c'' \<or> contains lower ''%25'' \<or> CHR 0x5C \<in> set v
         then True
         else list_ex (\<lambda>seg. seg = ''.'' \<or> seg = ''..'' \<or> equal_fold seg ''%2e'' \<or> equal_fold seg ''%2e%2e'')
                (split_on CHR ''/'' v))"

definition pool_tls_configured :: "pool_tls \<Rightarrow> bool" where
  "pool_tls_configured t \<longleftrightarrow> ca_file t \<noteq> [] \<or> server_name t \<noteq> [] \<or> client_cert_file t \<noteq> [] \<or>
     client_key_file t \<noteq> [] \<or> insecure_skip_verify t"

text \<open>\<open>Addr.IsLoopback\<close>: an IPv4-mapped address is unmapped first.\<close>

definition is_loopback :: "addr \<Rightarrow> bool" where
  "is_loopback a = (case a of
     V4 os \<Rightarrow> os ! 0 = 127
   | V6 gs z \<Rightarrow> if is_4in6 gs then gs ! 6 div 256 = 127 else gs = [0, 0, 0, 0, 0, 0, 0, 1])"

definition loopback_listen_address :: "string \<Rightarrow> bool" where
  "loopback_listen_address address =
     (case split_host_port address of
        None \<Rightarrow> False
      | Some (hst, _) \<Rightarrow>
          if equal_fold hst ''localhost'' then True
          else (case parse_addr hst of None \<Rightarrow> False | Some a \<Rightarrow> is_loopback a))"

definition admin_auth_configured :: "admin \<Rightarrow> bool" where
  "admin_auth_configured a \<longleftrightarrow> auth_token_env a \<noteq> [] \<or> length (a_tokens a) > 0"

section \<open>Listeners and the admin endpoint\<close>

primrec listener_loop :: "nat \<Rightarrow> string set \<Rightarrow> listener list \<Rightarrow> listener_error list \<times> string set" where
  "listener_loop i seen [] = ([], seen)"
| "listener_loop i seen (l # ls) =
     (let rest = listener_loop (Suc i) (insert (l_address l) seen) ls
      in (report (l_address l = []) (ListenerAddress i) @
          report (l_address l \<in> seen) (ListenerDuplicated (l_address l)) @
          report (case l_tls l of None \<Rightarrow> False | Some t \<Rightarrow> cert_file t = [] \<or> key_file t = []) (ListenerTls i) @
          fst rest, snd rest))"

primrec scope_loop :: "nat \<Rightarrow> nat \<Rightarrow> string set \<Rightarrow> string list \<Rightarrow> admin_error list" where
  "scope_loop i j seen [] = []"
| "scope_loop i j seen (s # ss) =
     report (s \<noteq> trim_space s) (ScopeSpace i j) @
     report (s \<noteq> ''admin'' \<and> s \<noteq> ''health'' \<and> s \<noteq> ''metrics'' \<and> s \<noteq> ''read'') (ScopeUnknown i j) @
     report (s \<in> seen) (ScopeDuplicated i s) @
     scope_loop i (Suc j) (insert s seen) ss"

primrec token_loop :: "nat \<Rightarrow> string set \<Rightarrow> string set \<Rightarrow> admin_token list \<Rightarrow> admin_error list" where
  "token_loop i names envs [] = []"
| "token_loop i names envs (t # ts) =
     report (\<not> identifier_pattern (at_name t)) (TokenName i) @
     report (at_name t \<in> names) (TokenNameDuplicated (at_name t)) @
     report (\<not> env_name_pattern (at_env t)) (TokenEnv i) @
     report (at_env t \<in> envs) (TokenEnvDuplicated (at_env t)) @
     report (length (at_scopes t) = 0) (TokenScopes i) @
     scope_loop i 0 {} (at_scopes t) @
     token_loop (Suc i) (insert (at_name t) names) (insert (at_env t) envs) ts"

definition validate_admin_tokens :: "string \<Rightarrow> admin_token list \<Rightarrow> admin_error list" where
  "validate_admin_tokens legacy ts =
     report (length ts > 16) TokenCount @ token_loop 0 {} (if legacy \<noteq> [] then {legacy} else {}) ts"

section \<open>Routes\<close>

primrec method_loop :: "nat \<Rightarrow> string set \<Rightarrow> string list \<Rightarrow> policy_error list" where
  "method_loop i seen [] = []"
| "method_loop i seen (v # vs) =
     report (v \<noteq> trim_space v \<or> v = [] \<or> \<not> http_token_pattern v \<or> v \<noteq> to_upper v) (MethodMalformed i) @
     report (v \<in> seen) (MethodDuplicated v) @ method_loop (Suc i) (insert v seen) vs"

primrec denied_path_loop :: "nat \<Rightarrow> string set \<Rightarrow> string list \<Rightarrow> policy_error list" where
  "denied_path_loop i seen [] = []"
| "denied_path_loop i seen (p # ps) =
     report (p \<noteq> trim_space p \<or> p = [] \<or> \<not> has_prefix p ''/'' \<or> contains_any p ''?#'' \<or> ambiguous_path p)
       (DeniedPathMalformed i) @
     report (p \<in> seen) (DeniedPathDuplicated p) @ denied_path_loop (Suc i) (insert p seen) ps"

primrec header_loop :: "string \<Rightarrow> nat \<Rightarrow> string set \<Rightarrow> string list \<Rightarrow> policy_error list" where
  "header_loop name i seen [] = []"
| "header_loop name i seen (h # hs) =
     report (h \<noteq> trim_space h \<or> h = [] \<or> \<not> http_token_pattern h) (HeaderMalformed name i) @
     report (to_lower h \<in> seen) (HeaderDuplicated name h) @
     header_loop name (Suc i) (insert (to_lower h) seen) hs"

definition validate_header_list :: "string \<Rightarrow> string list \<Rightarrow> nat \<Rightarrow> policy_error list" where
  "validate_header_list name hs max_entries =
     report (length hs > max_entries) (HeaderCount name) @ header_loop name 0 {} hs"

definition validate_route_policy :: "route_policy \<Rightarrow> policy_error list" where
  "validate_route_policy p =
     report (length (allowed_methods p) > 32) MethodCount @
     method_loop 0 {} (allowed_methods p) @
     report (length (denied_path_prefixes p) > 128) DeniedPathCount @
     denied_path_loop 0 {} (denied_path_prefixes p) @
     validate_header_list ''required_headers'' (required_headers p) 64 @
     validate_header_list ''denied_headers'' (denied_headers p) 64 @
     (let denied = to_lower ` set (denied_headers p)
      in concat (map (\<lambda>h. report (to_lower h \<in> denied) (HeaderConflict h)) (required_headers p))) @
     report (max_query_bytes p < 0 \<or> max_query_bytes p > 1048576) QueryBound"

definition validate_rate_limit :: "rate_limit \<Rightarrow> route_error list" where
  "validate_rate_limit rl =
     (if rl_enabled rl
      then report (rl_requests rl \<le> 0 \<or> rl_window rl \<le> 0) RateLimitPositive @
           report (rl_max_keys rl < 0 \<or> rl_max_keys rl > 1000000) RateLimitKeys
      else [])"

text \<open>The key of \<open>seenMatches\<close> is the pair of its two parts, joined by a zero byte in the source.\<close>

definition match_key :: "route \<Rightarrow> string" where
  "match_key rt = normalized_host (rt_host rt) @ CHR 0x00 # path_prefix rt"

definition validate_route :: "string set \<Rightarrow> string set \<Rightarrow> (string \<times> pool) list \<Rightarrow> route \<Rightarrow> route_error list" where
  "validate_route names matches ps rt =
     report (\<not> identifier_pattern (rt_name rt)) RouteName @
     report (rt_name rt \<in> names) (RouteNameDuplicated (rt_name rt)) @
     report (rt_host rt \<noteq> trim_space (rt_host rt)) RouteHostSpace @
     (if path_prefix rt = [] \<or> \<not> has_prefix (path_prefix rt) ''/'' then [RoutePrefixSlash]
      else report (ambiguous_path (path_prefix rt)) RoutePrefixAmbiguous) @
     report (match_key rt \<in> matches) (RouteMatchDuplicated (rt_host rt) (path_prefix rt)) @
     report (map_of ps (rt_pool rt) = None) (RoutePoolMissing (rt_pool rt)) @
     report (strategy rt \<noteq> ''round_robin'' \<and> strategy rt \<noteq> ''least_connections'') RouteStrategy @
     map RoutePolicyError (validate_route_policy (rt_policy rt)) @
     validate_rate_limit (rt_rate_limit rt)"

primrec route_loop ::
  "nat \<Rightarrow> string set \<Rightarrow> string set \<Rightarrow> (string \<times> pool) list \<Rightarrow> route list \<Rightarrow> config_error list" where
  "route_loop i names matches ps [] = []"
| "route_loop i names matches ps (rt # rts) =
     map (RouteError i) (validate_route names matches ps rt) @
     route_loop (Suc i) (insert (rt_name rt) names) (insert (match_key rt) matches) ps rts"

section \<open>Pools\<close>

text \<open>The backends of a pool: the errors, and whether one of them is reached over TLS.\<close>

primrec backend_loop ::
  "(string \<Rightarrow> url option) \<Rightarrow> nat \<Rightarrow> string set \<Rightarrow> backend_cfg list \<Rightarrow> pool_error list \<times> bool" where
  "backend_loop parse i seen [] = ([], False)"
| "backend_loop parse i seen (b # bs) =
     (let rest = backend_loop parse (Suc i) (insert (bc_name b) seen) bs
      in (report (case parse (bc_url b) of
             None \<Rightarrow> True
           | Some u \<Rightarrow> host u = [] \<or> (scheme u \<noteq> ''http'' \<and> scheme u \<noteq> ''https'') \<or> user u \<noteq> None \<or> fragment u \<noteq> [])
           (BackendUrl i) @
         report (bc_name b \<in> seen \<or> \<not> identifier_pattern (bc_name b)) BackendName @ fst rest,
         (case parse (bc_url b) of None \<Rightarrow> False | Some u \<Rightarrow> scheme u = ''https'') \<or> snd rest))"

definition validate_pool :: "(string \<Rightarrow> url option) \<Rightarrow> string \<Rightarrow> pool \<Rightarrow> pool_error list" where
  "validate_pool parse name p =
     report (\<not> identifier_pattern name) PoolName @
     report (length (p_backends p) = 0) PoolEmpty @
     (case backend_loop parse 0 {} (p_backends p) of (errs, https) \<Rightarrow>
        errs @ report (pool_tls_configured (p_tls p) \<and> \<not> https) TlsWithoutHttps) @
     report ((client_cert_file (p_tls p) = []) \<noteq> (client_key_file (p_tls p) = [])) ClientCertPair @
     report (server_name (p_tls p) \<noteq> trim_space (server_name (p_tls p))) ServerNameSpace @
     (let hp = h_path (p_health p)
      in report (hp = [] \<or> \<not> has_prefix hp ''/'' \<or> ambiguous_path hp \<or> contains_any hp ''?#'') HealthPath) @
     report (h_interval (p_health p) \<le> 0 \<or> h_timeout (p_health p) \<le> 0 \<or>
       unhealthy_threshold (p_health p) \<le> 0 \<or> healthy_threshold (p_health p) \<le> 0) HealthValues @
     report (retry_max_attempts p < 1 \<or> retry_max_attempts p > 2) RetryAttempts"

section \<open>Client identity and the rest\<close>

primrec trusted_loop :: "nat \<Rightarrow> string list \<Rightarrow> client_ip_conf_error list" where
  "trusted_loop i [] = []"
| "trusted_loop i (c # cs) =
     (if c \<noteq> trim_space c then [TrustedSpace i] else report (parse_prefix c = None) (TrustedCidr i)) @
     trusted_loop (Suc i) cs"

primrec client_header_loop :: "nat \<Rightarrow> string set \<Rightarrow> string list \<Rightarrow> client_ip_conf_error list" where
  "client_header_loop i seen [] = []"
| "client_header_loop i seen (h # hs) =
     (let normalized = to_lower (trim_space h)
      in report (h \<noteq> trim_space h) (ClientHeaderSpace i) @
         report (normalized \<noteq> ''x-forwarded-for'' \<and> normalized \<noteq> ''x-real-ip'') (ClientHeaderUnknown i) @
         report (normalized \<in> seen) (ClientHeaderDuplicated h) @
         client_header_loop (Suc i) (insert normalized seen) hs)"

definition validate_client_ip :: "client_ip \<Rightarrow> client_ip_conf_error list" where
  "validate_client_ip c =
     report (length (trusted_proxies c) > 128) TrustedCount @
     trusted_loop 0 (trusted_proxies c) @
     report (length (ci_headers c) > 0 \<and> length (trusted_proxies c) = 0) HeadersWithoutTrusted @
     report (length (trusted_proxies c) > 0 \<and> length (ci_headers c) = 0) TrustedWithoutHeaders @
     client_header_loop 0 {} (ci_headers c)"

definition validate_admin :: "string set \<Rightarrow> admin \<Rightarrow> admin_error list" where
  "validate_admin seen a =
     report (a_address a = []) AdminAddress @
     report (auth_token_env a \<noteq> [] \<and> \<not> env_name_pattern (auth_token_env a)) AdminEnv @
     validate_admin_tokens (auth_token_env a) (a_tokens a) @
     report (\<not> admin_auth_configured a \<and> \<not> loopback_listen_address (a_address a)) AdminAuthRequired @
     report (a_address a \<in> seen) AdminAddressPublic"

definition validate :: "(string \<Rightarrow> url option) \<Rightarrow> config \<Rightarrow> config_error list" where
  "validate parse cfg =
     (if length (listeners cfg) = 0 then [ListenerError ListenerRequired]
      else report (length (listeners cfg) > 16) (ListenerError ListenerCount)) @
     (case listener_loop 0 {} (listeners cfg) of (errs, seen) \<Rightarrow>
        map ListenerError errs @ map AdminError (validate_admin seen (c_admin cfg))) @
     (if length (routes cfg) = 0 then [RoutesRequired] else report (length (routes cfg) > 1000) RouteCount) @
     report (length (pools cfg) > 1000) PoolCount @
     route_loop 0 {} {} (pools cfg) (routes cfg) @
     concat (map (\<lambda>(name, p). map (PoolError name) (validate_pool parse name p)) (pools cfg)) @
     report (sum_list (map (\<lambda>(_, p). length (p_backends p)) (pools cfg)) > 10000) BackendCount @
     (let t = c_timeouts cfg in
        report (t_read_header t \<le> 0 \<or> t_read_body t \<le> 0 \<or> t_write t \<le> 0 \<or> t_idle t \<le> 0 \<or>
          t_shutdown t \<le> 0 \<or> t_dial t \<le> 0 \<or> t_response_header t \<le> 0) TimeoutsPositive) @
     (let l = c_limits cfg in
        report (max_header_bytes l \<le> 0 \<or> max_body_bytes l \<le> 0 \<or> max_concurrent_requests l \<le> 0 \<or>
          max_connections l \<le> 0) LimitsPositive @
        report (max_concurrent_requests l > 100000) ConcurrencyBound @
        report (max_connections l > 1000000) ConnectionBound) @
     map ClientIpError (validate_client_ip (c_client_ip cfg)) @
     report (c_max_entries (c_cache cfg) \<le> 0 \<or> c_max_bytes (c_cache cfg) \<le> 0 \<or>
       c_default_ttl (c_cache cfg) \<le> 0) CacheBounds @
     report (log_level cfg \<noteq> ''debug'' \<and> log_level cfg \<noteq> ''info'' \<and> log_level cfg \<noteq> ''warn'' \<and>
       log_level cfg \<noteq> ''error'') LogLevel"

section \<open>What the loops check\<close>

lemma trim_space_id: "\<forall>c \<in> set s. \<not> is_space c \<Longrightarrow> trim_space s = s"
proof -
  assume no: "\<forall>c \<in> set s. \<not> is_space c"
  have id: "dropWhile is_space t = t" if "\<forall>c \<in> set t. \<not> is_space c" for t using that by (cases t) auto
  from id [of s] id [of "rev s"] no show "trim_space s = s" by (simp add: trim_space_def trim_with_def)
qed

lemma space_chars: "is_space c \<Longrightarrow> c \<in> set (map char_of [9 :: nat, 10, 11, 12, 13, 32])"
proof -
  assume "is_space c"
  then have "of_char c \<in> set [9 :: nat, 10, 11, 12, 13, 32]" by (auto simp: is_space_def)
  then have "char_of (of_char c :: nat) \<in> char_of ` set [9 :: nat, 10, 11, 12, 13, 32]" by (rule imageI)
  then show ?thesis unfolding char_of_char set_map .
qed

lemma token_not_space: "token_char c \<Longrightarrow> \<not> is_space c"
proof -
  have "list_all (\<lambda>c. \<not> token_char c) (map char_of [9 :: nat, 10, 11, 12, 13, 32])" by code_simp
  then show "token_char c \<Longrightarrow> \<not> is_space c" by (auto dest!: space_chars simp: list_all_iff)
qed

lemma http_token_trimmed: "http_token_pattern s \<Longrightarrow> trim_space s = s"
  by (rule trim_space_id) (auto simp: http_token_pattern_def list_all_iff token_not_space)

lemma listener_loop_ok:
  "fst (listener_loop i seen ls) = [] \<longleftrightarrow> distinct (map l_address ls) \<and> l_address ` set ls \<inter> seen = {} \<and>
     (\<forall>l \<in> set ls. l_address l \<noteq> [] \<and> (\<forall>t. l_tls l = Some t \<longrightarrow> cert_file t \<noteq> [] \<and> key_file t \<noteq> []))"
  "snd (listener_loop i seen ls) = l_address ` set ls \<union> seen"
  by (induction ls arbitrary: i seen) (auto simp: Let_def split: option.splits)

lemma scope_loop_ok:
  "scope_loop i j seen ss = [] \<longleftrightarrow> distinct ss \<and> set ss \<inter> seen = {} \<and>
     set ss \<subseteq> {''admin'', ''health'', ''metrics'', ''read''}"
proof (induction ss arbitrary: j seen)
  case (Cons s ss)
  have "s \<in> {''admin'', ''health'', ''metrics'', ''read''} \<Longrightarrow> trim_space s = s"
    by (rule trim_space_id) (auto simp: is_space_def)
  with Cons.IH show ?case by auto
qed simp

lemma token_loop_ok:
  "token_loop i names envs ts = [] \<longleftrightarrow>
     distinct (map at_name ts) \<and> at_name ` set ts \<inter> names = {} \<and>
     distinct (map at_env ts) \<and> at_env ` set ts \<inter> envs = {} \<and>
     (\<forall>t \<in> set ts. identifier_pattern (at_name t) \<and> env_name_pattern (at_env t) \<and> at_scopes t \<noteq> [] \<and>
        distinct (at_scopes t) \<and> set (at_scopes t) \<subseteq> {''admin'', ''health'', ''metrics'', ''read''})"
  by (induction ts arbitrary: i names envs) (auto simp: scope_loop_ok)

lemma method_loop_ok:
  "method_loop i seen vs = [] \<longleftrightarrow> distinct vs \<and> set vs \<inter> seen = {} \<and>
     (\<forall>v \<in> set vs. http_token_pattern v \<and> to_upper v = v)"
proof (induction vs arbitrary: i seen)
  case (Cons v vs)
  have "http_token_pattern v \<Longrightarrow> trim_space v = v \<and> v \<noteq> []"
    by (simp add: http_token_trimmed) (simp add: http_token_pattern_def)
  with Cons.IH show ?case by auto
qed simp

definition plain_path :: "string \<Rightarrow> bool" where
  "plain_path p \<longleftrightarrow> has_prefix p ''/'' \<and> \<not> ambiguous_path p"

lemma denied_path_loop_ok:
  "denied_path_loop i seen ps = [] \<longleftrightarrow> distinct ps \<and> set ps \<inter> seen = {} \<and>
     (\<forall>p \<in> set ps. plain_path p \<and> trim_space p = p \<and> \<not> contains_any p ''?#'')"
proof (induction ps arbitrary: i seen)
  case (Cons p ps)
  have "plain_path p \<Longrightarrow> p \<noteq> []" by (auto simp: plain_path_def has_prefix_def)
  with Cons.IH show ?case by (auto simp: plain_path_def)
qed simp

lemma header_loop_ok:
  "header_loop name i seen hs = [] \<longleftrightarrow> distinct (map to_lower hs) \<and> to_lower ` set hs \<inter> seen = {} \<and>
     (\<forall>h \<in> set hs. http_token_pattern h)"
proof (induction hs arbitrary: i seen)
  case (Cons h hs)
  have "http_token_pattern h \<Longrightarrow> trim_space h = h \<and> h \<noteq> []"
    by (simp add: http_token_trimmed) (simp add: http_token_pattern_def)
  with Cons.IH show ?case by auto
qed simp

lemma trusted_loop_ok:
  "trusted_loop i cs = [] \<longleftrightarrow> (\<forall>c \<in> set cs. trim_space c = c \<and> parse_prefix c \<noteq> None)"
  by (induction cs arbitrary: i) auto

lemma client_header_loop_ok:
  "client_header_loop i seen hs = [] \<longleftrightarrow> distinct (map to_lower hs) \<and> to_lower ` set hs \<inter> seen = {} \<and>
     to_lower ` set hs \<subseteq> {''x-forwarded-for'', ''x-real-ip''} \<and> (\<forall>h \<in> set hs. trim_space h = h)"
  by (induction hs arbitrary: i seen) (auto simp: Let_def)

lemma backend_loop_ok:
  "fst (backend_loop parse i seen bs) = [] \<longleftrightarrow> distinct (map bc_name bs) \<and> bc_name ` set bs \<inter> seen = {} \<and>
     (\<forall>b \<in> set bs. identifier_pattern (bc_name b) \<and> (\<exists>u. parse (bc_url b) = Some u \<and> host u \<noteq> [] \<and>
        scheme u \<in> {''http'', ''https''} \<and> user u = None \<and> fragment u = []))"
  "snd (backend_loop parse i seen bs) \<longleftrightarrow> (\<exists>b \<in> set bs. \<exists>u. parse (bc_url b) = Some u \<and> scheme u = ''https'')"
  by (induction bs arbitrary: i seen) (auto simp: Let_def split: option.splits)

section \<open>Well-formed configurations\<close>

text \<open>The same, declaratively: what a configuration must be, with no order and no accumulator.\<close>

definition well_formed_admin :: "string set \<Rightarrow> admin \<Rightarrow> bool" where
  "well_formed_admin public a \<longleftrightarrow>
     a_address a \<noteq> [] \<and> a_address a \<notin> public \<and>
     (auth_token_env a = [] \<or> env_name_pattern (auth_token_env a)) \<and>
     length (a_tokens a) \<le> 16 \<and> distinct (map at_name (a_tokens a)) \<and>
     distinct (auth_token_env a # map at_env (a_tokens a)) \<and>
     (\<forall>t \<in> set (a_tokens a). identifier_pattern (at_name t) \<and> env_name_pattern (at_env t) \<and> at_scopes t \<noteq> [] \<and>
        distinct (at_scopes t) \<and> set (at_scopes t) \<subseteq> {''admin'', ''health'', ''metrics'', ''read''}) \<and>
     (auth_token_env a \<noteq> [] \<or> a_tokens a \<noteq> [] \<or> loopback_listen_address (a_address a))"

definition well_formed_policy :: "route_policy \<Rightarrow> bool" where
  "well_formed_policy p \<longleftrightarrow>
     length (allowed_methods p) \<le> 32 \<and> distinct (allowed_methods p) \<and>
     (\<forall>v \<in> set (allowed_methods p). http_token_pattern v \<and> to_upper v = v) \<and>
     length (denied_path_prefixes p) \<le> 128 \<and> distinct (denied_path_prefixes p) \<and>
     (\<forall>x \<in> set (denied_path_prefixes p). plain_path x \<and> trim_space x = x \<and> \<not> contains_any x ''?#'') \<and>
     length (required_headers p) \<le> 64 \<and> length (denied_headers p) \<le> 64 \<and>
     distinct (map to_lower (required_headers p)) \<and> distinct (map to_lower (denied_headers p)) \<and>
     (\<forall>x \<in> set (required_headers p) \<union> set (denied_headers p). http_token_pattern x) \<and>
     to_lower ` set (required_headers p) \<inter> to_lower ` set (denied_headers p) = {} \<and>
     0 \<le> max_query_bytes p \<and> max_query_bytes p \<le> 1048576"

definition well_formed_rate :: "rate_limit \<Rightarrow> bool" where
  "well_formed_rate r \<longleftrightarrow>
     (rl_enabled r \<longrightarrow> 0 < rl_requests r \<and> 0 < rl_window r \<and> 0 \<le> rl_max_keys r \<and> rl_max_keys r \<le> 1000000)"

definition well_formed_route :: "(string \<times> pool) list \<Rightarrow> route \<Rightarrow> bool" where
  "well_formed_route ps rt \<longleftrightarrow>
     identifier_pattern (rt_name rt) \<and> trim_space (rt_host rt) = rt_host rt \<and> plain_path (path_prefix rt) \<and>
     rt_pool rt \<in> fst ` set ps \<and> strategy rt \<in> {''round_robin'', ''least_connections''} \<and>
     well_formed_policy (rt_policy rt) \<and> well_formed_rate (rt_rate_limit rt)"

definition well_formed_pool :: "(string \<Rightarrow> url option) \<Rightarrow> string \<times> pool \<Rightarrow> bool" where
  "well_formed_pool parse np = (case np of (name, p) \<Rightarrow>
     identifier_pattern name \<and> p_backends p \<noteq> [] \<and> distinct (map bc_name (p_backends p)) \<and>
     (\<forall>b \<in> set (p_backends p). identifier_pattern (bc_name b) \<and> (\<exists>u. parse (bc_url b) = Some u \<and> host u \<noteq> [] \<and>
        scheme u \<in> {''http'', ''https''} \<and> user u = None \<and> fragment u = [])) \<and>
     (pool_tls_configured (p_tls p) \<longrightarrow>
        (\<exists>b \<in> set (p_backends p). \<exists>u. parse (bc_url b) = Some u \<and> scheme u = ''https'')) \<and>
     (client_cert_file (p_tls p) = [] \<longleftrightarrow> client_key_file (p_tls p) = []) \<and>
     trim_space (server_name (p_tls p)) = server_name (p_tls p) \<and>
     plain_path (h_path (p_health p)) \<and> \<not> contains_any (h_path (p_health p)) ''?#'' \<and>
     0 < h_interval (p_health p) \<and> 0 < h_timeout (p_health p) \<and>
     0 < unhealthy_threshold (p_health p) \<and> 0 < healthy_threshold (p_health p) \<and>
     retry_max_attempts p \<in> {1, 2})"

definition well_formed_client_ip :: "client_ip \<Rightarrow> bool" where
  "well_formed_client_ip c \<longleftrightarrow>
     length (trusted_proxies c) \<le> 128 \<and>
     (\<forall>x \<in> set (trusted_proxies c). trim_space x = x \<and> parse_prefix x \<noteq> None) \<and>
     (ci_headers c = [] \<longleftrightarrow> trusted_proxies c = []) \<and>
     distinct (map to_lower (ci_headers c)) \<and> to_lower ` set (ci_headers c) \<subseteq> {''x-forwarded-for'', ''x-real-ip''} \<and>
     (\<forall>h \<in> set (ci_headers c). trim_space h = h)"

definition well_formed_bounds :: "config \<Rightarrow> bool" where
  "well_formed_bounds cfg \<longleftrightarrow>
     list_all (\<lambda>d. 0 < d) [t_read_header (c_timeouts cfg), t_read_body (c_timeouts cfg), t_write (c_timeouts cfg),
       t_idle (c_timeouts cfg), t_shutdown (c_timeouts cfg), t_dial (c_timeouts cfg), t_response_header (c_timeouts cfg)] \<and>
     0 < max_header_bytes (c_limits cfg) \<and> 0 < max_body_bytes (c_limits cfg) \<and>
     0 < max_concurrent_requests (c_limits cfg) \<and> max_concurrent_requests (c_limits cfg) \<le> 100000 \<and>
     0 < max_connections (c_limits cfg) \<and> max_connections (c_limits cfg) \<le> 1000000 \<and>
     0 < c_max_entries (c_cache cfg) \<and> 0 < c_max_bytes (c_cache cfg) \<and> 0 < c_default_ttl (c_cache cfg) \<and>
     log_level cfg \<in> {''debug'', ''info'', ''warn'', ''error''}"

definition well_formed :: "(string \<Rightarrow> url option) \<Rightarrow> config \<Rightarrow> bool" where
  "well_formed parse cfg \<longleftrightarrow>
     listeners cfg \<noteq> [] \<and> length (listeners cfg) \<le> 16 \<and> distinct (map l_address (listeners cfg)) \<and>
     (\<forall>l \<in> set (listeners cfg). l_address l \<noteq> [] \<and>
        (\<forall>t. l_tls l = Some t \<longrightarrow> cert_file t \<noteq> [] \<and> key_file t \<noteq> [])) \<and>
     well_formed_admin (l_address ` set (listeners cfg)) (c_admin cfg) \<and>
     routes cfg \<noteq> [] \<and> length (routes cfg) \<le> 1000 \<and>
     distinct (map rt_name (routes cfg)) \<and> distinct (map match_key (routes cfg)) \<and>
     list_all (well_formed_route (pools cfg)) (routes cfg) \<and>
     length (pools cfg) \<le> 1000 \<and> list_all (well_formed_pool parse) (pools cfg) \<and>
     sum_list (map (\<lambda>(_, p). length (p_backends p)) (pools cfg)) \<le> 10000 \<and>
     well_formed_client_ip (c_client_ip cfg) \<and> well_formed_bounds cfg"

lemma validate_admin_ok:
  "validate_admin seen a = [] \<longleftrightarrow> well_formed_admin seen a"
  unfolding validate_admin_def validate_admin_tokens_def well_formed_admin_def admin_auth_configured_def
  by (auto simp: token_loop_ok env_name_pattern_def)

lemma validate_route_policy_ok: "validate_route_policy p = [] \<longleftrightarrow> well_formed_policy p"
  unfolding validate_route_policy_def well_formed_policy_def validate_header_list_def
  by (auto simp: method_loop_ok denied_path_loop_ok header_loop_ok Let_def not_less)

lemma validate_route_ok:
  "validate_route names matches ps rt = [] \<longleftrightarrow>
     well_formed_route ps rt \<and> rt_name rt \<notin> names \<and> match_key rt \<notin> matches"
proof -
  have "path_prefix rt \<noteq> [] \<and> has_prefix (path_prefix rt) ''/'' \<longleftrightarrow> has_prefix (path_prefix rt) ''/''"
    by (auto simp: has_prefix_def)
  then show ?thesis
    unfolding validate_route_def well_formed_route_def validate_rate_limit_def well_formed_rate_def plain_path_def
    by (auto simp: validate_route_policy_ok map_of_eq_None_iff not_less not_le)
qed

lemma route_loop_ok:
  "route_loop i names matches ps rts = [] \<longleftrightarrow> list_all (well_formed_route ps) rts \<and>
     distinct (map rt_name rts) \<and> rt_name ` set rts \<inter> names = {} \<and>
     distinct (map match_key rts) \<and> match_key ` set rts \<inter> matches = {}"
  by (induction rts arbitrary: i names matches) (auto simp: validate_route_ok)

lemma validate_pool_ok: "validate_pool parse name p = [] \<longleftrightarrow> well_formed_pool parse (name, p)"
proof -
  have hp: "hp \<noteq> [] \<and> has_prefix hp ''/'' \<longleftrightarrow> has_prefix hp ''/''" for hp by (auto simp: has_prefix_def)
  obtain errs https where bl: "backend_loop parse 0 {} (p_backends p) = (errs, https)" by fastforce
  note loop = backend_loop_ok [of parse 0 "{}" "p_backends p", unfolded bl, simplified]
  show ?thesis
    using hp [of "h_path (p_health p)"]
    unfolding validate_pool_def well_formed_pool_def plain_path_def
    by (auto simp: Let_def not_less not_le bl loop)
qed

lemma validate_client_ip_ok: "validate_client_ip c = [] \<longleftrightarrow> well_formed_client_ip c"
  unfolding validate_client_ip_def well_formed_client_ip_def
  by (auto simp: trusted_loop_ok client_header_loop_ok)

lemma validate_ok_iff: "validate parse cfg = [] \<longleftrightarrow> well_formed parse cfg"
proof -
  obtain errs seen where ll: "listener_loop 0 {} (listeners cfg) = (errs, seen)" by fastforce
  have loop: "errs = [] \<longleftrightarrow> distinct (map l_address (listeners cfg)) \<and> (\<forall>l \<in> set (listeners cfg).
        l_address l \<noteq> [] \<and> (\<forall>t. l_tls l = Some t \<longrightarrow> cert_file t \<noteq> [] \<and> key_file t \<noteq> []))"
      "seen = l_address ` set (listeners cfg)"
    using listener_loop_ok [of 0 "{}" "listeners cfg"] by (simp_all add: ll)
  have pools: "concat (map (\<lambda>(name, p). map (PoolError name) (validate_pool parse name p)) (pools cfg)) = [] \<longleftrightarrow>
      list_all (well_formed_pool parse) (pools cfg)"
    by (auto simp: list_all_iff validate_pool_ok)
  have bounds: "report (t_read_header t \<le> 0 \<or> t_read_body t \<le> 0 \<or> t_write t \<le> 0 \<or> t_idle t \<le> 0 \<or>
      t_shutdown t \<le> 0 \<or> t_dial t \<le> 0 \<or> t_response_header t \<le> 0) TimeoutsPositive = [] \<longleftrightarrow>
      list_all (\<lambda>d. 0 < d) [t_read_header t, t_read_body t, t_write t, t_idle t, t_shutdown t, t_dial t,
        t_response_header t]" for t
    by auto
  show ?thesis
    unfolding validate_def well_formed_def well_formed_bounds_def Let_def ll prod.case append_is_Nil_conv
      pools bounds route_loop_ok map_is_Nil_conv validate_admin_ok validate_client_ip_ok loop
    by (auto simp: not_less not_le)
qed

text \<open>
  C16. Validation is exact: \<open>Validate\<close> reports no error precisely for the well-formed
  configurations, in which names, addresses, scopes, methods and header names are unique, every
  route names a pool that exists and a balancer that exists, every backend has an absolute
  \<open>http\<close> or \<open>https\<close> URL without credentials, and every bound is positive and in range.
\<close>

theorem validate_exact: "validate parse cfg = [] \<longleftrightarrow> well_formed parse cfg"
  by (rule validate_ok_iff)

section \<open>Two normalizations of a host\<close>

text \<open>
  \<open>normalizedHost\<close> here and \<open>normalizeHost\<close> of the router do the same three things in different
  orders: validation strips the dot before it splits off the port.
\<close>

lemma has_colon_split: "CHR '':'' \<notin> set h \<Longrightarrow> split_host_port h = None"
  by (simp add: split_host_port_def last_index_of_def index_of_def)

lemma set_trim_suffix: "set (trim_suffix h d) \<subseteq> set h"
  by (auto simp: trim_suffix_def dest: in_set_takeD)

lemma lower_colon: "CHR '':'' \<notin> set h \<Longrightarrow> CHR '':'' \<notin> set (to_lower h)"
proof -
  assume no: "CHR '':'' \<notin> set h"
  have "c = CHR '':''" if "lower_char c = CHR '':''" for c
  proof -
    have "of_char (lower_char c) = (58 :: nat)" using that by simp
    then have "of_char c = (58 :: nat)" by (auto simp: lower_char_def split: if_splits)
    then have "char_of (of_char c :: nat) = (char_of (58 :: nat) :: char)" by (rule arg_cong)
    moreover have "char_of (58 :: nat) = CHR '':''" by code_simp
    ultimately show ?thesis by (simp only: char_of_char)
  qed
  then show ?thesis unfolding to_lower_def set_map using no by (metis imageE)
qed

lemma normalizations_agree:
  assumes "CHR '':'' \<notin> set h"
  shows "normalized_host h = trim_suffix (to_lower (trim_space h)) ''.''"
proof -
  have "CHR '':'' \<notin> set (trim_space h)" using assms trim_with_subset by (auto simp: trim_space_def)
  then have "CHR '':'' \<notin> set (trim_suffix (to_lower (trim_space h)) ''.'')"
    using set_trim_suffix lower_colon by blast
  then show ?thesis by (simp add: normalized_host_def has_colon_split)
qed

section \<open>A small valid configuration\<close>

definition demo_parse :: "string \<Rightarrow> url option" where
  "demo_parse s = Some ((plain_url [])\<lparr>scheme := ''http'', host := s\<rparr>)"

definition demo_pool :: pool where
  "demo_pool = \<lparr>p_backends = [\<lparr>bc_name = ''one'', bc_url = ''127.0.0.1:8081''\<rparr>,
       \<lparr>bc_name = ''two'', bc_url = ''127.0.0.1:8082''\<rparr>],
     p_health = \<lparr>h_path = ''/healthz'', h_interval = 10 * second, h_timeout = second,
       unhealthy_threshold = 3, healthy_threshold = 2\<rparr>,
     retry_max_attempts = 2,
     p_tls = \<lparr>ca_file = [], server_name = [], client_cert_file = [], client_key_file = [],
       insecure_skip_verify = False\<rparr>\<rparr>"

definition demo_config :: "route list \<Rightarrow> config" where
  "demo_config rts = default_config\<lparr>routes := rts, pools := [(''main'', demo_pool)]\<rparr>"

lemma demo_config_valid: "validate demo_parse (demo_config [plain_route ''api'' [] ''/api'' ''main'']) = []"
  by code_simp

text \<open>The default configuration is not usable as it is: it has no route.\<close>

lemma default_config_errors: "validate demo_parse default_config = [RoutesRequired]"
  by code_simp

end
