(* ===== verification/Transport.thy ===== *)
theory Transport
  imports Config
begin

text \<open>
  The upstream transport of a pool (package \<open>proxy\<close>, file \<open>transport.go\<close>): the bounds on its
  connections and its TLS policy. Files, the system's trust roots, the PEM decoder and
  \<open>tls.LoadX509KeyPair\<close> are parameters, gathered in one record.
\<close>

record ('roots, 'cert) tls_world =
  system_roots :: "'roots option option"
  empty_roots :: 'roots
  read_file :: "string \<Rightarrow> string option"
  append_pem :: "'roots \<Rightarrow> string \<Rightarrow> 'roots option"
  load_key_pair :: "string \<Rightarrow> string \<Rightarrow> 'cert option"

datatype transport_error = SystemRoots | ReadCaFile | NoCertificates | ClientCertificate

text \<open>The fields of \<open>tls.Config\<close> and \<open>http.Transport\<close> that the code sets.\<close>

record ('roots, 'cert) client_tls =
  min_version :: int
  tc_server_name :: string
  tc_skip_verify :: bool
  root_cas :: "'roots option"
  certificates :: "'cert list"

record ('roots, 'cert) transport =
  tr_proxy :: bool
  tr_dial_timeout :: duration
  tr_keep_alive :: duration
  tr_http2 :: bool
  tr_header_timeout :: duration
  tr_max_header_bytes :: int
  tr_idle_timeout :: duration
  tr_max_idle :: int
  tr_max_idle_per_host :: int
  tr_max_per_host :: int
  tr_tls :: "('roots, 'cert) client_tls option"

definition tls12 :: int where
  "tls12 = 771"

definition upstream_tls_configured :: "pool_tls \<Rightarrow> bool" where
  "upstream_tls_configured c \<longleftrightarrow> ca_file c \<noteq> [] \<or> server_name c \<noteq> [] \<or> client_cert_file c \<noteq> [] \<or>
     client_key_file c \<noteq> [] \<or> insecure_skip_verify c"

text \<open>\<open>x509.SystemCertPool\<close> fails, or returns a pool that may be \<open>nil\<close>.\<close>

definition load_roots :: "('roots, 'cert) tls_world \<Rightarrow> string \<Rightarrow> transport_error + 'roots" where
  "load_roots w file =
     (case system_roots w of
        None \<Rightarrow> Inl SystemRoots
      | Some sys \<Rightarrow>
          let roots = (case sys of None \<Rightarrow> empty_roots w | Some r \<Rightarrow> r) in
          (case read_file w file of
             None \<Rightarrow> Inl ReadCaFile
           | Some pem \<Rightarrow> (case append_pem w roots pem of None \<Rightarrow> Inl NoCertificates | Some r \<Rightarrow> Inr r)))"

definition upstream_tls_config ::
  "('roots, 'cert) tls_world \<Rightarrow> pool_tls \<Rightarrow> transport_error + ('roots, 'cert) client_tls option" where
  "upstream_tls_config w c =
     (if \<not> upstream_tls_configured c then Inr None
      else let t0 = \<lparr>min_version = tls12, tc_server_name = server_name c,
               tc_skip_verify = insecure_skip_verify c, root_cas = None, certificates = []\<rparr> in
        (case (if ca_file c \<noteq> [] then map_sum id Some (load_roots w (ca_file c)) else Inr None) of
           Inl e \<Rightarrow> Inl e
         | Inr roots \<Rightarrow>
             let t1 = t0\<lparr>root_cas := roots\<rparr> in
             if client_cert_file c \<noteq> [] then
               (case load_key_pair w (client_cert_file c) (client_key_file c) of
                  None \<Rightarrow> Inl ClientCertificate
                | Some cert \<Rightarrow> Inr (Some (t1\<lparr>certificates := [cert]\<rparr>)))
             else Inr (Some t1)))"

definition new_pool_transport ::
  "('roots, 'cert) tls_world \<Rightarrow> config \<Rightarrow> pool \<Rightarrow> transport_error + ('roots, 'cert) transport" where
  "new_pool_transport w cfg p =
     (case upstream_tls_config w (p_tls p) of
        Inl e \<Rightarrow> Inl e
      | Inr t \<Rightarrow> Inr \<lparr>tr_proxy = False, tr_dial_timeout = t_dial (c_timeouts cfg), tr_keep_alive = 30 * second,
          tr_http2 = True, tr_header_timeout = t_response_header (c_timeouts cfg),
          tr_max_header_bytes = max_header_bytes (c_limits cfg), tr_idle_timeout = t_idle (c_timeouts cfg),
          tr_max_idle = 256, tr_max_idle_per_host = 32, tr_max_per_host = 128, tr_tls = t\<rparr>)"

text \<open>Only a pool that asks for files can fail, and what TLS policy a pool gets.\<close>

lemma transport_without_files:
  "ca_file (p_tls p) = [] \<Longrightarrow> client_cert_file (p_tls p) = [] \<Longrightarrow> \<exists>t. new_pool_transport w cfg p = Inr t"
  by (simp add: new_pool_transport_def upstream_tls_config_def Let_def)

lemma upstream_tls_policy:
  assumes "upstream_tls_config w c = Inr t"
  shows "(t = None \<longleftrightarrow> \<not> upstream_tls_configured c) \<and>
    (\<forall>x. t = Some x \<longrightarrow> min_version x = tls12 \<and> tc_server_name x = server_name c \<and>
       (tc_skip_verify x \<longleftrightarrow> insecure_skip_verify c) \<and> (root_cas x = None \<longleftrightarrow> ca_file c = []) \<and>
       (certificates x = [] \<longleftrightarrow> client_cert_file c = []))"
proof -
  have "map_sum id Some r = Inr ro \<Longrightarrow> ro \<noteq> None" for r :: "transport_error + 'a" and ro
    by (cases r) auto
  with assms show ?thesis
    by (auto simp: upstream_tls_config_def Let_def split: if_splits sum.splits option.splits)
qed

end
