(* ===== verification/NewHandler.thy ===== *)
theory NewHandler
  imports ProxyProps Validate Transport
begin

text \<open>
  Building a handler from a configuration and what a runtime asks of it (package \<open>proxy\<close>,
  \<open>NewHandler\<close> of \<open>handler.go\<close>, \<open>Ready\<close> and \<open>InheritBackendHealth\<close> of \<open>runtime.go\<close>, and the
  published handler of \<open>Dynamic\<close>). Backends are allocated one after the other on the heap of the
  new handler. The lemmas show that a valid configuration gives a handler that the theorems
  about requests apply to, and in which no request can hit a missing route, pool, balancer or URL.
\<close>

section \<open>NewHandler\<close>

datatype new_handler_error =
    InvalidConfig "config_error list" | ClientIpPolicy client_ip_error
  | PoolTransport string transport_error | BackendParse string

primrec build_backends ::
  "(string \<Rightarrow> url option) \<Rightarrow> bid \<Rightarrow> heap \<Rightarrow> backend_cfg list \<Rightarrow> new_handler_error + (bid list \<times> bid \<times> heap)" where
  "build_backends parse nx hp [] = Inr ([], nx, hp)"
| "build_backends parse nx hp (b # bs) =
     (case parse (bc_url b) of
        None \<Rightarrow> Inl (BackendParse (bc_name b))
      | Some target \<Rightarrow>
          (case build_backends parse (nx + 1) (hp(nx := new_backend (bc_name b) (Some target))) bs of
             Inl e \<Rightarrow> Inl e
           | Inr (ids, next', hp') \<Rightarrow> Inr (nx # ids, next', hp')))"

primrec build_pools ::
  "(string \<Rightarrow> url option) \<Rightarrow> (pool \<Rightarrow> transport_error option) \<Rightarrow> bid \<Rightarrow> heap \<Rightarrow> (string \<times> pool) list \<Rightarrow>
   new_handler_error + ((string \<times> runtime_pool) list \<times> bid \<times> heap)" where
  "build_pools parse tr nx hp [] = Inr ([], nx, hp)"
| "build_pools parse tr nx hp (np # ps) =
     (case tr (snd np) of
        Some e \<Rightarrow> Inl (PoolTransport (fst np) e)
      | None \<Rightarrow>
          (case build_backends parse nx hp (p_backends (snd np)) of
             Inl e \<Rightarrow> Inl e
           | Inr (ids, next1, hp1) \<Rightarrow>
               let rp = \<lparr>rp_backends = ids, rp_max_attempts = retry_max_attempts (snd np),
                         rp_passive_threshold = unhealthy_threshold (p_health (snd np))\<rparr> in
               (case build_pools parse tr next1 hp1 ps of
                  Inl e \<Rightarrow> Inl e
                | Inr (rps, next2, hp2) \<Rightarrow> Inr ((fst np, rp) # rps, next2, hp2))))"

text \<open>Both balancers of every pool, and the rate limiters of the routes that ask for one.\<close>

definition build_balancers :: "(string \<times> pool) list \<Rightarrow> string \<times> string \<Rightarrow> bal_state option" where
  "build_balancers ps = (\<lambda>(pl, st).
     if map_of ps pl = None then None
     else if st = ''round_robin'' then Some (RoundRobin 0)
     else if st = ''least_connections'' then Some (LeastConnections 0) else None)"

primrec build_limiters :: "route list \<Rightarrow> (string \<Rightarrow> rate_limiter option) \<Rightarrow> string \<Rightarrow> rate_limiter option" where
  "build_limiters [] acc = acc"
| "build_limiters (rt # rts) acc =
     build_limiters rts (if rl_enabled (rt_rate_limit rt)
       then acc(rt_name rt \<mapsto> new_rate_limiter (rt_rate_limit rt)) else acc)"

definition empty_heap :: heap where
  "empty_heap = (\<lambda>_. new_backend [] None)"

text \<open>
  \<open>observed\<close> says whether an observer is installed; \<open>tr\<close> is the outcome of \<open>NewPoolTransport\<close>,
  or always a success when a transport is given; the last two parameters are the external
  functions a handler uses while it serves.
\<close>

definition new_handler ::
  "(string \<Rightarrow> url option) \<Rightarrow> (pool \<Rightarrow> transport_error option) \<Rightarrow> bool \<Rightarrow> (string \<Rightarrow> string) \<Rightarrow>
   (string \<Rightarrow> time option) \<Rightarrow> config \<Rightarrow> new_handler_error + (handler \<times> shared)" where
  "new_handler parse tr observed clean parse_time cfg =
     (if validate parse cfg \<noteq> [] then Inl (InvalidConfig (validate parse cfg))
      else (case new_client_ip_policy (c_client_ip cfg) of
         Inl e \<Rightarrow> Inl (ClientIpPolicy e)
       | Inr policy \<Rightarrow>
           (case build_pools parse tr 0 empty_heap (pools cfg) of
              Inl e \<Rightarrow> Inl e
            | Inr (rps, _, hp) \<Rightarrow> Inr
                (\<lparr>h_router = new_router (routes cfg), h_pools = rps, h_client_ip = Some policy,
                  h_max_body_bytes = max_body_bytes (c_limits cfg),
                  h_capacity = max_concurrent_requests (c_limits cfg),
                  h_cache_ttl = c_default_ttl (c_cache cfg), h_max_cache_body = c_max_bytes (c_cache cfg),
                  h_observed = observed, h_clean_query = clean, h_parse_time = parse_time\<rparr>,
                 \<lparr>sh_heap = hp, sh_balancers = build_balancers (pools cfg),
                  sh_limiters = build_limiters (routes cfg) (\<lambda>_. None), sh_slots = 0,
                  sh_cache = new_cache (c_max_entries (c_cache cfg)) (c_max_bytes (c_cache cfg)),
                  sh_capture = 0, sh_in_flight = 0, sh_retired = False, sh_idle_closes = 0, sh_log = []\<rparr>))))"

section \<open>Readiness and health\<close>

definition ready :: "handler \<Rightarrow> heap \<Rightarrow> bool" where
  "ready h hp = (if length (h_pools h) = 0 then False
     else list_all (\<lambda>(_, p). list_ex (\<lambda>b. alive (hp b)) (rp_backends p)) (h_pools h))"

text \<open>\<open>URL.String\<close> for the URLs of backends: no opaque part and no fragment.\<close>

definition url_string :: "url \<Rightarrow> string" where
  "url_string u =
     (if scheme u \<noteq> [] then scheme u @ '':'' else []) @
     (if scheme u \<noteq> [] \<or> host u \<noteq> [] \<or> user u \<noteq> None
      then (if host u \<noteq> [] \<or> path u \<noteq> [] \<or> user u \<noteq> None then ''//'' else []) @
           (case user u of None \<Rightarrow> [] | Some x \<Rightarrow> x @ ''@'') @ host u
      else []) @
     (let p = escaped_path u in
      (if p \<noteq> [] \<and> hd p \<noteq> CHR ''/'' \<and> host u \<noteq> [] then ''/'' else []) @ p) @
     (if force_query u \<or> raw_query u \<noteq> [] then ''?'' @ raw_query u else [])"

definition backend_identity :: "backend \<Rightarrow> string \<times> string option" where
  "backend_identity x = (b_name x, map_option url_string (backend_url x))"

primrec inherit_from :: "heap \<Rightarrow> bid list \<Rightarrow> backend \<Rightarrow> backend" where
  "inherit_from old [] x = x"
| "inherit_from old (c # cs) x =
     (if backend_identity x = backend_identity (old c) then set_alive (alive (old c)) x
      else inherit_from old cs x)"

definition inherit_pool :: "handler \<Rightarrow> heap \<Rightarrow> heap \<Rightarrow> string \<times> runtime_pool \<Rightarrow> heap" where
  "inherit_pool oldh old hp np =
     (case map_of (h_pools oldh) (fst np) of
        None \<Rightarrow> hp
      | Some oldp \<Rightarrow>
          foldl (\<lambda>hp b. hp(b := inherit_from old (rp_backends oldp) (hp b))) hp (rp_backends (snd np)))"

definition inherit_backend_health :: "(handler \<times> heap) option \<Rightarrow> handler \<Rightarrow> heap \<Rightarrow> heap" where
  "inherit_backend_health previous h hp =
     (case previous of
        None \<Rightarrow> hp
      | Some (oldh, old) \<Rightarrow> foldl (inherit_pool oldh old) hp (h_pools h))"

section \<open>Dynamic\<close>

text \<open>An atomic pointer to a handler: what new requests load.\<close>

record 'h dynamic =
  dy_current :: 'h

definition new_dynamic :: "'h \<Rightarrow> 'h dynamic" where
  "new_dynamic initial = \<lparr>dy_current = initial\<rparr>"

definition swap :: "'h \<Rightarrow> 'h dynamic \<Rightarrow> 'h dynamic" where
  "swap nx d = d\<lparr>dy_current := nx\<rparr>"

section \<open>What is built\<close>

lemma build_backends_ok:
  assumes "\<forall>b \<in> set bs. parse (bc_url b) \<noteq> None" "\<forall>c. active (hp c) = 0"
  shows "\<exists>hp'. build_backends parse nx hp bs = Inr ([nx..<nx + length bs], nx + length bs, hp') \<and>
    (\<forall>c. active (hp' c) = 0) \<and> (\<forall>c. c < nx \<or> nx + length bs \<le> c \<longrightarrow> hp' c = hp c) \<and>
    (\<forall>c \<in> {nx..<nx + length bs}. b_url (hp' c) \<noteq> None \<and> alive (hp' c))"
  using assms
proof (induction bs arbitrary: nx hp)
  case (Cons b bs)
  then obtain u where u: "parse (bc_url b) = Some u" by auto
  let ?hp = "hp(nx := new_backend (bc_name b) (Some u))"
  have "\<forall>c. active (?hp c) = 0" using Cons.prems(2) by (simp add: new_backend_def)
  then have "\<exists>hp'. build_backends parse (nx + 1) ?hp bs = Inr ([nx + 1..<nx + 1 + length bs], nx + 1 + length bs, hp') \<and>
      (\<forall>c. active (hp' c) = 0) \<and> (\<forall>c. c < nx + 1 \<or> nx + 1 + length bs \<le> c \<longrightarrow> hp' c = ?hp c) \<and>
      (\<forall>c \<in> {nx + 1..<nx + 1 + length bs}. b_url (hp' c) \<noteq> None \<and> alive (hp' c))"
    by (intro Cons.IH) (use Cons.prems(1) in auto)
  then obtain hp' where
    hp': "build_backends parse (nx + 1) ?hp bs = Inr ([nx + 1..<nx + 1 + length bs], nx + 1 + length bs, hp')"
      "\<forall>c. active (hp' c) = 0" "\<forall>c. c < nx + 1 \<or> nx + 1 + length bs \<le> c \<longrightarrow> hp' c = ?hp c"
      "\<forall>c \<in> {nx + 1..<nx + 1 + length bs}. b_url (hp' c) \<noteq> None \<and> alive (hp' c)"
    by blast
  have "hp' nx = new_backend (bc_name b) (Some u)" using hp'(3) by simp
  then have "b_url (hp' nx) \<noteq> None \<and> alive (hp' nx)" by (simp add: new_backend_def clone_url_def)
  moreover have "c = nx \<or> c \<in> {nx + 1..<nx + 1 + length bs}" if "c \<in> {nx..<nx + length (b # bs)}" for c
    using that by auto
  ultimately have "\<forall>c \<in> {nx..<nx + length (b # bs)}. b_url (hp' c) \<noteq> None \<and> alive (hp' c)"
    using hp'(4) by blast
  moreover have "build_backends parse nx hp (b # bs) =
      Inr ([nx..<nx + length (b # bs)], nx + length (b # bs), hp')"
    using hp'(1) upt_conv_Cons [of nx "nx + length (b # bs)"] by (simp add: u del: upt_Suc)
  moreover have "\<forall>c. c < nx \<or> nx + length (b # bs) \<le> c \<longrightarrow> hp' c = hp c" using hp'(3) by auto
  ultimately show ?case using hp'(2) by blast
qed simp

text \<open>What each pool becomes: its own backends, all of them new, and its retry and health settings.\<close>

definition pool_built :: "heap \<Rightarrow> bid \<Rightarrow> bid \<Rightarrow> string \<times> pool \<Rightarrow> string \<times> runtime_pool \<Rightarrow> bool" where
  "pool_built hp lo hi np nrp \<longleftrightarrow>
     fst nrp = fst np \<and> length (rp_backends (snd nrp)) = length (p_backends (snd np)) \<and>
     rp_max_attempts (snd nrp) = retry_max_attempts (snd np) \<and>
     rp_passive_threshold (snd nrp) = unhealthy_threshold (p_health (snd np)) \<and>
     (\<forall>c \<in> set (rp_backends (snd nrp)). lo \<le> c \<and> c < hi \<and> b_url (hp c) \<noteq> None \<and> alive (hp c))"

lemma pool_built_later:
  assumes "pool_built hp1 lo mid np nrp" "\<forall>c < mid. hp2 c = hp1 c" "lo' \<le> lo" "mid \<le> hi"
  shows "pool_built hp2 lo' hi np nrp"
  using assms by (fastforce simp: pool_built_def)

lemma build_pools_ok:
  assumes "\<forall>np \<in> set ps. tr (snd np) = None \<and> (\<forall>b \<in> set (p_backends (snd np)). parse (bc_url b) \<noteq> None)"
    and "\<forall>c. active (hp c) = 0"
  shows "\<exists>rps n hp'. build_pools parse tr nx hp ps = Inr (rps, n, hp') \<and> nx \<le> n \<and>
    (\<forall>c. active (hp' c) = 0) \<and> (\<forall>c < nx. hp' c = hp c) \<and> list_all2 (pool_built hp' nx n) ps rps \<and>
    concat (map (\<lambda>x. rp_backends (snd x)) rps) = [nx..<n]"
  using assms
proof (induction ps arbitrary: nx hp)
  case (Cons np ps)
  let ?bs = "p_backends (snd np)"
  obtain hp1 where hp1: "build_backends parse nx hp ?bs = Inr ([nx..<nx + length ?bs], nx + length ?bs, hp1)"
      "\<forall>c. active (hp1 c) = 0" "\<forall>c. c < nx \<or> nx + length ?bs \<le> c \<longrightarrow> hp1 c = hp c"
      "\<forall>c \<in> {nx..<nx + length ?bs}. b_url (hp1 c) \<noteq> None \<and> alive (hp1 c)"
    using build_backends_ok [of ?bs parse hp nx] Cons.prems by auto
  obtain rps n hp2 where hp2: "build_pools parse tr (nx + length ?bs) hp1 ps = Inr (rps, n, hp2)"
      "nx + length ?bs \<le> n" "\<forall>c. active (hp2 c) = 0" "\<forall>c < nx + length ?bs. hp2 c = hp1 c"
      "list_all2 (pool_built hp2 (nx + length ?bs) n) ps rps"
      "concat (map (\<lambda>x. rp_backends (snd x)) rps) = [nx + length ?bs..<n]"
    using Cons.IH [of hp1 "nx + length ?bs"] Cons.prems(1) hp1(2) by auto
  let ?rp = "\<lparr>rp_backends = [nx..<nx + length ?bs], rp_max_attempts = retry_max_attempts (snd np),
    rp_passive_threshold = unhealthy_threshold (p_health (snd np))\<rparr>"
  have "pool_built hp1 nx (nx + length ?bs) np (fst np, ?rp)"
    using hp1(4) by (auto simp: pool_built_def)
  then have "pool_built hp2 nx n np (fst np, ?rp)"
    by (rule pool_built_later) (use hp2(2,4) in auto)
  moreover have "list_all2 (pool_built hp2 nx n) ps rps"
    using hp2(5) by (rule list_all2_mono) (auto intro: pool_built_later)
  moreover have "build_pools parse tr nx hp (np # ps) = Inr ((fst np, ?rp) # rps, n, hp2)"
    using Cons.prems(1) by (simp add: hp1(1) hp2(1) Let_def)
  moreover have "concat (map (\<lambda>x. rp_backends (snd x)) ((fst np, ?rp) # rps)) = [nx..<n]"
    using hp2(2,6) upt_add_eq_append [of nx "nx + length ?bs" "n - (nx + length ?bs)"] by simp
  moreover have "\<forall>c < nx. hp2 c = hp c" using hp2(4) hp1(3) by auto
  ultimately show ?case using hp2(2,3) by (intro exI [of _ "(fst np, ?rp) # rps"]) auto
qed simp

lemma build_pools_error:
  assumes "\<forall>np \<in> set ps. \<forall>b \<in> set (p_backends (snd np)). parse (bc_url b) \<noteq> None" "\<forall>c. active (hp c) = 0"
    and "build_pools parse tr nx hp ps = Inl e"
  shows "\<exists>np \<in> set ps. \<exists>x. tr (snd np) = Some x \<and> e = PoolTransport (fst np) x"
  using assms
proof (induction ps arbitrary: nx hp)
  case (Cons np ps)
  let ?bs = "p_backends (snd np)"
  obtain hp1 where hp1: "build_backends parse nx hp ?bs = Inr ([nx..<nx + length ?bs], nx + length ?bs, hp1)"
      "\<forall>c. active (hp1 c) = 0"
    using build_backends_ok [of ?bs parse hp nx] Cons.prems by auto
  show ?case
  proof (cases "tr (snd np)")
    case None
    with Cons.prems(3) hp1(1) have "build_pools parse tr (nx + length ?bs) hp1 ps = Inl e"
      by (auto simp: Let_def split: sum.splits)
    with Cons.IH [of hp1 "nx + length ?bs"] Cons.prems(1) hp1(2) show ?thesis by auto
  qed (use Cons.prems(3) in auto)
qed simp

lemma build_pools_success:
  "build_pools parse tr nx hp ps = Inr r \<Longrightarrow> \<forall>np \<in> set ps. tr (snd np) = None"
proof (induction ps arbitrary: nx hp r)
  case (Cons np ps)
  then show ?case by (auto simp: Let_def split: option.splits sum.splits prod.splits)
qed simp

lemma build_limiters_other: "name \<notin> rt_name ` set rts \<Longrightarrow> build_limiters rts acc name = acc name"
  by (induction rts arbitrary: acc) auto

lemma build_limiters_ok:
  "distinct (map rt_name rts) \<Longrightarrow> rt \<in> set rts \<Longrightarrow> acc (rt_name rt) = None \<Longrightarrow>
   build_limiters rts acc (rt_name rt) =
     (if rl_enabled (rt_rate_limit rt) then Some (new_rate_limiter (rt_rate_limit rt)) else None)"
proof (induction rts arbitrary: acc)
  case (Cons x rts)
  show ?case
  proof (cases "rt = x")
    case True
    with Cons.prems show ?thesis by (simp add: build_limiters_other)
  next
    case False
    with Cons.prems have "rt \<in> set rts" "rt_name x \<noteq> rt_name rt" by auto
    with Cons show ?thesis by simp
  qed
qed simp

lemma valid_client_policy:
  assumes "well_formed_client_ip c"
  shows "\<exists>p. new_client_ip_policy c = Inr p"
proof -
  have trusted: "\<exists>ps. parse_trusted cs = Inr ps \<and> length ps = length cs"
    if "\<forall>x \<in> set cs. parse_prefix x \<noteq> None" for cs
    using that by (induction cs) auto
  have "check_headers i hs seen = None"
    if "\<forall>h \<in> set hs. trim_space h = h" "to_lower ` set hs \<subseteq> {''x-forwarded-for'', ''x-real-ip''}"
      "distinct (map to_lower hs)" "to_lower ` set hs \<inter> seen = {}" for hs i seen
    using that by (induction hs arbitrary: i seen) (auto simp: Let_def)
  with assms have "check_headers 0 (ci_headers c) {} = None" by (simp add: well_formed_client_ip_def)
  moreover obtain ps where "parse_trusted (trusted_proxies c) = Inr ps" "length ps = length (trusted_proxies c)"
    using trusted [of "trusted_proxies c"] assms by (auto simp: well_formed_client_ip_def)
  ultimately show ?thesis using assms by (auto simp: new_client_ip_policy_def well_formed_client_ip_def)
qed

section \<open>A valid configuration gives a complete handler\<close>

text \<open>Every route finds its pool and its balancer, and every backend has a URL.\<close>

definition complete :: "handler \<Rightarrow> shared \<Rightarrow> bool" where
  "complete h sh \<longleftrightarrow>
     (\<forall>rt \<in> set (h_router h). map_of (h_pools h) (rt_pool rt) \<noteq> None \<and>
        sh_balancers sh (rt_pool rt, strategy rt) \<noteq> None) \<and>
     (\<forall>(name, p) \<in> set (h_pools h). \<forall>b \<in> set (rp_backends p). b_url (sh_heap sh b) \<noteq> None)"

lemma well_formed_parses:
  assumes "well_formed parse cfg" "np \<in> set (pools cfg)" "b \<in> set (p_backends (snd np))"
  shows "parse (bc_url b) \<noteq> None"
proof -
  have "well_formed_pool parse np" using assms(1,2) unfolding well_formed_def list_all_iff by blast
  then have "\<exists>u. parse (bc_url b) = Some u"
    using assms(3) unfolding well_formed_pool_def split_beta by blast
  then show ?thesis by auto
qed

lemma well_formed_routes:
  assumes "well_formed parse cfg" "rt \<in> set (routes cfg)"
  shows "rt_pool rt \<in> fst ` set (pools cfg)" "strategy rt \<in> {''round_robin'', ''least_connections''}"
  using assms by (auto simp: well_formed_def well_formed_route_def list_all_iff)

lemma list_all2_keys:
  assumes "list_all2 (pool_built hp lo hi) ps rps"
  shows "map fst rps = map fst ps"
  using assms by (induction rule: list_all2_induct) (auto simp: pool_built_def)

lemma list_all2_backends:
  assumes "list_all2 (pool_built hp lo hi) ps rps" "nrp \<in> set rps"
  shows "\<exists>np \<in> set ps. pool_built hp lo hi np nrp"
  using assms by (induction rule: list_all2_induct) auto

lemma build_balancers_found:
  "pl \<in> fst ` set ps \<Longrightarrow> st \<in> {''round_robin'', ''least_connections''} \<Longrightarrow> build_balancers ps (pl, st) \<noteq> None"
  by (auto simp: build_balancers_def map_of_eq_None_iff)

lemma new_handler_built:
  assumes wf: "well_formed parse cfg" and bound: "2 * c_max_bytes (c_cache cfg) \<le> max_int64"
    and new: "new_handler parse tr observed clean parse_time cfg = Inr (h, sh)"
  shows "fresh_handler h sh \<and> complete h sh \<and> ready h (sh_heap sh) \<and>
    list_all2 (\<lambda>np nrp. fst nrp = fst np \<and> rp_max_attempts (snd nrp) = retry_max_attempts (snd np) \<and>
        length (rp_backends (snd nrp)) = length (p_backends (snd np))) (pools cfg) (h_pools h) \<and>
    (\<forall>rt \<in> set (routes cfg). sh_limiters sh (rt_name rt) =
       (if rl_enabled (rt_rate_limit rt) then Some (new_rate_limiter (rt_rate_limit rt)) else None))"
proof -
  have url: "\<forall>np \<in> set (pools cfg). \<forall>b \<in> set (p_backends (snd np)). parse (bc_url b) \<noteq> None"
    using well_formed_parses [OF wf] by blast
  obtain policy where policy: "new_client_ip_policy (c_client_ip cfg) = Inr policy"
    using valid_client_policy wf unfolding well_formed_def by blast
  have valid: "validate parse cfg = []" using wf by (simp add: validate_ok_iff)
  obtain rps n hp where pools: "build_pools parse tr 0 empty_heap (pools cfg) = Inr (rps, n, hp)"
    using new valid policy
    by (cases "build_pools parse tr 0 empty_heap (pools cfg)") (auto simp: new_handler_def)
  note built_as = new [unfolded new_handler_def, simplified valid policy pools, simplified]
  have h: "h_router h = routes cfg" "h_pools h = rps" "h_capacity h = max_concurrent_requests (c_limits cfg)"
      "h_max_cache_body h = c_max_bytes (c_cache cfg)"
    and sh: "sh_heap sh = hp" "sh_balancers sh = build_balancers (pools cfg)"
      "sh_limiters sh = build_limiters (routes cfg) (\<lambda>_. None)" "sh_slots sh = 0" "sh_in_flight sh = 0"
      "sh_capture sh = 0" "sh_cache sh = new_cache (c_max_entries (c_cache cfg)) (c_max_bytes (c_cache cfg))"
    using built_as [THEN conjunct1, symmetric] built_as [THEN conjunct2, symmetric]
    by (simp_all add: new_router_def)
  have "\<forall>np \<in> set (pools cfg). tr (snd np) = None"
    using build_pools_success [OF pools] .
  with build_pools_ok [of "pools cfg" tr parse empty_heap 0] url pools
  have built: "list_all2 (pool_built hp 0 n) (pools cfg) rps" "\<forall>c. active (hp c) = 0"
    by (auto simp: empty_heap_def new_backend_def)
  have nonempty: "p_backends (snd np) \<noteq> []" if "np \<in> set (pools cfg)" for np
    using wf that by (auto simp: well_formed_def well_formed_pool_def list_all_iff)
  have live: "b_url (hp b) \<noteq> None \<and> alive (hp b)" if "nrp \<in> set rps" "b \<in> set (rp_backends (snd nrp))" for nrp b
    using list_all2_backends [OF built(1) that(1)] that(2) by (auto simp: pool_built_def)
  have some: "rp_backends (snd nrp) \<noteq> []" if "nrp \<in> set rps" for nrp
    using list_all2_backends [OF built(1) that] nonempty by (fastforce simp: pool_built_def)
  have keys: "fst ` set rps = fst ` set (pools cfg)"
    using list_all2_keys [OF built(1)] by (metis set_map)
  have bounds: "0 < max_concurrent_requests (c_limits cfg)" "0 < c_max_entries (c_cache cfg)" "0 < c_max_bytes (c_cache cfg)"
    and names: "distinct (map rt_name (routes cfg))" and routes: "routes cfg \<noteq> []"
    using wf by (auto simp: well_formed_def well_formed_bounds_def)
  have "fresh_handler h sh"
    using bounds bound built(2) cache_inv_new [of "c_max_entries (c_cache cfg)" "c_max_bytes (c_cache cfg)"]
    by (auto simp: fresh_handler_def h sh is_int64_def min_int64_def max_int64_def)
  moreover have "complete h sh"
    using well_formed_routes [OF wf] live build_balancers_found [of _ "pools cfg"]
    by (fastforce simp: complete_def h sh map_of_eq_None_iff keys)
  moreover have "ready h (sh_heap sh)"
  proof -
    obtain rt where "rt \<in> set (routes cfg)" using routes by (cases "routes cfg") auto
    with well_formed_routes(1) [OF wf] keys have "rps \<noteq> []" by auto
    moreover have "\<exists>b \<in> set (rp_backends (snd nrp)). alive (hp b)" if "nrp \<in> set rps" for nrp
      using some [OF that] live [OF that] by (cases "rp_backends (snd nrp)") auto
    ultimately show ?thesis by (fastforce simp: ready_def h sh list_all_iff list_ex_iff)
  qed
  moreover have "list_all2 (\<lambda>np nrp. fst nrp = fst np \<and> rp_max_attempts (snd nrp) = retry_max_attempts (snd np) \<and>
      length (rp_backends (snd nrp)) = length (p_backends (snd np))) (pools cfg) (h_pools h)"
    unfolding h by (rule list_all2_mono [OF built(1)]) (auto simp: pool_built_def)
  ultimately show ?thesis by (simp add: sh build_limiters_ok [OF names])
qed

lemma new_handler_fails:
  assumes "new_handler parse tr observed clean parse_time cfg = Inl e"
  shows "validate parse cfg \<noteq> [] \<and> e = InvalidConfig (validate parse cfg) \<or>
    (\<exists>np \<in> set (pools cfg). \<exists>x. tr (snd np) = Some x \<and> e = PoolTransport (fst np) x)"
proof (cases "validate parse cfg = []")
  case True
  then have wf: "well_formed parse cfg" by (simp add: validate_ok_iff)
  then obtain p where "new_client_ip_policy (c_client_ip cfg) = Inr p"
    using valid_client_policy unfolding well_formed_def by blast
  with assms True have "build_pools parse tr 0 empty_heap (pools cfg) = Inl e"
    by (auto simp: new_handler_def split: sum.splits prod.splits)
  then show ?thesis
    using build_pools_error [of "pools cfg" parse empty_heap tr 0 e] well_formed_parses [OF wf]
    by (auto simp: empty_heap_def new_backend_def)
qed (use assms in \<open>simp add: new_handler_def\<close>)

text \<open>
  C17. \<open>NewHandler\<close> is sound: it fails only for an invalid configuration or a TLS file that cannot
  be loaded (its checks of the client identity policy and of the backend URLs never fire), and
  otherwise the handler is ready, nothing is in use, every route has its pool and its balancer,
  every backend its URL, every pool its retry bound, and exactly the routes that ask for it
  have a rate limiter.
\<close>

theorem new_handler_sound:
  assumes "2 * c_max_bytes (c_cache cfg) \<le> max_int64"
  shows "case new_handler parse tr observed clean parse_time cfg of
      Inl e \<Rightarrow> validate parse cfg \<noteq> [] \<and> e = InvalidConfig (validate parse cfg) \<or>
        (\<exists>np \<in> set (pools cfg). \<exists>x. tr (snd np) = Some x \<and> e = PoolTransport (fst np) x)
    | Inr (h, sh) \<Rightarrow> validate parse cfg = [] \<and> fresh_handler h sh \<and> complete h sh \<and> ready h (sh_heap sh) \<and>
        list_all2 (\<lambda>np nrp. fst nrp = fst np \<and> rp_max_attempts (snd nrp) = retry_max_attempts (snd np) \<and>
          length (rp_backends (snd nrp)) = length (p_backends (snd np))) (pools cfg) (h_pools h) \<and>
        (\<forall>rt \<in> set (routes cfg). sh_limiters sh (rt_name rt) =
           (if rl_enabled (rt_rate_limit rt) then Some (new_rate_limiter (rt_rate_limit rt)) else None))"
proof (cases "new_handler parse tr observed clean parse_time cfg")
  case (Inl e)
  with new_handler_fails [OF Inl] show ?thesis by simp
next
  case (Inr r)
  obtain h sh where r: "r = (h, sh)" by (cases r)
  have "validate parse cfg = []" using Inr by (auto simp: new_handler_def split: if_splits)
  then have "well_formed parse cfg" by (simp add: validate_ok_iff)
  from new_handler_built [OF this assms Inr [unfolded r]] \<open>validate parse cfg = []\<close> show ?thesis
    by (simp add: Inr r)
qed

definition demo_built :: "new_handler_error + (handler \<times> shared)" where
  "demo_built = new_handler demo_parse (\<lambda>_. None) False (\<lambda>q. q) (\<lambda>_. None)
     (demo_config [plain_route ''api'' [] ''/api'' ''main''])"

theorem new_handler_sound_witness:
  "case demo_built of Inl e \<Rightarrow> False | Inr (h, sh) \<Rightarrow> fresh_handler h sh \<and> complete h sh \<and> ready h (sh_heap sh)"
proof -
  let ?cfg = "demo_config [plain_route ''api'' [] ''/api'' ''main'']"
  have "2 * c_max_bytes (c_cache ?cfg) \<le> max_int64"
    by (simp add: demo_config_def default_config_def max_int64_def)
  note sound = new_handler_sound [OF this, of demo_parse "\<lambda>_. None" False "\<lambda>q. q" "\<lambda>_. None",
      folded demo_built_def]
  show ?thesis
  proof (cases demo_built)
    case (Inl e)
    from sound [unfolded Inl sum.case] demo_config_valid show ?thesis by auto
  next
    case (Inr r)
    from sound [unfolded Inr sum.case] show ?thesis unfolding Inr sum.case by (cases r) simp
  qed
qed

section \<open>Health across a reload\<close>

lemma inherit_from_find:
  "inherit_from old cs x =
     (case find (\<lambda>c. backend_identity (old c) = backend_identity x) cs of
        None \<Rightarrow> x | Some c \<Rightarrow> set_alive (alive (old c)) x)"
  by (induction cs) auto

lemma foldl_update:
  "distinct bs \<Longrightarrow> foldl (\<lambda>hp b. hp(b := f (hp b))) hp bs c = (if c \<in> set bs then f (hp c) else hp c)"
  by (induction bs arbitrary: hp) auto

definition inherited :: "handler \<Rightarrow> heap \<Rightarrow> string \<Rightarrow> backend \<Rightarrow> backend" where
  "inherited oldh old name x =
     (case map_of (h_pools oldh) name of None \<Rightarrow> x | Some oldp \<Rightarrow> inherit_from old (rp_backends oldp) x)"

lemma inherit_loop:
  assumes "distinct (concat (map (\<lambda>x. rp_backends (snd x)) ps))"
  shows "((name, p) \<in> set ps \<longrightarrow> c \<in> set (rp_backends p) \<longrightarrow>
      foldl (inherit_pool oldh old) hp ps c = inherited oldh old name (hp c)) \<and>
    (c \<notin> set (concat (map (\<lambda>x. rp_backends (snd x)) ps)) \<longrightarrow> foldl (inherit_pool oldh old) hp ps c = hp c)"
  using assms
proof (induction ps arbitrary: hp)
  case (Cons np ps)
  obtain nm q where np: "np = (nm, q)" by (cases np)
  from Cons.prems have dist: "distinct (rp_backends q)" "distinct (concat (map (\<lambda>x. rp_backends (snd x)) ps))"
      "set (rp_backends q) \<inter> set (concat (map (\<lambda>x. rp_backends (snd x)) ps)) = {}"
    by (auto simp: np)
  have head: "inherit_pool oldh old hp np c = (if c \<in> set (rp_backends q) then inherited oldh old nm (hp c) else hp c)"
    by (auto simp: np inherit_pool_def inherited_def foldl_update [OF dist(1)] split: option.splits)
  from Cons.IH [OF dist(2), of "inherit_pool oldh old hp np"] have tail:
      "(name, p) \<in> set ps \<Longrightarrow> c \<in> set (rp_backends p) \<Longrightarrow> foldl (inherit_pool oldh old) (inherit_pool oldh old hp np) ps c = inherited oldh old name (inherit_pool oldh old hp np c)"
      "c \<notin> set (concat (map (\<lambda>x. rp_backends (snd x)) ps)) \<Longrightarrow> foldl (inherit_pool oldh old) (inherit_pool oldh old hp np) ps c = inherit_pool oldh old hp np c"
    by auto
  have later: "c \<in> set (concat (map (\<lambda>x. rp_backends (snd x)) ps))" if "(name, p) \<in> set ps" "c \<in> set (rp_backends p)"
    using that by force
  show ?case
  proof (cases "c \<in> set (rp_backends q)")
    case True
    then have "c \<notin> set (concat (map (\<lambda>x. rp_backends (snd x)) ps))" using dist(3) by blast
    with tail(2) head True later show ?thesis by (auto simp: np)
  next
    case False
    with tail head show ?thesis by (auto simp: np)
  qed
qed simp

lemma new_handler_bids:
  assumes "well_formed parse cfg" "new_handler parse tr observed clean parse_time cfg = Inr (h, sh)"
  shows "distinct (concat (map (\<lambda>x. rp_backends (snd x)) (h_pools h)))"
proof -
  obtain policy where "new_client_ip_policy (c_client_ip cfg) = Inr policy"
    using valid_client_policy assms(1) unfolding well_formed_def by blast
  moreover have "validate parse cfg = []" using assms(1) by (simp add: validate_ok_iff)
  ultimately obtain rps n hp where pools: "build_pools parse tr 0 empty_heap (pools cfg) = Inr (rps, n, hp)"
    and h: "h_pools h = rps"
    using assms(2) by (cases "build_pools parse tr 0 empty_heap (pools cfg)") (auto simp: new_handler_def)
  from build_pools_ok [of "pools cfg" tr parse empty_heap 0] pools build_pools_success [OF pools]
    well_formed_parses [OF assms(1)]
  have "concat (map (\<lambda>x. rp_backends (snd x)) rps) = [0..<n]" by (auto simp: empty_heap_def new_backend_def)
  then show ?thesis by (simp add: h)
qed

text \<open>
  C30. \<open>InheritBackendHealth\<close> carries eligibility over exactly: a backend of a pool that existed
  before takes the state of the first old backend of that pool with the same name and URL, with
  fresh counters; every other backend, in particular one whose name or URL changed, stays as new.
\<close>

theorem inherit_exact:
  assumes "validate parse cfg = []" and "new_handler parse tr observed clean parse_time cfg = Inr (h, sh)"
    and "(name, p) \<in> set (h_pools h)" and "b \<in> set (rp_backends p)"
  shows "inherit_backend_health (Some (oldh, old)) h (sh_heap sh) b =
    (case map_of (h_pools oldh) name of
       None \<Rightarrow> sh_heap sh b
     | Some oldp \<Rightarrow>
         (case find (\<lambda>c. b_name (old c) = b_name (sh_heap sh b) \<and>
                map_option url_string (backend_url (old c)) = map_option url_string (backend_url (sh_heap sh b)))
              (rp_backends oldp) of
            None \<Rightarrow> sh_heap sh b
          | Some c \<Rightarrow> set_alive (alive (old c)) (sh_heap sh b)))"
proof -
  have "well_formed parse cfg" using assms(1) by (simp add: validate_ok_iff)
  from inherit_loop [OF new_handler_bids [OF this assms(2)], of name p b oldh old "sh_heap sh"] assms(3,4)
  have "inherit_backend_health (Some (oldh, old)) h (sh_heap sh) b = inherited oldh old name (sh_heap sh b)"
    by (simp add: inherit_backend_health_def)
  then show ?thesis by (simp add: inherited_def inherit_from_find backend_identity_def split: option.splits)
qed

text \<open>The demonstration handler, reloaded with the same configuration after all its backends failed.\<close>

theorem inherit_exact_witness:
  "case demo_built of
     Inl e \<Rightarrow> False
   | Inr (h, sh) \<Rightarrow> \<forall>(name, p) \<in> set (h_pools h). \<forall>b \<in> set (rp_backends p).
       \<not> alive (inherit_backend_health (Some (h, \<lambda>b. set_alive False (sh_heap sh b))) h (sh_heap sh) b)"
proof -
  let ?cfg = "demo_config [plain_route ''api'' [] ''/api'' ''main'']"
  have wf: "well_formed demo_parse ?cfg" using demo_config_valid by (simp add: validate_ok_iff)
  show ?thesis
  proof (cases demo_built)
    case (Inl e)
    from new_handler_fails [OF this [unfolded demo_built_def]] demo_config_valid show ?thesis by auto
  next
    case (Inr r)
    obtain h sh where r: "r = (h, sh)" by (cases r)
    note new = Inr [unfolded demo_built_def r]
    have "2 * c_max_bytes (c_cache ?cfg) \<le> max_int64"
      by (simp add: demo_config_def default_config_def max_int64_def)
    from new_handler_built [OF wf this new] obtain q where one: "h_pools h = [(''main'', q)]"
      by (auto simp: demo_config_def list_all2_Cons1)
    have "\<not> alive (inherit_backend_health (Some (h, \<lambda>b. set_alive False (sh_heap sh b))) h (sh_heap sh) b)"
      if "b \<in> set (rp_backends q)" for b
    proof -
      have "find (\<lambda>c. b_name (set_alive False (sh_heap sh c)) = b_name (sh_heap sh b) \<and>
          map_option url_string (backend_url (set_alive False (sh_heap sh c))) =
          map_option url_string (backend_url (sh_heap sh b))) (rp_backends q) \<noteq> None"
        using that by (auto simp: find_None_iff set_alive_def backend_url_def)
      then show ?thesis
        using inherit_exact [OF demo_config_valid new, of "''main''" q b h "\<lambda>b. set_alive False (sh_heap sh b)"] that
        by (auto simp: one set_alive_def split: option.splits)
    qed
    then show ?thesis unfolding Inr r sum.case prod.case by (simp add: one)
  qed
qed

end
