(* ===== verification/ProxySafe.thy ===== *)
theory ProxySafe
  imports NewHandler ProxyFlow
begin

text \<open>
  What never happens in a handler, in any interleaving: a panic on a missing route, pool,
  balancer or URL. And what can happen: a backend's handle that is never given back, and a base path that is joined twice.
\<close>

section \<open>No request panics\<close>

definition keeps :: "shared \<Rightarrow> shared \<Rightarrow> bool" where
  "keeps sh sh' \<longleftrightarrow> (\<forall>b. b_url (sh_heap sh' b) = b_url (sh_heap sh b)) \<and>
     (\<forall>k. sh_balancers sh k \<noteq> None \<longrightarrow> sh_balancers sh' k \<noteq> None)"

lemma complete_keeps: "complete h sh \<Longrightarrow> keeps sh sh' \<Longrightarrow> complete h sh'"
  by (simp add: complete_def keeps_def)

definition sound_thread :: "handler \<Rightarrow> thread \<Rightarrow> bool" where
  "sound_thread h t \<longleftrightarrow> \<not> th_panicked t \<and>
     (\<forall>rt. th_route t = Some rt \<longrightarrow> rt \<in> set (h_router h)) \<and>
     (th_pc t \<in> {Limiting, Slotting, Caching, Selecting, Acquiring, Attempting, Failed, Reselecting, Reacquiring} \<longrightarrow>
        th_route t \<noteq> None) \<and>
     (th_pc t \<in> {Acquiring, Attempting, Failed, Reselecting, Reacquiring} \<longrightarrow>
        th_selected t \<in> set (rp_backends (the_pool h t)))"

lemma route_match_in: "route_match rs hst p = Some rt \<Longrightarrow> rt \<in> set rs"
  by (auto simp: match_first_best first_best_def dest!: arg_cong [where f = set]) (auto simp: eligible_def)

lemma sound_the_pool:
  assumes "complete h sh" "sound_thread h t" "th_route t \<noteq> None"
  shows "map_of (h_pools h) (rt_pool (the_route t)) = Some (the_pool h t)"
    and "sh_balancers sh (rt_pool (the_route t), strategy (the_route t)) \<noteq> None"
    and "\<And>b. b \<in> set (rp_backends (the_pool h t)) \<Longrightarrow> b_url (sh_heap sh b) \<noteq> None"
proof -
  obtain rt where rt: "th_route t = Some rt" "rt \<in> set (h_router h)"
    using assms(2,3) by (auto simp: sound_thread_def)
  then show p: "map_of (h_pools h) (rt_pool (the_route t)) = Some (the_pool h t)"
    using assms(1) by (auto simp: complete_def the_route_def route_or_zero_def the_pool_def pool_or_zero_def split: option.splits)
  show "sh_balancers sh (rt_pool (the_route t), strategy (the_route t)) \<noteq> None"
    using assms(1) rt by (auto simp: complete_def the_route_def route_or_zero_def)
  show "b_url (sh_heap sh b) \<noteq> None" if "b \<in> set (rp_backends (the_pool h t))" for b
    using assms(1) map_of_SomeD [OF p] that by (fastforce simp: complete_def)
qed

text \<open>The operations on a backend leave its URL alone.\<close>

lemma url_frame [simp]:
  "b_url (sh_heap (acquire_backend h pl b sh) c) = b_url (sh_heap sh c)"
  "b_url (sh_heap (release_backend h pl b f sh) c) = b_url (sh_heap sh c)"
  "b_url (snd (record_passive_failure th x)) = b_url x" "b_url (record_passive_success x) = b_url x"
  "b_url (health_step hl uh x e) = b_url x"
  by (simp_all add: acquire_backend_def release_backend_def update_backend_def acquire_def release_def
      record_passive_failure_def record_passive_success_def Let_def split: health_event.split)
     (cases e; simp add: backend_ops Let_def)

lemma url_update [simp]:
  "b_url x = b_url (sh_heap sh b) \<Longrightarrow> b_url (sh_heap (update_backend b x sh) c) = b_url (sh_heap sh c)"
  by (simp add: update_backend_def)

lemma balancers_frame [simp]:
  "sh_balancers (acquire_backend h pl b sh) = sh_balancers sh"
  "sh_balancers (release_backend h pl b f sh) = sh_balancers sh"
  "sh_balancers (update_backend b x sh) = sh_balancers sh"
  by (simp_all add: acquire_backend_def release_backend_def update_backend_def Let_def)

lemma release_held_keeps: "release_held h sh t = (sh', t') \<Longrightarrow> keeps sh sh' \<and> t' = t\<lparr>th_held := None\<rparr> \<or> sh' = sh \<and> t' = t"
  by (auto simp: release_held_def keeps_def split: option.splits)

text \<open>A step that keeps the handler complete and its request sound.\<close>

definition advances :: "handler \<Rightarrow> shared \<Rightarrow> shared \<Rightarrow> thread \<Rightarrow> bool" where
  "advances h sh sh' t' \<longleftrightarrow> keeps sh sh' \<and> sound_thread h t'"

lemma the_pool_cong: "th_route t' = th_route t \<Longrightarrow> the_pool h t' = the_pool h t"
  by (simp add: the_pool_def the_route_def)

lemma keeps_refl: "keeps sh sh"
  by (simp add: keeps_def)

lemma observe_keeps: "keeps sh (observe h ob sh)"
  by (simp add: keeps_def)

lemmas pool_defs = the_pool_def the_route_def

lemma start_sound:
  assumes "th_pc t = Arrived" "sound_thread h t" "serve_start h now sh t = (sh', t')"
  shows "advances h sh sh' t'"
  using assms route_match_in
  by (auto simp: advances_def serve_start_def sound_thread_def Let_def fail_with_def observers keeps_def
      split: if_splits option.splits)

lemma admission_sound:
  "th_pc t = Limiting \<Longrightarrow> sound_thread h t \<Longrightarrow> serve_limit h now sh t = (sh', t') \<Longrightarrow> advances h sh sh' t'"
  "th_pc t = Slotting \<Longrightarrow> sound_thread h t \<Longrightarrow> serve_slot h sh t = (sh', t') \<Longrightarrow> advances h sh sh' t'"
  "th_pc t = Caching \<Longrightarrow> sound_thread h t \<Longrightarrow> serve_cache now sh t = (sh', t') \<Longrightarrow> advances h sh sh' t'"
  by (auto simp: advances_def serve_limit_def serve_slot_def serve_cache_def sound_thread_def Let_def fail_with_def observers
      keeps_def split: if_splits option.splits prod.splits)

lemma select_sound:
  assumes "th_pc t = Selecting" "complete h sh" "sound_thread h t" "serve_select h sh t = (sh', t')"
  shows "advances h sh sh' t'"
proof -
  have rt: "th_route t \<noteq> None" using assms(1,3) by (simp add: sound_thread_def)
  note found = sound_the_pool [OF assms(2,3) rt]
  obtain b where b: "sh_balancers sh (rt_pool (the_route t), strategy (the_route t)) = Some b" using found(2) by auto
  obtain res b' where next_b: "bal_next (sh_heap sh) b (rp_backends (the_pool h t)) = (res, b')" by fastforce
  have "c \<in> set (rp_backends (the_pool h t))" if "res = Inr c" for c
    using bal.picks_live [OF next_b [unfolded that]] by blast
  moreover have "keeps sh sh' \<and> th_route t' = th_route t \<and> th_panicked t' = th_panicked t \<and>
      (th_pc t' = Finishing \<or> th_pc t' = Acquiring \<and> res = Inr (th_selected t'))"
    using assms(4)
    by (auto simp: serve_select_def Let_def found(1) b next_b keeps_def fail_with_def split: sum.splits)
  ultimately show ?thesis
    using assms(3) rt the_pool_cong [of t' t h] by (auto simp: advances_def sound_thread_def)
qed

lemma acquire_sound:
  assumes "th_pc t = Acquiring" "complete h sh" "sound_thread h t" "serve_acquire h sh t = (sh', t')"
  shows "advances h sh sh' t'"
proof -
  have rt: "th_route t \<noteq> None" and sel: "th_selected t \<in> set (rp_backends (the_pool h t))"
    using assms(1,3) by (simp_all add: sound_thread_def)
  obtain u where "b_url (sh_heap sh (th_selected t)) = Some u" using sound_the_pool(3) [OF assms(2,3) rt sel] by auto
  then have u: "backend_url (sh_heap sh (th_selected t)) = Some u" by (simp add: backend_url_def clone_url_def)
  show ?thesis
    using assms(3,4) rt sel
    by (auto simp: advances_def serve_acquire_def Let_def u sound_thread_def keeps_def pool_defs split: if_splits option.splits)
qed

lemma attempt_sound:
  "th_pc t = Attempting \<Longrightarrow> sound_thread h t \<Longrightarrow> attempt_error h e sh t = (sh', t') \<Longrightarrow> advances h sh sh' t'"
  "th_pc t = Attempting \<Longrightarrow> sound_thread h t \<Longrightarrow> attempt_response h resp now sh t = (sh', t') \<Longrightarrow> advances h sh sh' t'"
  "th_pc t = Failed \<Longrightarrow> sound_thread h t \<Longrightarrow> attempt_failed h sh t = (sh', t') \<Longrightarrow> advances h sh sh' t'"
  by (auto simp: advances_def attempt_error_def attempt_response_def attempt_failed_def modify_response_def release_held_def
      sound_thread_def keeps_def Let_def pool_defs split: if_splits option.splits prod.splits)

lemma reselect_sound:
  assumes "th_pc t = Reselecting" "complete h sh" "sound_thread h t" "attempt_reselect h sh t = (sh', t')"
  shows "advances h sh sh' t'"
proof -
  have rt: "th_route t \<noteq> None" using assms(1,3) by (simp add: sound_thread_def)
  note found = sound_the_pool [OF assms(2,3) rt]
  obtain b where b: "sh_balancers sh (rt_pool (the_route t), strategy (the_route t)) = Some b" using found(2) by auto
  obtain res b' where next_b: "next_retry_backend bal_next (sh_heap sh) b (rp_backends (the_pool h t)) (th_selected t) = (res, b')"
    by fastforce
  have "c \<in> set (rp_backends (the_pool h t))" if "res = Inr c" for c
    using bal.retry_picks [OF next_b [unfolded that]] by blast
  moreover have "keeps sh sh' \<and> th_route t' = th_route t \<and> th_panicked t' = th_panicked t \<and>
      (th_pc t' = Finishing \<or> th_pc t' = Reacquiring \<and> res = Inr (th_selected t'))"
    using assms(4)
    by (auto simp: attempt_reselect_def Let_def b next_b keeps_def split: sum.splits)
  ultimately show ?thesis
    using assms(3) rt the_pool_cong [of t' t h] by (auto simp: advances_def sound_thread_def)
qed

lemma reacquire_sound:
  assumes "th_pc t = Reacquiring" "complete h sh" "sound_thread h t" "attempt_reacquire h ge sh t = (sh', t')"
  shows "advances h sh sh' t'"
proof -
  have rt: "th_route t \<noteq> None" and sel: "th_selected t \<in> set (rp_backends (the_pool h t))"
    using assms(1,3) by (simp_all add: sound_thread_def)
  obtain u where "b_url (sh_heap sh (th_selected t)) = Some u" using sound_the_pool(3) [OF assms(2,3) rt sel] by auto
  then have u: "backend_url (sh_heap sh (th_selected t)) = Some u" by (simp add: backend_url_def clone_url_def)
  show ?thesis
    using assms(3,4) rt sel
    by (auto simp: advances_def attempt_reacquire_def release_held_def Let_def u sound_thread_def keeps_def pool_defs
        split: if_splits option.splits)
qed

lemma closing_sound:
  "th_pc t = Closing \<Longrightarrow> sound_thread h t \<Longrightarrow> close_capture sh t = (sh', t') \<Longrightarrow> advances h sh sh' t'"
  "th_pc t = Releasing \<Longrightarrow> sound_thread h t \<Longrightarrow> close_release h sh t = (sh', t') \<Longrightarrow> advances h sh sh' t'"
  "th_pc t = Finishing \<Longrightarrow> sound_thread h t \<Longrightarrow> serve_finish sh t = (sh', t') \<Longrightarrow> advances h sh sh' t'"
  "th_pc t = Reporting \<Longrightarrow> sound_thread h t \<Longrightarrow> serve_report h ident now sh t = (sh', t') \<Longrightarrow> advances h sh sh' t'"
  "th_pc t = Leaving \<Longrightarrow> sound_thread h t \<Longrightarrow> serve_leave sh t = (sh', t') \<Longrightarrow> advances h sh sh' t'"
  "th_pc t = LeaveCheck z \<Longrightarrow> sound_thread h t \<Longrightarrow> serve_leave_check z sh t = (sh', t') \<Longrightarrow> advances h sh sh' t'"
  by (auto simp: advances_def close_capture_def close_release_def release_held_def serve_finish_def serve_report_def
      serve_leave_def serve_leave_check_def close_idle_connections_def sound_thread_def keeps_def Let_def
      split: if_splits option.splits prod.splits)

lemma capture_chunk_keeps:
  "capture_chunk h p eof now1 now2 sh t = Some (sh', t') \<Longrightarrow> sh_heap sh' = sh_heap sh \<and> sh_balancers sh' = sh_balancers sh"
  by (auto simp: capture_chunk_def Let_def split: option.splits prod.splits)

lemma chunk_sound:
  assumes "th_pc t = Streaming" "sound_thread h t" "stream_chunk h p e ok now1 now2 sh t = (sh', t')"
  shows "advances h sh sh' t'"
proof -
  have "sh_heap sh' = sh_heap sh \<and> sh_balancers sh' = sh_balancers sh"
    using assms(3) by (auto simp: stream_chunk_def Let_def dest: capture_chunk_keeps
        split: option.splits prod.splits if_splits read_end.splits)
  with stream_chunk_frame [OF assms(3)] assms(1,2) show ?thesis by (auto simp: advances_def keeps_def sound_thread_def pool_defs)
qed

lemma step_sound:
  assumes "complete h sh" "sound_thread h t" "serve_step h ident i sh t = (sh', t')"
  shows "advances h sh sh' t'"
  using assms(3)
proof (cases rule: step_cases)
  case Stay
  with assms(2) keeps_refl show ?thesis by (simp add: advances_def)
qed (use assms(1,2) in \<open>blast intro: start_sound admission_sound select_sound acquire_sound attempt_sound
       reselect_sound reacquire_sound closing_sound chunk_sound\<close>)+

lemma complete_no_panic:
  assumes init: "complete h sh" and "(ident, t) \<in> set (sy_threads (run_from h sh as))"
  shows "\<not> th_panicked t"
proof -
  have "complete h (sy_shared (run_from h sh as)) \<and> (\<forall>(ident, t) \<in> set (sy_threads (run_from h sh as)). sound_thread h t)"
  proof (rule sys_run_invariant [where I = "complete h" and P = "sound_thread h", OF init])
    show "sound_thread h (new_thread r ident)" for r ident by (simp add: sound_thread_def new_thread_def)
    show "complete h sh' \<and> sound_thread h t'"
      if "complete h sh" "sound_thread h t" "serve_step h ident i sh t = (sh', t')" for ident i sh t sh' t'
      using step_sound [OF that] complete_keeps [OF that(1)] by (simp add: advances_def)
    show "complete h (update_backend b (health_step hl uh (sh_heap sh b) e) sh)" if "complete h sh" for sh b hl uh e
      using that by (rule complete_keeps) (simp add: keeps_def)
    show "complete h (retire_store sh) \<and> complete h (retire_load sh)" if "complete h sh" for sh
      using complete_keeps [OF that]
      by (simp add: keeps_def retire_store_def retire_load_def close_idle_connections_def)
  qed
  with assms(2) have "sound_thread h t" by blast
  then show ?thesis unfolding sound_thread_def by blast
qed



section \<open>What gets lost\<close>

text \<open>
  A response that switches protocols: \<open>ReverseProxy\<close> finds that the wrapped body cannot be
  written to and gives up without closing it, so the backend's handle stays with the request
  when it is done. The active count of the backend never comes down again.
\<close>

lemma switching_protocols_leaks:
  assumes "th_pc t = Attempting" "th_held t = Some b" "up_status resp = 101"
  shows "th_pc (snd (serve_step h ident (RoundTripResponse resp now) sh t)) = Finishing \<and>
    th_held (snd (serve_step h ident (RoundTripResponse resp now) sh t)) = Some b"
  using assms by (simp add: serve_step_def attempt_response_def Let_def)

lemma finishing_keeps_handle:
  assumes "th_pc t \<in> {Finishing, Reporting, Leaving, Done} \<union> range LeaveCheck"
    and "serve_step h ident i sh t = (sh', t')"
  shows "th_held t' = th_held t \<and> th_pc t' \<in> {Finishing, Reporting, Leaving, Done} \<union> range LeaveCheck"
  using assms
  by (cases i) (auto simp: serve_step_def serve_finish_def serve_report_def serve_leave_def serve_leave_check_def
      Let_def split: if_splits)

definition leak_run :: "action list" where
  "leak_run = [Arrive ''1'' (plain_request ''GET'' ''a.test'' ''/api'')] @ replicate 6 (Step 0 (Go 0)) @
     [Step 0 (RoundTripResponse \<lparr>up_status = 101, up_header = [], up_trailers = 0\<rparr> 0)] @ replicate 4 (Step 0 (Go 0))"

lemma leak_run_end:
  "let sy = run_from demo_handler demo_shared leak_run
   in map (\<lambda>(_, t). th_pc t) (sy_threads sy) = [Done] \<and> active (sh_heap (sy_shared sy) 0) = 1"
  by code_simp

text \<open>
  A retry starts from a clone of the request that was already rewritten for the first backend,
  so a base path of the backends is joined twice.
\<close>

lemma retry_path_doubles:
  "path (r_url (retry_request False ((plain_url ''/base'')\<lparr>scheme := ''http'', host := ''b''\<rparr>)
     (plain_request ''GET'' ''a.test'' ''/x'')
     (rewrite_request False ((plain_url ''/base'')\<lparr>scheme := ''http'', host := ''a''\<rparr>) ''a.test'' ''c''
        (plain_request ''GET'' ''a.test'' ''/x'') (plain_request ''GET'' ''a.test'' ''/x'')))) = ''/base/base/x''"
  by code_simp

end
