(* ===== verification/CacheSafe.thy ===== *)
theory CacheSafe
  imports ProxyFlow
begin

text \<open>
  What the cache of a handler ever holds and serves. The handler composes three components: the
  policy decides at the head of a response, the capture commits the body at its end, and the
  store keeps it. The invariant here follows a response through all three, in any interleaving.
\<close>

section \<open>Responses a shared cache may hold\<close>

definition storable :: "int \<Rightarrow> header \<Rightarrow> bool" where
  "storable status h \<longleftrightarrow> status = 200 \<and> hdr_values h ''Set-Cookie'' = [] \<and> hdr_values h ''Vary'' = [] \<and>
     (\<exists>ds. split_cache_control (cache_control_value h) = Some ds \<and>
        (\<forall>d \<in> set ds. directive_name d \<notin> {''no-store'', ''private'', ''no-cache''}))"

definition clean_items :: "item list \<Rightarrow> bool" where
  "clean_items its \<longleftrightarrow> (\<forall>it \<in> set its. storable (resp_status (it_response it)) (resp_header (it_response it)))"

lemma evaluate_storable: "cacheable (evaluate pt now r status h ttl) \<Longrightarrow> storable status h"
  unfolding storable_def by (drule evaluate_safe) blast

lemma abs_get_clean:
  assumes "clean_items its"
  shows "clean_items (snd (abs_get now key its))"
    and "fst (abs_get now key its) = Some r \<Longrightarrow> storable (resp_status r) (resp_header r)"
  using assms
  by (auto simp: abs_get_def clean_items_def without_def find_Some_iff split: option.splits if_splits)

lemma abs_set_clean:
  assumes "clean_items its" "storable (resp_status r) (resp_header r)"
  shows "clean_items (snd (abs_set me mb now1 now2 key r ttl its))"
proof -
  have "set (fit n b xs) \<subseteq> set xs" for n b xs
    using fit_prefix [of xs n b] by (metis set_append sup_ge1)
  with assms show ?thesis
    by (fastforce simp: abs_set_def Let_def clean_items_def without_def simp del: fit.simps)
qed

definition clean_cache :: "shared \<Rightarrow> bool" where
  "clean_cache sh \<longleftrightarrow> cache_inv (sh_cache sh) \<and> clean_items (cache_abs (sh_cache sh))"

lemma cache_get_clean:
  assumes "clean_cache sh" "cache_get (sh_cache sh) now key = (found, c')" "sh_cache sh' = c'"
  shows "clean_cache sh' \<and> (\<forall>r. found = Some r \<longrightarrow> storable (resp_status r) (resp_header r))"
proof -
  have ref: "cache_inv c'" "(found, cache_abs c') = abs_get now key (cache_abs (sh_cache sh))"
    using cache_get_refines [of "sh_cache sh" now key] assms(1,2) by (auto simp: clean_cache_def)
  then have "found = fst (abs_get now key (cache_abs (sh_cache sh)))"
    "cache_abs c' = snd (abs_get now key (cache_abs (sh_cache sh)))" by (metis fst_conv snd_conv)+
  with abs_get_clean [of "cache_abs (sh_cache sh)" now key] assms(1,3) ref(1) show ?thesis
    by (auto simp: clean_cache_def)
qed

lemma cache_set_clean:
  assumes "clean_cache sh" "storable (resp_status r) (resp_header r)"
    and "cache_set (sh_cache sh) now1 now2 key r ttl = Some (ok, c')" "sh_cache sh' = c'"
  shows "clean_cache sh'"
proof -
  have ref: "cache_inv c'" "(ok, cache_abs c') = abs_set (max_entries (sh_cache sh)) (max_bytes (sh_cache sh))
      now1 now2 key r ttl (cache_abs (sh_cache sh))"
    using cache_set_refines [of "sh_cache sh" now1 now2 key r ttl] assms(1,3) by (auto simp: clean_cache_def)
  then have "cache_abs c' = snd (abs_set (max_entries (sh_cache sh)) (max_bytes (sh_cache sh))
      now1 now2 key r ttl (cache_abs (sh_cache sh)))" by (metis snd_conv)
  with abs_set_clean [OF _ assms(2)] assms(1,4) ref(1) show ?thesis by (simp add: clean_cache_def)
qed

section \<open>A request and what it captures or serves\<close>

definition before_response :: "pc set" where
  "before_response = {Arrived, Limiting, Slotting, Caching, Selecting, Acquiring, Attempting, Failed, Reselecting, Reacquiring}"

definition served_from_cache :: "thread \<Rightarrow> bool" where
  "served_from_cache t \<longleftrightarrow> fst (request_eligible (th_req t)) \<and> rt_cache_enabled (the_route t) \<and> th_attempts t = 0 \<and>
     (\<exists>r now w. storable (resp_status r) (resp_header r) \<and> th_w t = write_cached now r w)"

definition clean_thread :: "thread \<Rightarrow> bool" where
  "clean_thread t \<longleftrightarrow>
     (th_pc t \<in> before_response \<longrightarrow> th_capture t = None \<and> th_cache_result t \<noteq> ''hit'') \<and>
     (th_capture t \<noteq> None \<longrightarrow> storable (up_status (th_resp t)) (up_header (th_resp t)) \<and> th_cache_result t \<noteq> ''hit'') \<and>
     (th_pc t \<in> {Streaming, Closing, Releasing} \<longrightarrow> th_cache_result t \<noteq> ''hit'') \<and>
     (th_pc t \<in> {Arrived, Limiting, Slotting, Caching} \<longrightarrow> th_attempts t = 0) \<and>
     (th_cache_result t = ''hit'' \<longrightarrow> served_from_cache t)"

lemmas clean_defs = clean_thread_def before_response_def

lemma served_frame [simp]:
  "served_from_cache (t\<lparr>th_pc := x\<rparr>) = served_from_cache t"
  "served_from_cache (t\<lparr>th_slot := b, th_pc := x\<rparr>) = served_from_cache t"
  "served_from_cache (t\<lparr>th_held := y, th_pc := x\<rparr>) = served_from_cache t"
  "served_from_cache (t\<lparr>th_capture := z, th_pc := x\<rparr>) = served_from_cache t"
  by (simp_all add: served_from_cache_def the_route_def)

lemma clean_admission:
  "th_pc t = Arrived \<Longrightarrow> clean_thread t \<Longrightarrow> serve_start h now sh t = (sh', t') \<Longrightarrow> clean_thread t'"
  "th_pc t = Limiting \<Longrightarrow> clean_thread t \<Longrightarrow> serve_limit h now sh t = (sh', t') \<Longrightarrow> clean_thread t'"
  "th_pc t = Slotting \<Longrightarrow> clean_thread t \<Longrightarrow> serve_slot h sh t = (sh', t') \<Longrightarrow> clean_thread t'"
  "th_pc t = Selecting \<Longrightarrow> clean_thread t \<Longrightarrow> serve_select h sh t = (sh', t') \<Longrightarrow> clean_thread t'"
  by (auto simp: serve_start_def serve_limit_def serve_slot_def serve_select_def clean_defs
      Let_def fail_with_def crash_def split: if_splits option.splits prod.splits sum.splits)

lemma clean_lookup:
  assumes "th_pc t = Caching" "clean_thread t" "clean_cache sh" "serve_cache now sh t = (sh', t')"
  shows "clean_cache sh' \<and> clean_thread t'"
proof (cases "rt_cache_enabled (the_route t) \<and> fst (request_eligible (th_req t))")
  case True
  obtain found c' where get: "cache_get (sh_cache sh) now (cache_key (th_req t)) = (found, c')" by fastforce
  have "sh_cache sh' = c'"
    using assms(4) True get by (auto simp: serve_cache_def Let_def split: option.splits)
  note clean = cache_get_clean [OF assms(3) get this]
  show ?thesis
  proof (cases found)
    case None
    then have "t' = t\<lparr>th_key := cache_key (th_req t), th_cache_result := ''miss'', th_pc := Selecting\<rparr>"
      using assms(4) True get by (simp add: serve_cache_def Let_def)
    with assms(1,2) clean show ?thesis by (simp add: clean_defs)
  next
    case (Some r)
    then have t': "t' = t\<lparr>th_key := cache_key (th_req t), th_cache_result := ''hit'',
        th_w := write_cached now r (th_w t), th_pc := Finishing\<rparr>"
      using assms(4) True get by (simp add: serve_cache_def Let_def)
    have "served_from_cache t'"
      unfolding served_from_cache_def using assms(1,2) True clean Some
      by (auto simp: t' the_route_def clean_defs)
    with t' assms(1,2) clean show ?thesis by (simp add: clean_defs)
  qed
next
  case False
  with assms show ?thesis by (auto simp: serve_cache_def Let_def clean_defs)
qed

lemma clean_upstream:
  "th_pc t = Acquiring \<Longrightarrow> clean_thread t \<Longrightarrow> serve_acquire h sh t = (sh', t') \<Longrightarrow> clean_thread t'"
  "th_pc t = Attempting \<Longrightarrow> clean_thread t \<Longrightarrow> attempt_error h e sh t = (sh', t') \<Longrightarrow> clean_thread t'"
  "th_pc t = Failed \<Longrightarrow> clean_thread t \<Longrightarrow> attempt_failed h sh t = (sh', t') \<Longrightarrow> clean_thread t'"
  "th_pc t = Reselecting \<Longrightarrow> clean_thread t \<Longrightarrow> attempt_reselect h sh t = (sh', t') \<Longrightarrow> clean_thread t'"
  "th_pc t = Reacquiring \<Longrightarrow> clean_thread t \<Longrightarrow> attempt_reacquire h ge sh t = (sh', t') \<Longrightarrow> clean_thread t'"
  by (auto simp: serve_acquire_def attempt_error_def attempt_failed_def attempt_reselect_def attempt_reacquire_def
      release_held_def crash_def clean_defs Let_def split: if_splits option.splits prod.splits sum.splits)

lemma clean_response:
  assumes "th_pc t = Attempting" "clean_thread t" "attempt_response h resp now sh t = (sh', t')"
  shows "clean_thread t'"
proof (cases "up_status resp = 101")
  case True
  with assms show ?thesis by (auto simp: attempt_response_def Let_def clean_defs)
next
  case False
  let ?hdr = "remove_hop_by_hop (up_header resp)"
  let ?t = "modify_response h now t ?hdr (resp\<lparr>up_header := ?hdr\<rparr>)"
  have "th_capture ?t \<noteq> None \<longrightarrow> storable (up_status resp) ?hdr"
    using assms(1,2)
    by (auto simp: modify_response_def Let_def clean_defs intro: evaluate_storable split: if_splits)
  moreover have "th_cache_result ?t = th_cache_result t" by (simp add: modify_response_def Let_def)
  ultimately show ?thesis
    using assms False by (auto simp: attempt_response_def Let_def clean_defs)
qed

definition closes :: "thread \<Rightarrow> thread \<Rightarrow> bool" where
  "closes t t' \<longleftrightarrow> th_req t' = th_req t \<and> th_route t' = th_route t \<and> th_attempts t' = th_attempts t \<and>
     th_w t' = th_w t \<and> th_cache_result t' = th_cache_result t \<and> th_resp t' = th_resp t \<and>
     (th_capture t' \<noteq> None \<longrightarrow> th_capture t \<noteq> None) \<and>
     th_pc t' \<notin> before_response \<union> {Streaming, Closing} \<and> (th_pc t' = Releasing \<longrightarrow> th_pc t = Closing)"

lemma clean_closes: "clean_thread t \<Longrightarrow> closes t t' \<Longrightarrow> clean_thread t'"
  unfolding closes_def by (simp add: clean_defs served_from_cache_def the_route_def)

lemma closing_frame:
  "th_pc t = Closing \<Longrightarrow> close_capture sh t = (sh', t') \<Longrightarrow> closes t t'"
  "close_release h sh t = (sh', t') \<Longrightarrow> closes t t'"
  "serve_finish sh t = (sh', t') \<Longrightarrow> closes t t'"
  "serve_report h ident now sh t = (sh', t') \<Longrightarrow> closes t t'"
  "serve_leave sh t = (sh', t') \<Longrightarrow> closes t t'"
  "serve_leave_check z sh t = (sh', t') \<Longrightarrow> closes t t'"
  by (auto simp: close_capture_def close_release_def release_held_def serve_finish_def serve_report_def
      serve_leave_def serve_leave_check_def closes_def before_response_def Let_def
      split: if_splits option.splits prod.splits)

lemma clean_capture_chunk:
  assumes "capture_chunk h p eof now1 now2 sh t = Some (sh', t')" "clean_cache sh" "clean_thread t"
  shows "clean_cache sh'"
proof (cases "th_capture t")
  case None
  with assms show ?thesis by (simp add: capture_chunk_def)
next
  case (Some cb)
  then have head: "storable (up_status (th_resp t)) (up_header (th_resp t))"
    using assms(3) by (simp add: clean_thread_def)
  obtain committed cb' n where cap: "capture_read (h_max_cache_body h) p eof cb (sh_capture sh) = (committed, cb', n)"
    by (metis prod_cases3)
  show ?thesis
  proof (cases committed)
    case None
    with assms(1,2) Some cap show ?thesis by (auto simp: capture_chunk_def clean_cache_def)
  next
    case (Some body)
    let ?r = "\<lparr>resp_status = up_status (th_resp t), resp_header = up_header (th_resp t), resp_body = body, resp_stored = 0\<rparr>"
    obtain ok c' where "cache_set (sh_cache sh) now1 now2 (th_key t) ?r (th_ttl t) = Some (ok, c')" "sh_cache sh' = c'"
      using assms(1) \<open>th_capture t = Some cb\<close> cap Some by (auto simp: capture_chunk_def Let_def)
    then show ?thesis using head by (intro cache_set_clean [OF assms(2), where r = ?r]) simp_all
  qed
qed

lemma clean_chunk:
  assumes "th_pc t = Streaming" "clean_thread t" "clean_cache sh" "stream_chunk h p e ok now1 now2 sh t = (sh', t')"
  shows "clean_cache sh' \<and> clean_thread t'"
proof -
  have "clean_cache sh'"
    using assms(2-4)
    by (auto simp: stream_chunk_def Let_def dest: clean_capture_chunk
        split: option.splits prod.splits if_splits read_end.splits)
  moreover obtain cap w ab pc' where t': "t' = t\<lparr>th_capture := cap, th_w := w, th_aborted := ab, th_pc := pc'\<rparr>"
      "pc' \<in> {th_pc t, Closing, Hung}" using stream_chunk_frame [OF assms(4)] by blast
  moreover have "th_capture t' = None" if "th_capture t = None"
    using assms(4) that
    by (auto simp: stream_chunk_def capture_chunk_def Let_def split: if_splits read_end.splits)
  ultimately show ?thesis using assms(1,2) by (auto simp: clean_defs)
qed

lemma step_clean:
  assumes "clean_cache sh" "clean_thread t" "serve_step h ident i sh t = (sh', t')"
  shows "clean_cache sh' \<and> clean_thread t'"
proof -
  have same: "clean_cache sh'" if "sh_cache sh' = sh_cache sh" using assms(1) that by (simp add: clean_cache_def)
  have pure: ?thesis if "sh_capture sh' = sh_capture sh \<and> sh_cache sh' = sh_cache sh" "clean_thread t'"
    using same that by simp
  show ?thesis
    using assms(3)
  proof (cases rule: step_cases)
    case Stay
    with assms(1,2) show ?thesis by simp
  next
    case (Cache now)
    from clean_lookup [OF Cache(1) assms(2,1) Cache(2)] show ?thesis .
  next
    case (Chunk p e ok now1 now2)
    from clean_chunk [OF Chunk(1) assms(2,1) Chunk(2)] show ?thesis .
  next
    case (Response resp now)
    from clean_response [OF Response(1) assms(2) Response(2)] op_frames(12) [OF Response(2)] show ?thesis by (intro pure)
  next
    case Close
    have "sh_cache sh' = sh_cache sh" using Close(2) by (auto simp: close_capture_def split: option.splits prod.splits)
    with same clean_closes [OF assms(2) closing_frame(1) [OF Close]] show ?thesis by simp
  next
    case Release
    from clean_closes [OF assms(2) closing_frame(2) [OF Release(2)]] release_op_frames(2) [OF Release(2)]
    show ?thesis by (intro pure)
  next
    case Finish
    from clean_closes [OF assms(2) closing_frame(3) [OF Finish(2)]] op_frames(8) [OF Finish(2)] show ?thesis by (intro pure)
  next
    case (Report now)
    from clean_closes [OF assms(2) closing_frame(4) [OF Report(2)]] op_frames(9) [OF Report(2)] show ?thesis by (intro pure)
  next
    case Leave
    from clean_closes [OF assms(2) closing_frame(5) [OF Leave(2)]] op_frames(10) [OF Leave(2)] show ?thesis by (intro pure)
  next
    case (Check z)
    from clean_closes [OF assms(2) closing_frame(6) [OF Check(2)]] op_frames(11) [OF Check(2)] show ?thesis by (intro pure)
  qed (rule pure, rule op_frames release_op_frames, assumption,
       rule clean_admission clean_upstream, assumption, rule assms(2), assumption)+
qed



end
