(* ===== verification/RouteOrder.thy ===== *)
theory RouteOrder
  imports Routing Validate "HOL-Library.Multiset"
begin

text \<open>
  Validation and routing together: the configurations that pass \<open>Validate\<close> leave the router no
  choice, so that the order of the routes in the file does not matter; and where the two
  normalizations of a host differ, a route that can never be chosen passes validation.
\<close>

section \<open>Routes of equal rank\<close>

lemma take_of_prefix: "has_prefix p (q @ r) \<Longrightarrow> take (length q) p = q"
  by (auto simp: has_prefix_iff)

lemma path_matches_take: "path_matches pre p \<Longrightarrow> take (length pre) p = pre"
proof (cases "has_suffix pre ''/''")
  case True
  then obtain q where "pre = q @ ''/''" by (auto simp: has_suffix_iff)
  then show "path_matches pre p \<Longrightarrow> take (length pre) p = pre"
    by (auto simp: path_matches_def trim_slash has_prefix_def split: if_splits)
next
  case False
  then show "path_matches pre p \<Longrightarrow> take (length pre) p = pre"
    using take_of_prefix [of p pre "''/''"]
    by (auto simp: path_matches_def trim_suffix_def has_prefix_def split: if_splits)
qed

lemma equal_rank_same_key:
  assumes "a \<in> set (eligible rs hst p)" "b \<in> set (eligible rs hst p)" "\<not> outranks a b" "\<not> outranks b a"
    and "CHR '':'' \<notin> set (rt_host a)" "CHR '':'' \<notin> set (rt_host b)"
  shows "match_key a = match_key b"
proof -
  have len: "length (path_prefix a) = length (path_prefix b)"
    using assms(3,4) unfolding outranks_def by linarith
  have catch_all: "rt_host a = [] \<longleftrightarrow> rt_host b = []"
    using assms(3,4) len len [symmetric] unfolding outranks_def by blast
  have pre: "path_prefix c = take (length (path_prefix c)) p" if "c \<in> set (eligible rs hst p)" for c
    using that path_matches_take [of "path_prefix c" p] by (simp add: eligible_def)
  have "path_prefix a = take (length (path_prefix b)) p"
    by (rule trans [OF pre [OF assms(1)]]) (simp only: len)
  also have "\<dots> = path_prefix b" by (rule pre [OF assms(2), symmetric])
  finally have "path_prefix a = path_prefix b" .
  moreover have "normalized_host (rt_host a) = normalized_host (rt_host b)"
  proof (cases "rt_host a = []")
    case True
    with catch_all show ?thesis by simp
  next
    case False
    with catch_all assms(1,2) have "normalize_host (rt_host a) = normalize_host (rt_host b)"
      by (simp add: eligible_def)
    with assms(5,6) show ?thesis
      by (simp add: normalizations_agree normalize_host_def has_colon_split)
  qed
  ultimately show ?thesis by (simp add: match_key_def)
qed

lemma best_is_unique:
  assumes "distinct (map match_key rs)" "\<forall>rt \<in> set rs. CHR '':'' \<notin> set (rt_host rt)"
    and "a \<in> set (eligible rs hst p)" "b \<in> set (eligible rs hst p)" "\<not> outranks a b" "\<not> outranks b a"
  shows "a = b"
proof -
  have "a \<in> set rs" "b \<in> set rs" using assms(3,4) by (simp_all add: eligible_def)
  moreover have "match_key a = match_key b" using equal_rank_same_key [OF assms(3-6)] assms(2) calculation by blast
  ultimately show ?thesis using assms(1) by (auto simp: distinct_map inj_on_def)
qed

lemma outranks_asym: "outranks a b \<Longrightarrow> \<not> outranks b a"
  by (auto simp: outranks_def)

lemma first_best_maximal: "first_best rs b \<Longrightarrow> b \<in> set rs \<and> (\<forall>q \<in> set rs. \<not> outranks q b)"
  by (auto simp: first_best_def dest: outranks_asym) (auto simp: outranks_def)

text \<open>
  C18. In a valid configuration whose route hosts carry no port, the order of the routes does not
  matter: any reordering of the list selects the same route for every host and path.
\<close>

theorem valid_routes_order_free:
  assumes "validate parse cfg = []" and "\<forall>rt \<in> set (routes cfg). CHR '':'' \<notin> set (rt_host rt)"
    and "mset rs = mset (routes cfg)"
  shows "route_match (new_router rs) hst p = route_match (new_router (routes cfg)) hst p"
proof -
  have dist: "distinct (map match_key (routes cfg))"
    using assms(1) by (simp add: validate_ok_iff well_formed_def)
  have same: "set (eligible rs hst p) = set (eligible (routes cfg) hst p)"
    using mset_eq_setD [OF assms(3)] by (simp add: eligible_def)
  show ?thesis
  proof (cases "route_match rs hst p")
    case None
    then have "eligible (routes cfg) hst p = []" using same by (simp add: match_first_best)
    then have "route_match (routes cfg) hst p = None" by (simp add: match_first_best)
    with None show ?thesis by (simp add: new_router_def)
  next
    case (Some a)
    then have a: "first_best (eligible rs hst p) a" by (simp add: match_first_best)
    then obtain b where b: "route_match (routes cfg) hst p = Some b"
      using same first_best_maximal by (cases "route_match (routes cfg) hst p") (force simp: match_first_best)+
    then have b': "first_best (eligible (routes cfg) hst p) b" by (simp add: match_first_best)
    have "a = b"
      using first_best_maximal [OF a] first_best_maximal [OF b'] same
      by (intro best_is_unique [OF dist assms(2), of a hst p b]) auto
    with Some b show ?thesis by (simp add: new_router_def)
  qed
qed

theorem valid_routes_order_free_witness:
  "let a = plain_route ''api'' [] ''/api'' ''main''; b = plain_route ''all'' [] ''/'' ''main'' in
   route_match (new_router [b, a]) ''a.test'' ''/api/x'' = route_match (new_router [a, b]) ''a.test'' ''/api/x''"
proof -
  let ?a = "plain_route ''api'' [] ''/api'' ''main''" and ?b = "plain_route ''all'' [] ''/'' ''main''"
  have "validate demo_parse (demo_config [?a, ?b]) = []" by code_simp
  from valid_routes_order_free [OF this, of "[?b, ?a]" "''a.test''" "''/api/x''"]
  show ?thesis by (simp add: demo_config_def plain_route_def add_mset_commute)
qed

text \<open>
  With a port and a final dot the two normalizations differ: the configuration is accepted, both
  routes have the same rank and the same normalized host, and no request ever reaches the second.
\<close>

definition shadowing_routes :: "route list" where
  "shadowing_routes = [plain_route ''one'' ''a.test.:80'' ''/'' ''main'', plain_route ''two'' ''a.test'' ''/'' ''main'']"

lemma shadowed_route_accepted:
  "validate demo_parse (demo_config shadowing_routes) = [] \<and>
   route_match (new_router shadowing_routes) hst p \<noteq> Some (shadowing_routes ! 1)"
proof
  show "validate demo_parse (demo_config shadowing_routes) = []" by code_simp
  let ?a = "plain_route ''one'' ''a.test.:80'' ''/'' ''main''" and ?b = "plain_route ''two'' ''a.test'' ''/'' ''main''"
  have "normalize_host ''a.test.:80'' = normalize_host ''a.test''" by code_simp
  then have "eligible shadowing_routes hst p = [?a, ?b] \<or> eligible shadowing_routes hst p = []"
    by (auto simp: eligible_def shadowing_routes_def plain_route_def)
  moreover have "\<not> first_best [?a, ?b] ?b"
  proof
    assume "first_best [?a, ?b] ?b"
    moreover have "first_best [?a, ?b] ?a"
      unfolding first_best_def
      by (intro exI [of _ "[]"] exI [of _ "[?b]"]) (simp add: outranks_def plain_route_def)
    ultimately have "?b = ?a" by (rule first_best_unique)
    then show False by (simp add: plain_route_def)
  qed
  moreover have "\<not> first_best [] ?b" by (simp add: first_best_def)
  ultimately have "\<not> first_best (eligible shadowing_routes hst p) ?b" by auto
  moreover have "shadowing_routes ! 1 = ?b" by (simp add: shadowing_routes_def)
  ultimately show "route_match (new_router shadowing_routes) hst p \<noteq> Some (shadowing_routes ! 1)"
    by (simp add: new_router_def match_first_best)
qed

end
