(* ===== verification/Load.thy ===== *)
theory Load
  imports Validate
begin

text \<open>
  Loading and storing a configuration (package \<open>config\<close>, files \<open>load.go\<close> and \<open>store.go\<close>). The
  YAML decoder is not part of the source: decoding a document over the defaults and looking for
  a second document are the parameters \<open>dec\<close> and \<open>trail\<close>. A reader is the bytes it yields and
  whether it fails after them; a file system maps a path to such a reader.
\<close>

section \<open>Load\<close>

datatype trailing = NoMore | AnotherDocument | TrailingError

datatype load_error =
    OpenFailed | ReadFailed | ConfigTooLarge | DecodeFailed | MultipleDocuments | TrailingFailed
  | Invalid "config_error list"

type_synonym reader = "string \<times> bool"

definition max_config_bytes :: nat where
  "max_config_bytes = 4194304"

text \<open>\<open>io.ReadAll\<close> of an \<open>io.LimitReader\<close>: the limit is reached before a later failure.\<close>

definition read_limited :: "nat \<Rightarrow> reader \<Rightarrow> string option" where
  "read_limited n r = (case r of (s, fails) \<Rightarrow>
     if length s \<ge> n then Some (take n s) else if fails then None else Some s)"

definition load ::
  "(config \<Rightarrow> string \<Rightarrow> config option) \<Rightarrow> (string \<Rightarrow> trailing) \<Rightarrow> (string \<Rightarrow> url option) \<Rightarrow> reader \<Rightarrow>
   load_error + config" where
  "load dec trail parse r =
     (case read_limited (max_config_bytes + 1) r of
        None \<Rightarrow> Inl ReadFailed
      | Some data \<Rightarrow>
          if length data > max_config_bytes then Inl ConfigTooLarge
          else (case dec default_config data of
             None \<Rightarrow> Inl DecodeFailed
           | Some cfg \<Rightarrow>
               (case trail data of
                  AnotherDocument \<Rightarrow> Inl MultipleDocuments
                | TrailingError \<Rightarrow> Inl TrailingFailed
                | NoMore \<Rightarrow>
                    if validate parse cfg \<noteq> [] then Inl (Invalid (validate parse cfg)) else Inr cfg)))"

definition load_file ::
  "(config \<Rightarrow> string \<Rightarrow> config option) \<Rightarrow> (string \<Rightarrow> trailing) \<Rightarrow> (string \<Rightarrow> url option) \<Rightarrow>
   (string \<Rightarrow> reader option) \<Rightarrow> string \<Rightarrow> load_error + config" where
  "load_file dec trail parse fs p =
     (case fs p of None \<Rightarrow> Inl OpenFailed | Some r \<Rightarrow> load dec trail parse r)"

lemma load_result:
  "load dec trail parse (s, fails) = Inr cfg \<longleftrightarrow>
     length s \<le> max_config_bytes \<and> \<not> fails \<and> dec default_config s = Some cfg \<and> trail s = NoMore \<and>
     well_formed parse cfg"
  by (auto simp: load_def read_limited_def validate_ok_iff split: option.splits trailing.splits if_splits)

lemma load_file_valid: "load_file dec trail parse fs p = Inr cfg \<Longrightarrow> well_formed parse cfg"
  by (auto simp: load_file_def load_result split: option.splits)

text \<open>
  C28. What a load accepts: a file of at most 4 MiB that is read to its end, holds exactly one
  document, and decodes over the defaults to a well-formed configuration; every other input is
  an error and yields no configuration.
\<close>

theorem load_accepts_iff:
  "load dec trail parse (s, fails) = Inr cfg \<longleftrightarrow>
     length s \<le> 4194304 \<and> \<not> fails \<and> dec default_config s = Some cfg \<and> trail s = NoMore \<and>
     well_formed parse cfg"
  by (simp add: load_result max_config_bytes_def)

section \<open>Store\<close>

record store =
  st_current :: config

definition new_store :: "config \<Rightarrow> store" where
  "new_store initial = \<lparr>st_current = initial\<rparr>"

definition store_reload ::
  "(config \<Rightarrow> string \<Rightarrow> config option) \<Rightarrow> (string \<Rightarrow> trailing) \<Rightarrow> (string \<Rightarrow> url option) \<Rightarrow>
   (string \<Rightarrow> reader option) \<Rightarrow> string \<Rightarrow> store \<Rightarrow> load_error option \<times> store" where
  "store_reload dec trail parse fs p st =
     (case load_file dec trail parse fs p of
        Inl e \<Rightarrow> (Some e, st)
      | Inr next \<Rightarrow> (None, st\<lparr>st_current := next\<rparr>))"

text \<open>
  \<open>Watch\<close>: what its \<open>select\<close> receives, a cancellation or a signal, with the state of the file
  system at that moment. The result is the store and the errors given to \<open>onError\<close>.
\<close>

datatype watch_event = Cancelled | Signal "string \<Rightarrow> reader option"

primrec watch ::
  "(config \<Rightarrow> string \<Rightarrow> config option) \<Rightarrow> (string \<Rightarrow> trailing) \<Rightarrow> (string \<Rightarrow> url option) \<Rightarrow> string \<Rightarrow> bool \<Rightarrow>
   watch_event list \<Rightarrow> store \<Rightarrow> load_error list \<times> store" where
  "watch dec trail parse p on_error [] st = ([], st)"
| "watch dec trail parse p on_error (e # es) st =
     (case e of
        Cancelled \<Rightarrow> ([], st)
      | Signal fs \<Rightarrow>
          (let r = store_reload dec trail parse fs p st;
               rest = watch dec trail parse p on_error es (snd r)
           in ((if on_error then (case fst r of None \<Rightarrow> [] | Some x \<Rightarrow> [x]) else []) @ fst rest, snd rest)))"

definition seen_signals :: "watch_event list \<Rightarrow> (string \<Rightarrow> reader option) list" where
  "seen_signals es = map (\<lambda>e. case e of Signal fs \<Rightarrow> fs | Cancelled \<Rightarrow> (\<lambda>_. None)) (takeWhile (\<lambda>e. e \<noteq> Cancelled) es)"

lemma watch_current:
  "st_current (snd (watch dec trail parse p on_error es st)) =
     foldl (\<lambda>c fs. case load_file dec trail parse fs p of Inr next \<Rightarrow> next | Inl _ \<Rightarrow> c) (st_current st) (seen_signals es)"
  by (induction es arbitrary: st)
     (auto simp: seen_signals_def store_reload_def Let_def split: watch_event.splits sum.splits)

lemma watch_errors:
  "fst (watch dec trail parse p True es st) =
     concat (map (\<lambda>fs. case load_file dec trail parse fs p of Inl e \<Rightarrow> [e] | Inr _ \<Rightarrow> []) (seen_signals es))"
  by (induction es arbitrary: st)
     (auto simp: seen_signals_def store_reload_def Let_def split: watch_event.splits sum.splits)

text \<open>
  C29. Reloads are all or nothing: after any sequence of signals and whatever the file holds at
  each of them, the store holds the last configuration that loaded, or the initial one; it is
  well-formed if the initial one was, and each failed reload reported its error exactly once.
\<close>

theorem store_always_valid:
  assumes "validate parse initial = []"
  shows "well_formed parse (st_current (snd (watch dec trail parse p True es (new_store initial)))) \<and>
    st_current (snd (watch dec trail parse p True es (new_store initial))) =
      foldl (\<lambda>c fs. case load_file dec trail parse fs p of Inr next \<Rightarrow> next | Inl _ \<Rightarrow> c) initial (seen_signals es) \<and>
    fst (watch dec trail parse p True es (new_store initial)) =
      concat (map (\<lambda>fs. case load_file dec trail parse fs p of Inl e \<Rightarrow> [e] | Inr _ \<Rightarrow> []) (seen_signals es))"
proof -
  have "well_formed parse (foldl (\<lambda>c fs. case load_file dec trail parse fs p of Inr next \<Rightarrow> next | Inl _ \<Rightarrow> c) c fss)"
    if "well_formed parse c" for c fss
    using that by (induction fss arbitrary: c) (auto split: sum.splits intro: load_file_valid)
  with assms show ?thesis by (simp add: watch_current watch_errors new_store_def validate_ok_iff)
qed

theorem store_always_valid_witness:
  "well_formed demo_parse (st_current (snd (watch (\<lambda>_ _. None) (\<lambda>_. NoMore) demo_parse ''proxy.yaml'' True
     [Signal (\<lambda>_. None), Signal (\<lambda>_. Some (''x'', False)), Cancelled]
     (new_store (demo_config [plain_route ''api'' [] ''/api'' ''main''])))))"
  using store_always_valid [OF demo_config_valid,
      of "\<lambda>_ _. None" "\<lambda>_. NoMore" "''proxy.yaml''" "[Signal (\<lambda>_. None), Signal (\<lambda>_. Some (''x'', False)), Cancelled]"]
  by blast

end
