(* ===== verification/Metrics.thy ===== *)
theory Metrics
  imports Config "HOL-Library.List_Lexorder" "HOL-Library.Char_ord"
begin

text \<open>
  The metrics registry (package \<open>metrics\<close>) and its exposition. Every operation of the registry is one critical section
  under \<open>mu\<close>, so a concurrent history is a sequence of them. Go maps are association lists; the
  counters are 64-bit words. Sums of durations are exact numbers of nanoseconds here: the
  source adds up seconds in floating point. Formatting a float with \<open>%g\<close> is a parameter.
\<close>

section \<open>The registry\<close>

type_synonym ('k, 'v) table = "('k \<times> 'v) list"

record metrics =
  requests :: "(string \<times> string \<times> int, 64 word) table"
  duration_count :: "(string, 64 word) table"
  duration_sum :: "(string, int) table"
  cache_outcomes :: "(string \<times> string, 64 word) table"
  rate_limits :: "(string \<times> string, 64 word) table"
  policy_denials :: "(string \<times> string, 64 word) table"
  retries :: "(string, 64 word) table"
  health_gauge :: "(string \<times> string, int) table"
  active_gauge :: "(string \<times> string, int64) table"
  allowed_routes :: "string set"
  allowed_backends :: "(string \<times> string) set"
  reconciled :: bool

definition new_metrics :: metrics where
  "new_metrics = \<lparr>requests = [], duration_count = [], duration_sum = [], cache_outcomes = [], rate_limits = [],
     policy_denials = [], retries = [], health_gauge = [], active_gauge = [], allowed_routes = {},
     allowed_backends = {}, reconciled = False\<rparr>"

text \<open>\<open>m[key] += n\<close>: a missing entry counts as zero.\<close>

definition add_to :: "'k \<Rightarrow> 'v::comm_monoid_add \<Rightarrow> ('k, 'v) table \<Rightarrow> ('k, 'v) table" where
  "add_to key n t = AList.update key ((case map_of t key of None \<Rightarrow> 0 | Some v \<Rightarrow> v) + n) t"

definition bounded_method :: "string \<Rightarrow> string" where
  "bounded_method meth =
     (if meth \<in> {''CONNECT'', ''DELETE'', ''GET'', ''HEAD'', ''OPTIONS'', ''PATCH'', ''POST'', ''PUT'', ''TRACE''}
      then meth else ''OTHER'')"

definition bounded_rate_limit_decision :: "string \<Rightarrow> string" where
  "bounded_rate_limit_decision d = (if d \<in> {''allowed'', ''limited''} then d else ''other'')"

definition bounded_policy_reason :: "string \<Rightarrow> string" where
  "bounded_policy_reason r =
     (if r \<in> {''method_not_allowed'', ''path_denied'', ''required_header_missing'', ''header_denied'', ''query_too_large''}
      then r else ''other'')"

text \<open>The test at the start of each operation on a route.\<close>

definition route_label :: "metrics \<Rightarrow> string \<Rightarrow> string" where
  "route_label m rt =
     (if reconciled m \<and> rt \<notin> allowed_routes m \<and> rt \<noteq> ''unmatched'' then ''retired'' else rt)"

definition observe_request ::
  "string \<Rightarrow> string \<Rightarrow> int \<Rightarrow> int \<Rightarrow> string \<Rightarrow> duration \<Rightarrow> metrics \<Rightarrow> metrics" where
  "observe_request rt0 meth0 status attempts cache_result dur m =
     (let meth = bounded_method meth0; rt = route_label m rt0;
          m1 = m\<lparr>requests := add_to (rt, meth, status) 1 (requests m),
                 duration_count := add_to rt 1 (duration_count m),
                 duration_sum := add_to rt dur (duration_sum m)\<rparr>;
          m2 = (if cache_result \<noteq> [] then m1\<lparr>cache_outcomes := add_to (rt, cache_result) 1 (cache_outcomes m1)\<rparr> else m1)
      in if attempts > 1 then m2\<lparr>retries := add_to rt (of_int (attempts - 1)) (retries m2)\<rparr> else m2)"

definition observe_rate_limit_decision :: "string \<Rightarrow> string \<Rightarrow> metrics \<Rightarrow> metrics" where
  "observe_rate_limit_decision rt0 d0 m =
     (let d = bounded_rate_limit_decision d0; rt = route_label m rt0
      in m\<lparr>rate_limits := add_to (rt, d) 1 (rate_limits m)\<rparr>)"

definition observe_policy_denial :: "string \<Rightarrow> string \<Rightarrow> metrics \<Rightarrow> metrics" where
  "observe_policy_denial rt0 r0 m =
     (let r = bounded_policy_reason r0; rt = route_label m rt0
      in m\<lparr>policy_denials := add_to (rt, r) 1 (policy_denials m)\<rparr>)"

definition set_backend_health :: "string \<Rightarrow> string \<Rightarrow> bool \<Rightarrow> metrics \<Rightarrow> metrics" where
  "set_backend_health pl b healthy m =
     (if reconciled m \<and> (pl, b) \<notin> allowed_backends m then m
      else m\<lparr>health_gauge := AList.update (pl, b) (if healthy then 1 else 0) (health_gauge m)\<rparr>)"

definition set_backend_active :: "string \<Rightarrow> string \<Rightarrow> int64 \<Rightarrow> metrics \<Rightarrow> metrics" where
  "set_backend_active pl b n m =
     (if reconciled m \<and> (pl, b) \<notin> allowed_backends m then m
      else m\<lparr>active_gauge := AList.update (pl, b) n (active_gauge m)\<rparr>)"

definition config_routes :: "config \<Rightarrow> string set" where
  "config_routes cfg = rt_name ` set (routes cfg)"

definition config_backends :: "config \<Rightarrow> (string \<times> string) set" where
  "config_backends cfg = set (concat (map (\<lambda>(pl, p). map (\<lambda>b. (pl, bc_name b)) (p_backends p)) (pools cfg)))"

definition keep_route :: "string set \<Rightarrow> string \<Rightarrow> bool" where
  "keep_route rts rt \<longleftrightarrow> rt \<in> rts \<or> rt = ''unmatched'' \<or> rt = ''retired''"

definition reconcile_config :: "config \<Rightarrow> metrics \<Rightarrow> metrics" where
  "reconcile_config cfg m =
     (let rts = config_routes cfg
      in m\<lparr>allowed_routes := rts, allowed_backends := config_backends cfg, reconciled := True,
           requests := filter (\<lambda>(k, _). keep_route rts (fst k)) (requests m),
           duration_count := filter (\<lambda>(k, _). keep_route rts k) (duration_count m),
           duration_sum := filter (\<lambda>(k, _). keep_route rts k \<or> map_of (duration_count m) k = None) (duration_sum m),
           cache_outcomes := filter (\<lambda>(k, _). keep_route rts (fst k)) (cache_outcomes m),
           rate_limits := filter (\<lambda>(k, _). keep_route rts (fst k)) (rate_limits m),
           policy_denials := filter (\<lambda>(k, _). keep_route rts (fst k)) (policy_denials m),
           retries := filter (\<lambda>(k, _). keep_route rts k) (retries m),
           health_gauge := [], active_gauge := []\<rparr>)"

section \<open>The exposition\<close>

text \<open>\<open>strconv.Quote\<close> of a label: configuration names are printable, and so are the others.\<close>

definition quote_label :: "string \<Rightarrow> string" where
  "quote_label s = [CHR 0x22] @
     concat (map (\<lambda>c. if c = CHR 0x22 \<or> c = CHR 0x5C then [CHR 0x5C, c] else [c]) s) @ [CHR 0x22]"

definition format_word :: "64 word \<Rightarrow> string" where
  "format_word w = dec_digits (unat w)"

definition label2 :: "string \<Rightarrow> string \<Rightarrow> string \<Rightarrow> string \<Rightarrow> string" where
  "label2 n1 v1 n2 v2 = ''{'' @ n1 @ ''='' @ quote_label v1 @ '','' @ n2 @ ''='' @ quote_label v2 @ ''}''"

definition series_lines :: "(int \<Rightarrow> string) \<Rightarrow> (int \<Rightarrow> string) \<Rightarrow> metrics \<Rightarrow> string list" where
  "series_lines seconds_g gauge_g m =
     map (\<lambda>((rt, meth, status), v). ''goproxy_requests_total{method='' @ quote_label meth @ '',route='' @ quote_label rt @
        '',status='' @ quote_label (format_int status) @ ''} '' @ format_word v) (requests m) @
     concat (map (\<lambda>(rt, v). [''goproxy_request_duration_seconds_count{route='' @ quote_label rt @ ''} '' @ format_word v,
        ''goproxy_request_duration_seconds_sum{route='' @ quote_label rt @ ''} '' @
          seconds_g (case map_of (duration_sum m) rt of None \<Rightarrow> 0 | Some s \<Rightarrow> s)]) (duration_count m)) @
     map (\<lambda>((rt, r), v). ''goproxy_cache_requests_total'' @ label2 ''result'' r ''route'' rt @ '' '' @ format_word v)
       (cache_outcomes m) @
     map (\<lambda>((rt, d), v). ''goproxy_rate_limit_decisions_total'' @ label2 ''decision'' d ''route'' rt @ '' '' @ format_word v)
       (rate_limits m) @
     map (\<lambda>((rt, r), v). ''goproxy_policy_denials_total'' @ label2 ''reason'' r ''route'' rt @ '' '' @ format_word v)
       (policy_denials m) @
     map (\<lambda>(rt, v). ''goproxy_retries_total{route='' @ quote_label rt @ ''} '' @ format_word v) (retries m) @
     map (\<lambda>((pl, b), v). ''goproxy_backend_healthy'' @ label2 ''backend'' b ''pool'' pl @ '' '' @ gauge_g v) (health_gauge m) @
     map (\<lambda>((pl, b), v). ''goproxy_backend_active_requests'' @ label2 ''backend'' b ''pool'' pl @ '' '' @ format_int v)
       (active_gauge m)"

definition help_lines :: "int \<Rightarrow> 64 word \<Rightarrow> string list" where
  "help_lines goroutines alloc = [
     ''# HELP goproxy_requests_total Completed public requests.'', ''# TYPE goproxy_requests_total counter'',
     ''# HELP goproxy_request_duration_seconds Public request duration.'', ''# TYPE goproxy_request_duration_seconds summary'',
     ''# HELP goproxy_cache_requests_total Cache outcomes for public requests.'', ''# TYPE goproxy_cache_requests_total counter'',
     ''# HELP goproxy_rate_limit_decisions_total Per-route rate-limit admission decisions.'', ''# TYPE goproxy_rate_limit_decisions_total counter'',
     ''# HELP goproxy_policy_denials_total Per-route request-policy denials.'', ''# TYPE goproxy_policy_denials_total counter'',
     ''# HELP goproxy_retries_total Upstream retry attempts.'', ''# TYPE goproxy_retries_total counter'',
     ''# HELP goproxy_backend_healthy Whether a backend is eligible for traffic.'', ''# TYPE goproxy_backend_healthy gauge'',
     ''# HELP goproxy_backend_active_requests Requests currently assigned to a backend.'', ''# TYPE goproxy_backend_active_requests gauge'',
     ''# HELP go_goroutines Number of goroutines that currently exist.'', ''# TYPE go_goroutines gauge'',
     ''go_goroutines '' @ format_int goroutines,
     ''# HELP go_memstats_alloc_bytes Bytes of allocated heap objects.'', ''# TYPE go_memstats_alloc_bytes gauge'',
     ''go_memstats_alloc_bytes '' @ format_word alloc]"

definition metric_lines :: "(int \<Rightarrow> string) \<Rightarrow> (int \<Rightarrow> string) \<Rightarrow> int \<Rightarrow> 64 word \<Rightarrow> metrics \<Rightarrow> string list" where
  "metric_lines seconds_g gauge_g goroutines alloc m =
     help_lines goroutines alloc @ sort (series_lines seconds_g gauge_g m)"

definition metrics_body :: "(int \<Rightarrow> string) \<Rightarrow> (int \<Rightarrow> string) \<Rightarrow> int \<Rightarrow> 64 word \<Rightarrow> metrics \<Rightarrow> string" where
  "metrics_body seconds_g gauge_g goroutines alloc m =
     join [CHR 0x0A] (metric_lines seconds_g gauge_g goroutines alloc m) @ [CHR 0x0A]"

section \<open>Histories\<close>

datatype metric_event =
    RequestDone string string int int string duration
  | RateDecision string string
  | PolicyDenial string string
  | HealthChange string string bool
  | ActiveChange string string int64
  | Reconcile config

primrec metric_step :: "metrics \<Rightarrow> metric_event \<Rightarrow> metrics" where
  "metric_step m (RequestDone rt meth status attempts res dur) = observe_request rt meth status attempts res dur m"
| "metric_step m (RateDecision rt d) = observe_rate_limit_decision rt d m"
| "metric_step m (PolicyDenial rt r) = observe_policy_denial rt r m"
| "metric_step m (HealthChange pl b healthy) = set_backend_health pl b healthy m"
| "metric_step m (ActiveChange pl b n) = set_backend_active pl b n m"
| "metric_step m (Reconcile cfg) = reconcile_config cfg m"

definition metric_run :: "metric_event list \<Rightarrow> metrics" where
  "metric_run es = foldl metric_step new_metrics es"

lemma metric_run_snoc [simp]: "metric_run (es @ [e]) = metric_step (metric_run es) e"
  by (simp add: metric_run_def)

lemma metric_run_nil [simp]: "metric_run [] = new_metrics"
  by (simp add: metric_run_def)

section \<open>Bounded labels\<close>

definition keys :: "('k, 'v) table \<Rightarrow> 'k set" where
  "keys t = fst ` set t"

lemma keys_add_to [simp]: "keys (add_to k n t) = insert k (keys t)"
  by (simp add: keys_def add_to_def dom_update)

lemma keys_update [simp]: "keys (AList.update k v t) = insert k (keys t)"
  by (simp add: keys_def dom_update)

lemma keys_nil [simp]: "keys [] = {}"
  by (simp add: keys_def)

lemma keys_filter: "keys (filter (\<lambda>(k, _). P k) t) = {k \<in> keys t. P k}"
  by (force simp: keys_def)

definition method_labels :: "string set" where
  "method_labels = {''CONNECT'', ''DELETE'', ''GET'', ''HEAD'', ''OPTIONS'', ''PATCH'', ''POST'', ''PUT'', ''TRACE'', ''OTHER''}"

definition decision_labels :: "string set" where
  "decision_labels = {''allowed'', ''limited'', ''other''}"

definition reason_labels :: "string set" where
  "reason_labels = {''method_not_allowed'', ''path_denied'', ''required_header_missing'', ''header_denied'',
     ''query_too_large'', ''other''}"

definition route_labels :: "metrics \<Rightarrow> string set" where
  "route_labels m = (if reconciled m then allowed_routes m \<union> {''unmatched'', ''retired''} else UNIV)"

definition backend_labels :: "metrics \<Rightarrow> (string \<times> string) set" where
  "backend_labels m = (if reconciled m then allowed_backends m else UNIV)"

definition bounded_labels :: "metrics \<Rightarrow> bool" where
  "bounded_labels m \<longleftrightarrow>
     keys (requests m) \<subseteq> route_labels m \<times> method_labels \<times> UNIV \<and>
     keys (duration_count m) \<subseteq> route_labels m \<and> keys (duration_sum m) = keys (duration_count m) \<and>
     keys (cache_outcomes m) \<subseteq> route_labels m \<times> UNIV \<and> keys (rate_limits m) \<subseteq> route_labels m \<times> decision_labels \<and>
     keys (policy_denials m) \<subseteq> route_labels m \<times> reason_labels \<and> keys (retries m) \<subseteq> route_labels m \<and>
     keys (health_gauge m) \<subseteq> backend_labels m \<and> keys (active_gauge m) \<subseteq> backend_labels m"

lemma labels_in [simp]:
  "route_label m rt \<in> route_labels m" "bounded_method meth \<in> method_labels"
  "bounded_rate_limit_decision d \<in> decision_labels" "bounded_policy_reason r \<in> reason_labels"
  by (auto simp: route_label_def route_labels_def bounded_method_def method_labels_def
      bounded_rate_limit_decision_def decision_labels_def bounded_policy_reason_def reason_labels_def)

lemma labels_frame [simp]:
  "route_labels (observe_request rt meth st att res dur m) = route_labels m"
  "backend_labels (observe_request rt meth st att res dur m) = backend_labels m"
  "route_labels (observe_rate_limit_decision rt d m) = route_labels m"
  "backend_labels (observe_rate_limit_decision rt d m) = backend_labels m"
  "route_labels (observe_policy_denial rt r m) = route_labels m"
  "backend_labels (observe_policy_denial rt r m) = backend_labels m"
  "route_labels (set_backend_health pl b healthy m) = route_labels m"
  "backend_labels (set_backend_health pl b healthy m) = backend_labels m"
  "route_labels (set_backend_active pl b n m) = route_labels m"
  "backend_labels (set_backend_active pl b n m) = backend_labels m"
  by (simp_all add: route_labels_def backend_labels_def observe_request_def observe_rate_limit_decision_def
      observe_policy_denial_def set_backend_health_def set_backend_active_def Let_def)

lemma bounded_request: "bounded_labels m \<Longrightarrow> bounded_labels (observe_request rt meth st att res dur m)"
  unfolding bounded_labels_def labels_frame by (simp add: observe_request_def Let_def)

lemma bounded_decisions:
  "bounded_labels m \<Longrightarrow> bounded_labels (observe_rate_limit_decision rt d m)"
  "bounded_labels m \<Longrightarrow> bounded_labels (observe_policy_denial rt r m)"
  unfolding bounded_labels_def labels_frame
  by (simp_all add: observe_rate_limit_decision_def observe_policy_denial_def Let_def)

lemma bounded_gauges:
  "bounded_labels m \<Longrightarrow> bounded_labels (set_backend_health pl b healthy m)"
  "bounded_labels m \<Longrightarrow> bounded_labels (set_backend_active pl b n m)"
  unfolding bounded_labels_def labels_frame
  by (auto simp: set_backend_health_def set_backend_active_def backend_labels_def)

lemma map_of_keys: "map_of t k = None \<longleftrightarrow> k \<notin> keys t"
  by (simp add: keys_def map_of_eq_None_iff)

lemma reconcile_keys:
  "keys (requests (reconcile_config cfg m)) = {k \<in> keys (requests m). keep_route (config_routes cfg) (fst k)}"
  "keys (duration_count (reconcile_config cfg m)) = {k \<in> keys (duration_count m). keep_route (config_routes cfg) k}"
  "keys (duration_sum (reconcile_config cfg m)) =
     {k \<in> keys (duration_sum m). keep_route (config_routes cfg) k \<or> k \<notin> keys (duration_count m)}"
  "keys (cache_outcomes (reconcile_config cfg m)) = {k \<in> keys (cache_outcomes m). keep_route (config_routes cfg) (fst k)}"
  "keys (rate_limits (reconcile_config cfg m)) = {k \<in> keys (rate_limits m). keep_route (config_routes cfg) (fst k)}"
  "keys (policy_denials (reconcile_config cfg m)) = {k \<in> keys (policy_denials m). keep_route (config_routes cfg) (fst k)}"
  "keys (retries (reconcile_config cfg m)) = {k \<in> keys (retries m). keep_route (config_routes cfg) k}"
  "keys (health_gauge (reconcile_config cfg m)) = {}" "keys (active_gauge (reconcile_config cfg m)) = {}"
  by (simp_all add: reconcile_config_def Let_def keys_filter map_of_keys)

lemma bounded_reconcile:
  assumes "bounded_labels m"
  shows "bounded_labels (reconcile_config cfg m)"
proof -
  have rl: "route_labels (reconcile_config cfg m) = Collect (keep_route (config_routes cfg))"
    by (auto simp: route_labels_def reconcile_config_def Let_def keep_route_def)
  note b = assms [unfolded bounded_labels_def]
  from b have "keys (duration_sum m) = keys (duration_count m)" by (elim conjE)
  then have "keys (duration_sum (reconcile_config cfg m)) = keys (duration_count (reconcile_config cfg m))"
    unfolding reconcile_keys by blast
  then show ?thesis
    unfolding bounded_labels_def rl unfolding reconcile_keys
    by (intro conjI) (use b in \<open>force\<close>)+
qed

lemma bounded_run: "bounded_labels (metric_run es)"
proof (induction es rule: rev_induct)
  case Nil
  show ?case by (simp add: bounded_labels_def new_metrics_def)
next
  case (snoc e es)
  then show ?case
    by (cases e) (simp_all add: bounded_request bounded_decisions bounded_gauges bounded_reconcile)
qed

lemma allowed_step:
  "allowed_routes (metric_step m e) = (case e of Reconcile cfg \<Rightarrow> config_routes cfg | _ \<Rightarrow> allowed_routes m)"
  "allowed_backends (metric_step m e) = (case e of Reconcile cfg \<Rightarrow> config_backends cfg | _ \<Rightarrow> allowed_backends m)"
  "reconciled (metric_step m e) \<longleftrightarrow> (case e of Reconcile _ \<Rightarrow> True | _ \<Rightarrow> reconciled m)"
  by (cases e; simp add: observe_request_def observe_rate_limit_decision_def observe_policy_denial_def
      set_backend_health_def set_backend_active_def reconcile_config_def Let_def)+

definition is_reconcile :: "metric_event \<Rightarrow> bool" where
  "is_reconcile e \<longleftrightarrow> (case e of Reconcile _ \<Rightarrow> True | _ \<Rightarrow> False)"

lemma allowed_run:
  assumes "list_all (\<lambda>e. \<not> is_reconcile e) fs"
  shows "allowed_routes (metric_run (es @ Reconcile cfg # fs)) = config_routes cfg \<and>
    allowed_backends (metric_run (es @ Reconcile cfg # fs)) = config_backends cfg \<and>
    reconciled (metric_run (es @ Reconcile cfg # fs))"
  using assms
proof (induction fs rule: rev_induct)
  case Nil
  show ?case by (simp add: reconcile_config_def Let_def)
next
  case (snoc e fs)
  then have "metric_run (es @ Reconcile cfg # fs @ [e]) = metric_step (metric_run (es @ Reconcile cfg # fs)) e"
    using metric_run_snoc [of "es @ Reconcile cfg # fs" e] by simp
  with snoc show ?case by (simp add: allowed_step is_reconcile_def split: metric_event.splits)
qed



section \<open>Exact counters\<close>

definition requests_for :: "string \<Rightarrow> metrics \<Rightarrow> 64 word" where
  "requests_for rt m = sum_list (map snd (filter (\<lambda>(k, _). fst k = rt) (requests m)))"

definition count_for :: "string \<Rightarrow> metrics \<Rightarrow> 64 word" where
  "count_for rt m = sum_list (map snd (filter (\<lambda>(k, _). k = rt) (duration_count m)))"

lemma sum_add_to:
  fixes n :: "'v::comm_monoid_add"
  shows "sum_list (map snd (filter (\<lambda>(k, _). P k) (add_to key n t))) =
    sum_list (map snd (filter (\<lambda>(k, _). P k) t)) + (if P key then n else 0)"
  unfolding add_to_def by (induction t) (auto simp: ac_simps)

definition done_with :: "string \<Rightarrow> metric_event \<Rightarrow> bool" where
  "done_with rt e \<longleftrightarrow> (case e of RequestDone rt' _ _ _ _ _ \<Rightarrow> rt' = rt | _ \<Rightarrow> False)"

definition keeps_route :: "string \<Rightarrow> metric_event \<Rightarrow> bool" where
  "keeps_route rt e \<longleftrightarrow> (case e of Reconcile cfg \<Rightarrow> rt \<in> config_routes cfg \<or> rt = ''unmatched'' | _ \<Rightarrow> True)"

lemma allowed_kept:
  "list_all (keeps_route rt) es \<Longrightarrow> reconciled (metric_run es) \<Longrightarrow>
   rt \<in> allowed_routes (metric_run es) \<or> rt = ''unmatched''"
  by (induction es rule: rev_induct)
     (auto simp: allowed_step keeps_route_def new_metrics_def split: metric_event.splits)

lemma counters_step:
  assumes "rt \<noteq> ''retired''" "reconciled m \<longrightarrow> rt \<in> allowed_routes m \<or> rt = ''unmatched''" "keeps_route rt e"
  shows "requests_for rt (metric_step m e) = requests_for rt m + of_bool (done_with rt e) \<and>
    count_for rt (metric_step m e) = count_for rt m + of_bool (done_with rt e)"
proof (cases e)
  case (RequestDone rt' meth st att res dur)
  have "route_label m rt' = rt \<longleftrightarrow> rt' = rt" using assms(1,2) by (auto simp: route_label_def)
  then show ?thesis
    by (simp add: RequestDone requests_for_def count_for_def observe_request_def Let_def done_with_def
        sum_add_to [where P = "\<lambda>k. fst k = rt"] sum_add_to [where P = "\<lambda>k. k = rt"])
next
  case (Reconcile cfg)
  have "keep_route (config_routes cfg) rt" using assms(3) by (auto simp: Reconcile keeps_route_def keep_route_def)
  then have "filter (\<lambda>(k, _). fst k = rt) (filter (\<lambda>(k, _). keep_route (config_routes cfg) (fst k)) t) =
      filter (\<lambda>(k, _). fst k = rt) t"
    and "filter (\<lambda>(k, _). k = rt) (filter (\<lambda>(k, _). keep_route (config_routes cfg) k) u) = filter (\<lambda>(k, _). k = rt) u"
    for t :: "(string \<times> string \<times> int, 64 word) table" and u :: "(string, 64 word) table"
    by (auto intro!: filter_cong)
  then show ?thesis
    by (simp add: Reconcile requests_for_def count_for_def reconcile_config_def Let_def done_with_def)
qed (simp_all add: requests_for_def count_for_def done_with_def observe_rate_limit_decision_def
      observe_policy_denial_def set_backend_health_def set_backend_active_def Let_def)

text \<open>
  The request counters are exact: for a route that every reload keeps, the series of that
  route over all methods and statuses add up to the number of its completed requests, and so
  does the count of its duration summary (both modulo \<open>2^64\<close>).
\<close>

lemma counters_run:
  assumes "rt \<noteq> ''retired''" and "list_all (keeps_route rt) es"
  shows "requests_for rt (metric_run es) = of_nat (length (filter (done_with rt) es)) \<and>
    count_for rt (metric_run es) = of_nat (length (filter (done_with rt) es))"
  using assms(2)
proof (induction es rule: rev_induct)
  case Nil
  show ?case by (simp add: requests_for_def count_for_def new_metrics_def)
next
  case (snoc e es)
  with counters_step [OF assms(1), of "metric_run es" e] allowed_kept [of rt es] show ?case by simp
qed


end
