(* ===== verification/Observability.thy ===== *)
theory Observability
  imports Metrics ProxyProps
begin

text \<open>
  The way of an observation from a handler to the log and the metrics (package \<open>observability\<close>,
  and the wiring in \<open>cmd/goproxy\<close>). An observer is a record of the methods it has; the optional
  interfaces the source asks for with a type assertion are options. All observers act on one
  state, here the log and the registry.
\<close>

section \<open>Fanout\<close>

record 's request_observer =
  ob_request :: "string \<Rightarrow> string \<Rightarrow> string \<Rightarrow> string \<Rightarrow> string \<Rightarrow> int \<Rightarrow> int \<Rightarrow> string \<Rightarrow> duration \<Rightarrow> 's \<Rightarrow> 's"
  ob_rate_limit :: "(string \<Rightarrow> string \<Rightarrow> 's \<Rightarrow> 's) option"
  ob_policy :: "(string \<Rightarrow> string \<Rightarrow> 's \<Rightarrow> 's) option"
  ob_reconcile :: "(config \<Rightarrow> 's \<Rightarrow> 's) option"

record 's backend_observer =
  bo_health :: "string \<Rightarrow> string \<Rightarrow> bool \<Rightarrow> 's \<Rightarrow> 's"
  bo_active :: "string \<Rightarrow> string \<Rightarrow> int64 \<Rightarrow> 's \<Rightarrow> 's"

record 's fanout =
  fo_requests :: "'s request_observer list"
  fo_backends :: "'s backend_observer list"

definition fanout_request ::
  "'s fanout \<Rightarrow> string \<Rightarrow> string \<Rightarrow> string \<Rightarrow> string \<Rightarrow> string \<Rightarrow> int \<Rightarrow> int \<Rightarrow> string \<Rightarrow> duration \<Rightarrow> 's \<Rightarrow> 's" where
  "fanout_request f ident rt meth p b status attempts res dur s =
     foldl (\<lambda>s ob. ob_request ob ident rt meth p b status attempts res dur s) s (fo_requests f)"

definition fanout_rate_limit :: "'s fanout \<Rightarrow> string \<Rightarrow> string \<Rightarrow> 's \<Rightarrow> 's" where
  "fanout_rate_limit f rt d s =
     foldl (\<lambda>s ob. case ob_rate_limit ob of None \<Rightarrow> s | Some call \<Rightarrow> call rt d s) s (fo_requests f)"

definition fanout_policy :: "'s fanout \<Rightarrow> string \<Rightarrow> string \<Rightarrow> 's \<Rightarrow> 's" where
  "fanout_policy f rt r s =
     foldl (\<lambda>s ob. case ob_policy ob of None \<Rightarrow> s | Some call \<Rightarrow> call rt r s) s (fo_requests f)"

definition fanout_health :: "'s fanout \<Rightarrow> string \<Rightarrow> string \<Rightarrow> bool \<Rightarrow> 's \<Rightarrow> 's" where
  "fanout_health f pl b healthy s = foldl (\<lambda>s ob. bo_health ob pl b healthy s) s (fo_backends f)"

definition fanout_active :: "'s fanout \<Rightarrow> string \<Rightarrow> string \<Rightarrow> int64 \<Rightarrow> 's \<Rightarrow> 's" where
  "fanout_active f pl b n s = foldl (\<lambda>s ob. bo_active ob pl b n s) s (fo_backends f)"

definition fanout_reconcile :: "'s fanout \<Rightarrow> config \<Rightarrow> 's \<Rightarrow> 's" where
  "fanout_reconcile f cfg s =
     foldl (\<lambda>s ob. case ob_reconcile ob of None \<Rightarrow> s | Some call \<Rightarrow> call cfg s) s (fo_requests f)"

section \<open>The observers of the program\<close>

text \<open>\<open>RequestLogger\<close> writes one record per request; here the fields it passes to \<open>slog\<close>.\<close>

record log_record =
  lg_request_id :: string
  lg_route :: string
  lg_method :: string
  lg_path :: string
  lg_backend :: string
  lg_status :: int
  lg_attempts :: int
  lg_cache :: string
  lg_duration :: duration

type_synonym sinks = "log_record list \<times> metrics"

definition request_logger :: "sinks request_observer" where
  "request_logger = \<lparr>
     ob_request = (\<lambda>ident rt meth p b status attempts res dur (lg, m).
       (lg @ [\<lparr>lg_request_id = ident, lg_route = rt, lg_method = meth, lg_path = p, lg_backend = b,
          lg_status = status, lg_attempts = attempts, lg_cache = res, lg_duration = dur\<rparr>], m)),
     ob_rate_limit = None, ob_policy = None, ob_reconcile = None\<rparr>"

definition metrics_observer :: "sinks request_observer" where
  "metrics_observer = \<lparr>
     ob_request = (\<lambda>_ rt meth _ _ status attempts res dur (lg, m). (lg, observe_request rt meth status attempts res dur m)),
     ob_rate_limit = Some (\<lambda>rt d (lg, m). (lg, observe_rate_limit_decision rt d m)),
     ob_policy = Some (\<lambda>rt r (lg, m). (lg, observe_policy_denial rt r m)),
     ob_reconcile = Some (\<lambda>cfg (lg, m). (lg, reconcile_config cfg m))\<rparr>"

definition metrics_gauges :: "sinks backend_observer" where
  "metrics_gauges = \<lparr>bo_health = (\<lambda>pl b healthy (lg, m). (lg, set_backend_health pl b healthy m)),
     bo_active = (\<lambda>pl b n (lg, m). (lg, set_backend_active pl b n m))\<rparr>"

definition program_fanout :: "sinks fanout" where
  "program_fanout = \<lparr>fo_requests = [request_logger, metrics_observer], fo_backends = [metrics_gauges]\<rparr>"

text \<open>The calls a handler makes on its observer.\<close>

primrec deliver :: "'s fanout \<Rightarrow> observation \<Rightarrow> 's \<Rightarrow> 's" where
  "deliver f (ObserveRequest ident rt meth p b status attempts res dur) s =
     fanout_request f ident rt meth p b status attempts res dur s"
| "deliver f (ObserveRateLimit rt d) s = fanout_rate_limit f rt d s"
| "deliver f (ObservePolicyDeny rt r) s = fanout_policy f rt r s"
| "deliver f (SetBackendActive pl b n) s = fanout_active f pl b n s"

text \<open>What arrives at the registry: the same observations, as its own events.\<close>

primrec metric_event_of :: "observation \<Rightarrow> metric_event" where
  "metric_event_of (ObserveRequest ident rt meth p b status attempts res dur) = RequestDone rt meth status attempts res dur"
| "metric_event_of (ObserveRateLimit rt d) = RateDecision rt d"
| "metric_event_of (ObservePolicyDeny rt r) = PolicyDenial rt r"
| "metric_event_of (SetBackendActive pl b n) = ActiveChange pl b n"

definition is_request :: "observation \<Rightarrow> bool" where
  "is_request ob \<longleftrightarrow> (case ob of ObserveRequest _ _ _ _ _ _ _ _ _ \<Rightarrow> True | _ \<Rightarrow> False)"

lemma deliver_program:
  "snd (deliver program_fanout ob (lg, m)) = metric_step m (metric_event_of ob)"
  "length (fst (deliver program_fanout ob (lg, m))) = length lg + of_bool (is_request ob)"
  by (cases ob; simp add: program_fanout_def request_logger_def metrics_observer_def metrics_gauges_def
      fanout_request_def fanout_rate_limit_def fanout_policy_def fanout_active_def is_request_def)+

definition deliver_log :: "'s fanout \<Rightarrow> observation list \<Rightarrow> 's \<Rightarrow> 's" where
  "deliver_log f obs s = foldl (\<lambda>s ob. deliver f ob s) s obs"

lemma deliver_log_simps [simp]:
  "deliver_log f [] s = s" "deliver_log f (ob # obs) s = deliver_log f obs (deliver f ob s)"
  by (simp_all add: deliver_log_def)

lemma deliver_all:
  "snd (deliver_log program_fanout obs s) = foldl metric_step (snd s) (map metric_event_of obs) \<and>
   length (fst (deliver_log program_fanout obs s)) = length (fst s) + length (filter is_request obs)"
proof (induction obs arbitrary: s)
  case (Cons ob obs)
  with Cons.IH [of "deliver program_fanout ob s"] deliver_program [of ob "fst s" "snd s"] show ?case by simp
qed simp

section \<open>Every request is reported once\<close>

definition reported :: "thread \<Rightarrow> int" where
  "reported t = (case th_pc t of Leaving \<Rightarrow> 1 | LeaveCheck _ \<Rightarrow> 1 | Done \<Rightarrow> 1 | _ \<Rightarrow> 0)"

definition request_reports :: "shared \<Rightarrow> int" where
  "request_reports sh = int (length (filter is_request (sh_log sh)))"

lemma reports_observe [simp]:
  "request_reports (observe h ob sh) = request_reports sh + of_bool (h_observed h \<and> is_request ob)"
  by (simp add: request_reports_def observe_def)

lemma reports_cong: "sh_log sh' = sh_log sh \<Longrightarrow> request_reports sh' = request_reports sh"
  by (simp add: request_reports_def)

lemma is_request_simps [simp]:
  "is_request (ObserveRequest ident rt meth p b status attempts res dur)"
  "\<not> is_request (ObserveRateLimit rt d)" "\<not> is_request (ObservePolicyDeny rt r)" "\<not> is_request (SetBackendActive pl b n)"
  by (simp_all add: is_request_def)

lemma reports_frame [simp]:
  "request_reports (sh\<lparr>sh_in_flight := n\<rparr>) = request_reports sh" "request_reports (sh\<lparr>sh_limiters := l\<rparr>) = request_reports sh"
  "request_reports (sh\<lparr>sh_slots := n\<rparr>) = request_reports sh" "request_reports (sh\<lparr>sh_cache := c\<rparr>) = request_reports sh"
  "request_reports (sh\<lparr>sh_balancers := bl\<rparr>) = request_reports sh" "request_reports (sh\<lparr>sh_capture := n\<rparr>) = request_reports sh"
  "request_reports (sh\<lparr>sh_capture := n, sh_cache := c\<rparr>) = request_reports sh"
  "request_reports (sh\<lparr>sh_retired := f\<rparr>) = request_reports sh" "request_reports (close_idle_connections sh) = request_reports sh"
  "request_reports (update_backend b x sh) = request_reports sh"
  by (simp_all add: request_reports_def close_idle_connections_def update_backend_def)

lemma reports_backend [simp]:
  "request_reports (acquire_backend h pl b sh) = request_reports sh"
  "request_reports (release_backend h pl b f sh) = request_reports sh"
  by (simp_all add: acquire_backend_def release_backend_def Let_def)

text \<open>A step reports a request exactly when it moves it past its report.\<close>

definition reports :: "handler \<Rightarrow> shared \<Rightarrow> thread \<Rightarrow> shared \<Rightarrow> thread \<Rightarrow> bool" where
  "reports h sh t sh' t' \<longleftrightarrow> request_reports sh' = request_reports sh + of_bool (h_observed h) * (reported t' - reported t)"

lemma reports_admission:
  "th_pc t = Arrived \<Longrightarrow> serve_start h now sh t = (sh', t') \<Longrightarrow> reports h sh t sh' t'"
  "th_pc t = Limiting \<Longrightarrow> serve_limit h now sh t = (sh', t') \<Longrightarrow> reports h sh t sh' t'"
  "th_pc t = Slotting \<Longrightarrow> serve_slot h sh t = (sh', t') \<Longrightarrow> reports h sh t sh' t'"
  "th_pc t = Caching \<Longrightarrow> serve_cache now sh t = (sh', t') \<Longrightarrow> reports h sh t sh' t'"
  "th_pc t = Selecting \<Longrightarrow> serve_select h sh t = (sh', t') \<Longrightarrow> reports h sh t sh' t'"
  "th_pc t = Acquiring \<Longrightarrow> serve_acquire h sh t = (sh', t') \<Longrightarrow> reports h sh t sh' t'"
  by (auto simp: serve_start_def serve_limit_def serve_slot_def serve_cache_def serve_select_def serve_acquire_def
      reports_def reported_def fail_with_def crash_def observers Let_def
      split: if_splits option.splits prod.splits sum.splits)

lemma reports_upstream:
  "th_pc t = Attempting \<Longrightarrow> attempt_error h e sh t = (sh', t') \<Longrightarrow> reports h sh t sh' t'"
  "th_pc t = Attempting \<Longrightarrow> attempt_response h resp now sh t = (sh', t') \<Longrightarrow> reports h sh t sh' t'"
  "th_pc t = Failed \<Longrightarrow> attempt_failed h sh t = (sh', t') \<Longrightarrow> reports h sh t sh' t'"
  "th_pc t = Reselecting \<Longrightarrow> attempt_reselect h sh t = (sh', t') \<Longrightarrow> reports h sh t sh' t'"
  "th_pc t = Reacquiring \<Longrightarrow> attempt_reacquire h ge sh t = (sh', t') \<Longrightarrow> reports h sh t sh' t'"
  by (auto simp: attempt_error_def attempt_response_def attempt_failed_def attempt_reselect_def attempt_reacquire_def
      release_held_def reports_def reported_def crash_def Let_def
      split: if_splits option.splits prod.splits sum.splits)

lemma reports_closing:
  "th_pc t = Closing \<Longrightarrow> close_capture sh t = (sh', t') \<Longrightarrow> reports h sh t sh' t'"
  "th_pc t = Releasing \<Longrightarrow> close_release h sh t = (sh', t') \<Longrightarrow> reports h sh t sh' t'"
  "th_pc t = Finishing \<Longrightarrow> serve_finish sh t = (sh', t') \<Longrightarrow> reports h sh t sh' t'"
  "th_pc t = Reporting \<Longrightarrow> serve_report h ident now sh t = (sh', t') \<Longrightarrow> reports h sh t sh' t'"
  "th_pc t = Leaving \<Longrightarrow> serve_leave sh t = (sh', t') \<Longrightarrow> reports h sh t sh' t'"
  "th_pc t = LeaveCheck z \<Longrightarrow> serve_leave_check z sh t = (sh', t') \<Longrightarrow> reports h sh t sh' t'"
  by (auto simp: close_capture_def close_release_def release_held_def serve_finish_def serve_report_def
      serve_leave_def serve_leave_check_def reports_def reported_def Let_def
      split: if_splits option.splits prod.splits)

lemma reports_chunk:
  assumes "th_pc t = Streaming" "stream_chunk h p e ok now1 now2 sh t = (sh', t')"
  shows "reports h sh t sh' t'"
proof -
  have "request_reports sh1 = request_reports sh" if "capture_chunk h p eof now1 now2 sh t = Some (sh1, t1)" for eof sh1 t1
    using that by (auto simp: capture_chunk_def Let_def split: option.splits prod.splits)
  then have "request_reports sh' = request_reports sh"
    using assms(2) by (auto simp: stream_chunk_def Let_def split: option.splits prod.splits if_splits read_end.splits)
  moreover have "reported t' = reported t" using stream_chunk_frame [OF assms(2)] assms(1) by (auto simp: reported_def)
  ultimately show ?thesis by (simp add: reports_def)
qed

lemma step_reports: "serve_step h ident i sh t = (sh', t') \<Longrightarrow> reports h sh t sh' t'"
proof (erule step_cases)
  assume "sh' = sh" "t' = t"
  then show "reports h sh t sh' t'" by (simp add: reports_def)
qed (blast intro: reports_admission reports_upstream reports_closing reports_chunk)+

lemma reported_new: "reported (new_thread r ident) = 0"
  by (simp add: reported_def new_thread_def)

lemma run_reports:
  assumes "request_reports (sy_shared sy) = of_bool (h_observed h) * total reported sy"
  shows "request_reports (sy_shared (sys_run h sy as)) = of_bool (h_observed h) * total reported (sys_run h sy as)"
  using assms
proof (induction as arbitrary: sy)
  case (Cons a as)
  have "request_reports (sy_shared (sys_step h sy a)) = of_bool (h_observed h) * total reported (sys_step h sy a)"
  proof (cases a)
    case (Step k i)
    show ?thesis
    proof (cases "k < length (sy_threads sy)")
      case True
      obtain ident t where t: "sy_threads sy ! k = (ident, t)" by fastforce
      obtain sh' t' where step: "serve_step h ident i (sy_shared sy) t = (sh', t')" by fastforce
      from step_reports [OF step] Cons.prems show ?thesis
        by (simp add: Step True t step reports_def total_update [OF True t] algebra_simps)
    qed (use Cons.prems Step in simp)
  qed (use Cons.prems in \<open>simp_all add: total_arrive reported_new retire_store_def retire_load_def\<close>)
  from Cons.IH [OF this] show ?case by (simp add: sys_run_def)
qed (simp add: sys_run_def)

text \<open>The log and the registry count the same requests, route by route.\<close>

definition of_route :: "string \<Rightarrow> observation \<Rightarrow> bool" where
  "of_route rt ob \<longleftrightarrow> (case ob of ObserveRequest _ rt' _ _ _ _ _ _ _ \<Rightarrow> rt' = rt | _ \<Rightarrow> False)"

lemma deliver_routes:
  "length (filter (\<lambda>l. lg_route l = rt) (fst (deliver_log program_fanout obs s))) =
   length (filter (\<lambda>l. lg_route l = rt) (fst s)) + length (filter (of_route rt) obs)"
proof (induction obs arbitrary: s)
  case (Cons ob obs)
  have "length (filter (\<lambda>l. lg_route l = rt) (fst (deliver program_fanout ob s))) =
      length (filter (\<lambda>l. lg_route l = rt) (fst s)) + of_bool (of_route rt ob)"
    by (cases s; cases ob; simp add: program_fanout_def request_logger_def metrics_observer_def metrics_gauges_def
        fanout_request_def fanout_rate_limit_def fanout_policy_def fanout_active_def of_route_def)
  with Cons.IH [of "deliver program_fanout ob s"] show ?case by simp
qed simp

lemma events_of_route: "length (filter (done_with rt \<circ> metric_event_of) obs) = length (filter (of_route rt) obs)"
proof (induction obs)
  case (Cons ob obs)
  then show ?case by (cases ob) (simp_all add: done_with_def of_route_def)
qed simp

lemma events_keep_routes: "list_all (keeps_route rt) (map metric_event_of obs)"
proof (induction obs)
  case (Cons ob obs)
  then show ?case by (cases ob) (simp_all add: keeps_route_def)
qed simp

text \<open>
  C13. Every request is reported exactly once. In every interleaving of a handler with an observer,
  whose observations go through the program's fanout to the request log and the registry, the log
  has one record for each request whose deferred report has run, whatever way the request ended
  (refused, served from the cache, failed, panicked, retried or answered), and none for the
  others; and for every route the request counters of the registry add up to the log records.
\<close>

theorem every_request_reported:
  assumes "h_observed h" and "sh_log sh = []" and "sy = run_from h sh as"
    and "(records, registry) = deliver_log program_fanout (sh_log (sy_shared sy)) ([], new_metrics)"
  shows "int (length records) = int (length (filter (\<lambda>(_, t). th_pc t \<in> {Leaving, LeaveCheck True, LeaveCheck False, Done}) (sy_threads sy))) \<and>
    (\<forall>rt. rt = ''retired'' \<or>
      requests_for rt registry = of_nat (length (filter (\<lambda>l. lg_route l = rt) records)))"
proof -
  let ?log = "sh_log (sy_shared sy)" and ?s = "deliver_log program_fanout (sh_log (sy_shared sy)) ([], new_metrics)"
  have parts: "records = fst ?s" "registry = snd ?s" using assms(4) by (metis fst_conv snd_conv)+
  have "(\<lambda>t. of_bool (th_pc t \<in> {Leaving, LeaveCheck True, LeaveCheck False, Done})) = reported"
    by (rule ext) (auto simp: reported_def split: pc.splits bool.splits)
  with total_filter [of "\<lambda>t. th_pc t \<in> {Leaving, LeaveCheck True, LeaveCheck False, Done}" sy]
  have "total reported sy = int (length (filter (\<lambda>(_, t). th_pc t \<in> {Leaving, LeaveCheck True, LeaveCheck False, Done}) (sy_threads sy)))"
    by (simp add: comp_def case_prod_beta')
  moreover have "request_reports (sy_shared sy) = of_bool (h_observed h) * total reported sy"
    unfolding assms(3) run_from_def by (rule run_reports) (simp add: request_reports_def assms(2) total_def)
  moreover have "int (length records) = request_reports (sy_shared sy)"
    using deliver_all [of ?log "([], new_metrics)"] by (simp add: parts request_reports_def)
  ultimately have "int (length records) =
      int (length (filter (\<lambda>(_, t). th_pc t \<in> {Leaving, LeaveCheck True, LeaveCheck False, Done}) (sy_threads sy)))"
    using assms(1) by simp
  moreover have "requests_for rt registry = of_nat (length (filter (\<lambda>l. lg_route l = rt) records))" if "rt \<noteq> ''retired''" for rt
    using counters_run [OF that events_keep_routes, of ?log] deliver_all [of ?log "([], new_metrics)"]
      deliver_routes [of rt ?log "([], new_metrics)"]
    by (simp add: parts metric_run_def events_of_route)
  ultimately show ?thesis by blast
qed

definition demo_observed :: system where
  "demo_observed = run_from (demo_handler\<lparr>h_observed := True\<rparr>) demo_shared demo_run"

theorem every_request_reported_witness:
  "case deliver_log program_fanout (sh_log (sy_shared demo_observed)) ([], new_metrics) of (records, registry) \<Rightarrow>
     int (length records) =
       int (length (filter (\<lambda>(_, t). th_pc t \<in> {Leaving, LeaveCheck True, LeaveCheck False, Done}) (sy_threads demo_observed))) \<and>
     requests_for ''api'' registry = of_nat (length (filter (\<lambda>l. lg_route l = ''api'') records))"
proof -
  obtain records registry where d: "deliver_log program_fanout (sh_log (sy_shared demo_observed)) ([], new_metrics) = (records, registry)"
    by fastforce
  have "h_observed (demo_handler\<lparr>h_observed := True\<rparr>)" "sh_log demo_shared = []" by (simp_all add: demo_shared_def)
  note all = every_request_reported [OF this demo_observed_def d [symmetric]]
  have "''api'' \<noteq> ''retired''" by simp
  with spec [OF conjunct2 [OF all], of "''api''"]
  have "requests_for ''api'' registry = of_nat (length (filter (\<lambda>l. lg_route l = ''api'') records))"
    by blast
  then show ?thesis unfolding d prod.case by (rule conjI [OF conjunct1 [OF all]])
qed

end
