(* ===== verification/Admin.thy ===== *)
theory Admin
  imports Validate
begin

text \<open>
  The operational endpoints (package \<open>admin\<close>) and the credentials that \<open>cmd/goproxy\<close> gives them.
  A handler takes the request and the response written so far and returns the response; a handler
  behind \<open>requireCredentials\<close> also returns the principal it left in the request's context. The
  router is \<open>chi\<close>, a library the source calls: it is a parameter, a function of the routes that
  are registered.
\<close>

section \<open>Responses\<close>

text \<open>
  \<open>net/http\<close>'s response writer keeps the first status (\<open>ar_sent\<close>); \<open>statusWriter\<close> around it
  records the last one it was called with (\<open>ar_recorded\<close>, 200 before).
\<close>

record admin_reply =
  ar_header :: header
  ar_sent :: "int option"
  ar_recorded :: int
  ar_body :: string

definition new_admin_reply :: admin_reply where
  "new_admin_reply = \<lparr>ar_header = [], ar_sent = None, ar_recorded = 200, ar_body = []\<rparr>"

definition status_write_header :: "int \<Rightarrow> admin_reply \<Rightarrow> admin_reply" where
  "status_write_header st w = w\<lparr>ar_recorded := st, ar_sent := Some (case ar_sent w of None \<Rightarrow> st | Some s \<Rightarrow> s)\<rparr>"

definition admin_write :: "string \<Rightarrow> admin_reply \<Rightarrow> admin_reply" where
  "admin_write s w = w\<lparr>ar_sent := Some (case ar_sent w of None \<Rightarrow> 200 | Some st \<Rightarrow> st), ar_body := ar_body w @ s\<rparr>"

text \<open>\<open>http.Error\<close>, which ends the text with a newline of its own.\<close>

definition http_error :: "string \<Rightarrow> int \<Rightarrow> admin_reply \<Rightarrow> admin_reply" where
  "http_error msg code w =
     (let h1 = hdr_set (hdr_del (ar_header w) ''Content-Length'') ''Content-Type'' ''text/plain; charset=utf-8'';
          h2 = hdr_set h1 ''X-Content-Type-Options'' ''nosniff''
      in admin_write (msg @ [CHR 0x0A]) (status_write_header code (w\<lparr>ar_header := h2\<rparr>)))"

type_synonym admin_handler = "request \<Rightarrow> admin_reply \<Rightarrow> admin_reply"

section \<open>Credentials and scopes\<close>

record credential =
  cr_name :: string
  cr_token :: string
  cr_scopes :: "string list"

primrec credential_loop :: "string \<Rightarrow> credential list \<Rightarrow> (string \<times> string list) option" where
  "credential_loop token [] = None"
| "credential_loop token (c # cs) =
     (if cr_token c \<noteq> [] \<and> token = cr_token c then Some (cr_name c, cr_scopes c) else credential_loop token cs)"

definition match_credential :: "request \<Rightarrow> credential list \<Rightarrow> (string \<times> string list) option" where
  "match_credential r cs =
     (let hdr = hdr_get (r_header r) ''Authorization'' in
      if \<not> has_prefix hdr ''Bearer '' then None
      else credential_loop (trim_prefix hdr ''Bearer '') cs)"

definition required_scope :: "request \<Rightarrow> string" where
  "required_scope r =
     (if r_method r = ''GET'' \<and> (path (r_url r) = ''/livez'' \<or> path (r_url r) = ''/readyz'') then ''health''
      else if r_method r = ''GET'' \<and> path (r_url r) = ''/metrics'' then ''metrics''
      else ''admin'')"

primrec scope_allowed :: "string list \<Rightarrow> string \<Rightarrow> bool" where
  "scope_allowed [] required = False"
| "scope_allowed (s # ss) required =
     (if s = ''admin'' \<or> s = required \<or> s = ''read'' \<and> (required = ''health'' \<or> required = ''metrics'') then True
      else scope_allowed ss required)"

definition unauthorized :: "admin_reply \<Rightarrow> admin_reply" where
  "unauthorized w = http_error (''unauthorized'' @ [CHR 0x0A]) 401
     (w\<lparr>ar_header := hdr_set (ar_header w) ''WWW-Authenticate''
        (''Bearer realm='' @ [CHR 0x22] @ ''goproxy-admin'' @ [CHR 0x22])\<rparr>)"

definition require_credentials ::
  "admin_handler \<Rightarrow> credential list \<Rightarrow> request \<Rightarrow> admin_reply \<Rightarrow> string option \<times> admin_reply" where
  "require_credentials handler cs r w =
     (case match_credential r cs of
        None \<Rightarrow> (None, unauthorized w)
      | Some (name, scopes) \<Rightarrow>
          if \<not> scope_allowed scopes (required_scope r)
          then (Some name, http_error (''forbidden'' @ [CHR 0x0A]) 403 w)
          else (Some name, handler r w))"

section \<open>Audit\<close>

text \<open>The fields of an audit event; the duration in microseconds.\<close>

record audit_event =
  au_method :: string
  au_path :: string
  au_status :: int
  au_auth :: string
  au_principal :: string
  au_remote_addr :: string
  au_micros :: int64

definition admin_principal :: "string option \<Rightarrow> string" where
  "admin_principal ctx = (case ctx of Some p \<Rightarrow> if p \<noteq> [] then p else ''none'' | None \<Rightarrow> ''none'')"

definition remote_addr :: "string \<Rightarrow> string" where
  "remote_addr value = (case split_host_port value of None \<Rightarrow> value | Some (hst, _) \<Rightarrow> hst)"

definition audit_event_of :: "bool \<Rightarrow> time \<Rightarrow> time \<Rightarrow> request \<Rightarrow> string option \<times> admin_reply \<Rightarrow> audit_event" where
  "audit_event_of auth_enabled started ended r res =
     \<lparr>au_method = r_method r, au_path = path (r_url r), au_status = ar_recorded (snd res),
      au_auth = (if auth_enabled
        then if ar_recorded (snd res) = 401 then ''unauthorized''
             else if ar_recorded (snd res) = 403 then ''forbidden'' else ''authorized''
        else ''disabled''),
      au_principal = admin_principal (fst res), au_remote_addr = remote_addr (r_remote_addr r),
      au_micros = go_div (time_sub ended started) 1000\<rparr>"

section \<open>The handler\<close>

definition probe :: "(unit \<Rightarrow> bool) option \<Rightarrow> admin_handler" where
  "probe check r w0 =
     (let w = w0\<lparr>ar_header := hdr_set (ar_header w0) ''Content-Type'' ''text/plain; charset=utf-8''\<rparr> in
      if (case check of None \<Rightarrow> True | Some f \<Rightarrow> \<not> f ())
      then admin_write (''not ready'' @ [CHR 0x0A]) (status_write_header 503 w)
      else admin_write (''ok'' @ [CHR 0x0A]) (status_write_header 200 w))"

record admin_options =
  ao_audit :: bool
  ao_credentials :: "credential list"

definition with_audit_logger :: "bool \<Rightarrow> admin_options \<Rightarrow> admin_options" where
  "with_audit_logger logger op = op\<lparr>ao_audit := logger\<rparr>"

definition with_credentials :: "credential list \<Rightarrow> admin_options \<Rightarrow> admin_options" where
  "with_credentials cs op = op\<lparr>ao_credentials := cs\<rparr>"

text \<open>A registered route: the method \<open>Get\<close> asks for, or none (\<open>Handle\<close>); its pattern; its handler.\<close>

type_synonym admin_route = "string option \<times> string \<times> admin_handler"

definition admin_routes :: "(unit \<Rightarrow> bool) option \<Rightarrow> (unit \<Rightarrow> bool) option \<Rightarrow> admin_handler option \<Rightarrow> admin_route list" where
  "admin_routes live ready metrics_handler =
     [(Some ''GET'', ''/livez'', probe live), (Some ''GET'', ''/readyz'', probe ready)] @
     (case metrics_handler of None \<Rightarrow> [] | Some h \<Rightarrow> [(None, ''/metrics'', h)])"

definition all_credentials :: "string \<Rightarrow> admin_options \<Rightarrow> credential list" where
  "all_credentials bearer op = ao_credentials op @
     (if bearer \<noteq> [] then [\<lparr>cr_name = ''legacy-admin'', cr_token = bearer, cr_scopes = [''admin'']\<rparr>] else [])"

text \<open>
  \<open>NewHandler\<close>, applied to a request that starts and ends at given times: the response, and the
  audit event when there is an audit logger.
\<close>

definition new_admin_handler ::
  "(admin_route list \<Rightarrow> admin_handler) \<Rightarrow> (unit \<Rightarrow> bool) option \<Rightarrow> (unit \<Rightarrow> bool) option \<Rightarrow> admin_handler option \<Rightarrow>
   string \<Rightarrow> (admin_options \<Rightarrow> admin_options) list \<Rightarrow> time \<Rightarrow> time \<Rightarrow> request \<Rightarrow> admin_reply \<times> audit_event option" where
  "new_admin_handler chi live ready metrics_handler bearer opts started ended r =
     (let op = foldl (\<lambda>op opt. opt op) \<lparr>ao_audit = False, ao_credentials = []\<rparr> opts;
          cs = all_credentials bearer op;
          router = chi (admin_routes live ready metrics_handler);
          res = (if length cs > 0 then require_credentials router cs r new_admin_reply
                 else (None, router r new_admin_reply))
      in (snd res, if ao_audit op then Some (audit_event_of (length cs > 0) started ended r res) else None))"

section \<open>The credentials of the program\<close>

text \<open>\<open>os.Getenv\<close> is a parameter. The error is the name of the variable that is empty or unset.\<close>

definition admin_token_value :: "(string \<Rightarrow> string) \<Rightarrow> config \<Rightarrow> string + string" where
  "admin_token_value getenv cfg =
     (if auth_token_env (c_admin cfg) = [] then Inr []
      else let token = getenv (auth_token_env (c_admin cfg))
           in if token = [] then Inl (auth_token_env (c_admin cfg)) else Inr token)"

primrec token_credentials :: "(string \<Rightarrow> string) \<Rightarrow> credential list \<Rightarrow> admin_token list \<Rightarrow> string + credential list" where
  "token_credentials getenv acc [] = Inr acc"
| "token_credentials getenv acc (t # ts) =
     (let token = getenv (at_env t)
      in if token = [] then Inl (at_env t)
         else token_credentials getenv (acc @ [\<lparr>cr_name = at_name t, cr_token = token, cr_scopes = at_scopes t\<rparr>]) ts)"

definition admin_credentials :: "(string \<Rightarrow> string) \<Rightarrow> config \<Rightarrow> string + credential list" where
  "admin_credentials getenv cfg =
     (if auth_token_env (c_admin cfg) \<noteq> [] then
        (case admin_token_value getenv cfg of
           Inl e \<Rightarrow> Inl e
         | Inr token \<Rightarrow>
             token_credentials getenv [\<lparr>cr_name = ''legacy-admin'', cr_token = token, cr_scopes = [''admin'']\<rparr>] (a_tokens (c_admin cfg)))
      else token_credentials getenv [] (a_tokens (c_admin cfg)))"

section \<open>Access control\<close>

text \<open>The contract: the first credential whose token was sent decides, by its scopes.\<close>

definition bearer_of :: "request \<Rightarrow> string option" where
  "bearer_of r =
     (let hdr = hdr_get (r_header r) ''Authorization'' in
      if take 7 hdr = ''Bearer '' then Some (drop 7 hdr) else None)"

definition credential_for :: "request \<Rightarrow> credential list \<Rightarrow> credential option" where
  "credential_for r cs = (case bearer_of r of None \<Rightarrow> None
     | Some token \<Rightarrow> find (\<lambda>c. cr_token c = token \<and> token \<noteq> []) cs)"

definition grants :: "credential \<Rightarrow> request \<Rightarrow> bool" where
  "grants c r \<longleftrightarrow> ''admin'' \<in> set (cr_scopes c) \<or>
     (r_method r = ''GET'' \<and>
       (path (r_url r) \<in> {''/livez'', ''/readyz''} \<and> set (cr_scopes c) \<inter> {''health'', ''read''} \<noteq> {} \<or>
        path (r_url r) = ''/metrics'' \<and> set (cr_scopes c) \<inter> {''metrics'', ''read''} \<noteq> {}))"

lemma credential_loop_find:
  "credential_loop token cs =
     map_option (\<lambda>c. (cr_name c, cr_scopes c)) (find (\<lambda>c. cr_token c = token \<and> token \<noteq> []) cs)"
  by (induction cs) auto

lemma bearer_length: "length ''Bearer '' = 7" by simp

lemma match_credential_iff:
  "match_credential r cs = map_option (\<lambda>c. (cr_name c, cr_scopes c)) (credential_for r cs)"
  unfolding match_credential_def credential_for_def bearer_of_def Let_def has_prefix_def trim_prefix_def
    bearer_length credential_loop_find
  by simp

lemma scope_allowed_iff:
  "scope_allowed ss required \<longleftrightarrow> ''admin'' \<in> set ss \<or> required \<in> set ss \<or>
     required \<in> {''health'', ''metrics''} \<and> ''read'' \<in> set ss"
  by (induction ss) auto

lemma allowed_grants: "scope_allowed (cr_scopes c) (required_scope r) \<longleftrightarrow> grants c r"
  unfolding scope_allowed_iff grants_def required_scope_def
  by (cases "''admin'' \<in> set (cr_scopes c)"; cases "r_method r = ''GET''"; cases "path (r_url r) = ''/metrics''";
      cases "path (r_url r) = ''/livez''"; simp)

lemma require_credentials_cases:
  "require_credentials handler cs r w =
     (case credential_for r cs of
        None \<Rightarrow> (None, unauthorized w)
      | Some c \<Rightarrow> (Some (cr_name c), if grants c r then handler r w else http_error (''forbidden'' @ [CHR 0x0A]) 403 w))"
  by (simp add: require_credentials_def match_credential_iff allowed_grants split: option.splits)

text \<open>Every answer is 401 or 403 of the guard, or the router's, and the audit event says which.\<close>

lemma error_status [simp]:
  "ar_recorded (http_error msg code w) = code"
  "ar_sent (http_error msg code w) = Some (case ar_sent w of None \<Rightarrow> code | Some st \<Rightarrow> st)"
  by (simp_all add: http_error_def admin_write_def status_write_header_def Let_def)

lemma guarded_handler:
  fixes bearer opts
  defines "op \<equiv> foldl (\<lambda>op opt. opt op) \<lparr>ao_audit = False, ao_credentials = []\<rparr> opts"
  assumes "cs = all_credentials bearer op" "cs \<noteq> []"
    and "new_admin_handler chi live ready mh bearer opts started ended r = (w, ev)"
  shows "(case credential_for r cs of
       None \<Rightarrow> ar_sent w = Some 401 \<and> ar_recorded w = 401
     | Some c \<Rightarrow> if grants c r then w = chi (admin_routes live ready mh) r new_admin_reply
                 else w = http_error (''forbidden'' @ [CHR 0x0A]) 403 new_admin_reply) \<and>
    (ev = None \<longleftrightarrow> \<not> ao_audit op) \<and>
    (\<forall>e. ev = Some e \<longrightarrow> au_status e = ar_recorded w \<and>
       au_principal e = admin_principal (map_option cr_name (credential_for r cs)))"
proof -
  let ?router = "chi (admin_routes live ready mh)"
  have "(w, ev) = new_admin_handler chi live ready mh bearer opts started ended r" by (rule assms(4) [symmetric])
  also have "\<dots> = (snd (require_credentials ?router cs r new_admin_reply),
      if ao_audit op then Some (audit_event_of True started ended r (require_credentials ?router cs r new_admin_reply)) else None)"
    unfolding new_admin_handler_def Let_def op_def [symmetric] assms(2) [symmetric] using assms(3) by simp
  finally have "w = snd (require_credentials ?router cs r new_admin_reply)"
    and "ev = (if ao_audit op then Some (audit_event_of True started ended r
      (require_credentials ?router cs r new_admin_reply)) else None)" by simp_all
  then show ?thesis
    by (cases "credential_for r cs")
       (simp_all add: require_credentials_cases unauthorized_def audit_event_of_def new_admin_reply_def)
qed


definition demo_credential :: credential where
  "demo_credential = \<lparr>cr_name = ''ops'', cr_token = ''s3cret'', cr_scopes = [''metrics'']\<rparr>"

definition demo_admin_request :: "string \<Rightarrow> request" where
  "demo_admin_request p = (plain_request ''GET'' ''127.0.0.1:9090'' p)
     \<lparr>r_header := [(''Authorization'', [''Bearer s3cret''])]\<rparr>"

lemma demo_credential_grants:
  "credential_for (demo_admin_request ''/readyz'') [demo_credential] = Some demo_credential"
  "\<not> grants demo_credential (demo_admin_request ''/readyz'')"
  by code_simp+


section \<open>The program's endpoints\<close>

text \<open>The call of \<open>NewHandler\<close> in \<open>runContext\<close>.\<close>

definition program_admin ::
  "(admin_route list \<Rightarrow> admin_handler) \<Rightarrow> (unit \<Rightarrow> bool) \<Rightarrow> (unit \<Rightarrow> bool) \<Rightarrow> admin_handler \<Rightarrow> credential list \<Rightarrow>
   time \<Rightarrow> time \<Rightarrow> request \<Rightarrow> admin_reply \<times> audit_event option" where
  "program_admin chi live ready mh cs =
     new_admin_handler chi (Some live) (Some ready) (Some mh) [] [with_credentials cs, with_audit_logger True]"

lemma token_credentials_ok:
  "token_credentials getenv acc ts = Inr cs \<longleftrightarrow>
     (\<forall>t \<in> set ts. getenv (at_env t) \<noteq> []) \<and>
     cs = acc @ map (\<lambda>t. \<lparr>cr_name = at_name t, cr_token = getenv (at_env t), cr_scopes = at_scopes t\<rparr>) ts"
  by (induction ts arbitrary: acc) (auto simp: Let_def)

lemma admin_credentials_ok:
  "admin_credentials getenv cfg = Inr cs \<longleftrightarrow>
     (auth_token_env (c_admin cfg) = [] \<or> getenv (auth_token_env (c_admin cfg)) \<noteq> []) \<and>
     (\<forall>t \<in> set (a_tokens (c_admin cfg)). getenv (at_env t) \<noteq> []) \<and>
     cs = (if auth_token_env (c_admin cfg) = [] then []
           else [\<lparr>cr_name = ''legacy-admin'', cr_token = getenv (auth_token_env (c_admin cfg)), cr_scopes = [''admin'']\<rparr>]) @
       map (\<lambda>t. \<lparr>cr_name = at_name t, cr_token = getenv (at_env t), cr_scopes = at_scopes t\<rparr>) (a_tokens (c_admin cfg))"
  by (auto simp: admin_credentials_def admin_token_value_def token_credentials_ok Let_def)

text \<open>
  C32. The operational endpoints are never open to the network: a configuration that passes
  validation and binds them to anything but a loopback address has at least one credential, the
  program only starts when each of them has a non-empty token in the environment, and then a
  request that does not carry one of those tokens is answered 401 whatever the router, the probes
  and the metrics handler would do.
\<close>

theorem admin_never_open:
  assumes "validate parse cfg = []" and "\<not> loopback_listen_address (a_address (c_admin cfg))"
    and "admin_credentials getenv cfg = Inr cs"
  shows "cs \<noteq> [] \<and> (\<forall>c \<in> set cs. cr_token c \<noteq> []) \<and>
    (\<forall>chi live ready mh started ended r. (\<forall>c \<in> set cs. bearer_of r \<noteq> Some (cr_token c)) \<longrightarrow>
       ar_sent (fst (program_admin chi live ready mh cs started ended r)) = Some 401)"
proof (intro conjI allI impI)
  have "auth_token_env (c_admin cfg) \<noteq> [] \<or> a_tokens (c_admin cfg) \<noteq> []"
    using assms(1,2) by (auto simp: validate_ok_iff well_formed_def well_formed_admin_def)
  with assms(3) show some: "cs \<noteq> []" by (auto simp: admin_credentials_ok)
  show "\<forall>c \<in> set cs. cr_token c \<noteq> []" using assms(3) by (auto simp: admin_credentials_ok)
  fix chi live ready mh started ended r
  assume no: "\<forall>c \<in> set cs. bearer_of r \<noteq> Some (cr_token c)"
  then have none: "credential_for r cs = None"
    by (auto simp: credential_for_def find_None_iff split: option.splits)
  obtain w ev where run: "program_admin chi live ready mh cs started ended r = (w, ev)" by fastforce
  have "cs = all_credentials [] (foldl (\<lambda>op opt. opt op) \<lparr>ao_audit = False, ao_credentials = []\<rparr>
      [with_credentials cs, with_audit_logger True])"
    by (simp add: all_credentials_def with_credentials_def with_audit_logger_def)
  from guarded_handler [OF this some run [unfolded program_admin_def]] none run
  show "ar_sent (fst (program_admin chi live ready mh cs started ended r)) = Some 401" by simp
qed

definition guarded_config :: config where
  "guarded_config = (demo_config [plain_route ''api'' [] ''/api'' ''main''])
     \<lparr>c_admin := \<lparr>a_address = ''192.0.2.1:9090'', auth_token_env = ''ADMIN_TOKEN'', a_tokens = []\<rparr>\<rparr>"

lemma guarded_config_valid:
  "validate demo_parse guarded_config = []" "\<not> loopback_listen_address (a_address (c_admin guarded_config))"
  "admin_credentials (\<lambda>_. ''s3cret'') guarded_config =
     Inr [\<lparr>cr_name = ''legacy-admin'', cr_token = ''s3cret'', cr_scopes = [''admin'']\<rparr>]"
  by code_simp+

lemma plain_not_bearer: "bearer_of (plain_request meth hst p) = None"
  by (simp add: bearer_of_def plain_request_def hdr_get_def hdr_values_def)

theorem admin_never_open_witness:
  "ar_sent (fst (program_admin (\<lambda>_ _ w. w) (\<lambda>_. True) (\<lambda>_. True) (\<lambda>_ w. w)
     [\<lparr>cr_name = ''legacy-admin'', cr_token = ''s3cret'', cr_scopes = [''admin'']\<rparr>] 0 0
     (plain_request ''GET'' ''192.0.2.1:9090'' ''/metrics''))) = Some 401"
  using admin_never_open [OF guarded_config_valid] by (simp add: plain_not_bearer)

section \<open>The health check command\<close>

text \<open>
  \<open>runHealthcheck\<close>. \<open>http.NewRequest\<close> and \<open>client.Do\<close> are parameters: the request for a method
  and a target, and the status of the answer. The result is the error, if any.
\<close>

datatype healthcheck_error = HealthcheckRequest | HealthcheckStatus int

definition run_healthcheck ::
  "(string \<Rightarrow> string \<Rightarrow> request option) \<Rightarrow> (request \<Rightarrow> int option) \<Rightarrow> string \<Rightarrow> string \<Rightarrow> healthcheck_error option" where
  "run_healthcheck new_request send target bearer =
     (case new_request ''GET'' target of
        None \<Rightarrow> Some HealthcheckRequest
      | Some r0 \<Rightarrow>
          let r = (if bearer \<noteq> [] then r0\<lparr>r_header := hdr_set (r_header r0) ''Authorization'' (''Bearer '' @ bearer)\<rparr> else r0)
          in (case send r of
                None \<Rightarrow> Some HealthcheckRequest
              | Some st \<Rightarrow> if st \<noteq> 200 then Some (HealthcheckStatus st) else None))"

text \<open>
  What \<open>chi\<close> documents of the routes registered here: a request is handled by the first route
  with its path and method, and answered 404 or 405 when there is none.
\<close>

definition routed_path :: "request \<Rightarrow> string" where
  "routed_path r = (if raw_path (r_url r) \<noteq> [] then raw_path (r_url r) else path (r_url r))"

definition route_for :: "admin_route list \<Rightarrow> request \<Rightarrow> admin_route option" where
  "route_for rts r = find (\<lambda>(meth, p, _). (meth = None \<or> meth = Some (r_method r)) \<and> p = routed_path r) rts"

definition chi_serves :: "(admin_route list \<Rightarrow> admin_handler) \<Rightarrow> bool" where
  "chi_serves chi \<longleftrightarrow> (\<forall>rts r w. case route_for rts r of
       Some (_, _, handler) \<Rightarrow> chi rts r w = handler r w
     | None \<Rightarrow> ar_sent w = None \<longrightarrow> ar_sent (chi rts r w) \<in> {Some 404, Some 405})"

lemma readyz_answer:
  assumes "chi_serves chi" "r_method r = ''GET''" "routed_path r = ''/readyz''"
  shows "ar_sent (fst (program_admin chi live ready mh cs started ended r)) =
    Some (if cs = [] then if ready () then 200 else 503
          else (case credential_for r cs of
            None \<Rightarrow> 401
          | Some c \<Rightarrow> if grants c r then if ready () then 200 else 503 else 403))"
proof -
  have "route_for (admin_routes (Some live) (Some ready) (Some mh)) r = Some (Some ''GET'', ''/readyz'', probe (Some ready))"
    using assms(2,3) by (simp add: route_for_def admin_routes_def)
  with assms(1) have chi: "chi (admin_routes (Some live) (Some ready) (Some mh)) r w = probe (Some ready) r w" for w
    by (auto simp: chi_serves_def split: option.splits prod.splits)
  show ?thesis
    by (cases "credential_for r cs")
       (auto simp: program_admin_def new_admin_handler_def all_credentials_def with_credentials_def with_audit_logger_def
        require_credentials_cases chi probe_def admin_write_def status_write_header_def new_admin_reply_def
        unauthorized_def credential_for_def Let_def)
qed


definition plain_chi :: "admin_route list \<Rightarrow> admin_handler" where
  "plain_chi rts r w = (case route_for rts r of Some (_, _, handler) \<Rightarrow> handler r w | None \<Rightarrow> status_write_header 404 w)"

lemma plain_chi_serves: "chi_serves plain_chi"
  by (auto simp: chi_serves_def plain_chi_def status_write_header_def split: option.splits)


end
