(* ===== verification/Server.thy ===== *)
theory Server
  imports Validate
begin

text \<open>
  The HTTP servers of the program (package \<open>server\<close>): the TLS certificates of the listeners
  (\<open>tls.go\<close>), the fields of the public and the operational server, the listener that bounds the
  open connections, and the life of the group of servers (\<open>server.go\<close>). Sockets, \<open>net/http\<close>'s
  \<open>Serve\<close>, \<open>Shutdown\<close> and \<open>Close\<close>, PEM files and X.509 parsing are parameters.
\<close>

section \<open>Certificates\<close>

record leaf =
  not_before :: time
  not_after :: time

record certificate =
  ce_chain :: "string list"
  ce_leaf :: "leaf option"

datatype tls_error = LoadPair | ChainEmpty | LeafParse | NotValidBefore time | ExpiredAt time

definition load_certificate ::
  "(string \<Rightarrow> string \<Rightarrow> certificate option) \<Rightarrow> (string \<Rightarrow> leaf option) \<Rightarrow> time \<Rightarrow> tls_config \<Rightarrow> tls_error + certificate" where
  "load_certificate load_pair parse_leaf now cfg =
     (case load_pair (cert_file cfg) (key_file cfg) of
        None \<Rightarrow> Inl LoadPair
      | Some c \<Rightarrow>
          if length (ce_chain c) = 0 then Inl ChainEmpty
          else (case parse_leaf (ce_chain c ! 0) of
             None \<Rightarrow> Inl LeafParse
           | Some lf \<Rightarrow>
               if now < not_before lf then Inl (NotValidBefore (not_before lf))
               else if \<not> now < not_after lf then Inl (ExpiredAt (not_after lf))
               else Inr (c\<lparr>ce_leaf := Some lf\<rparr>)))"

record certificate_store =
  cs_certificate :: "certificate option"

definition publish :: "certificate \<Rightarrow> certificate_store \<Rightarrow> certificate_store" where
  "publish c st = st\<lparr>cs_certificate := Some c\<rparr>"

definition store_load ::
  "(string \<Rightarrow> string \<Rightarrow> certificate option) \<Rightarrow> (string \<Rightarrow> leaf option) \<Rightarrow> time \<Rightarrow> tls_config \<Rightarrow> certificate_store \<Rightarrow>
   tls_error option \<times> certificate_store" where
  "store_load load_pair parse_leaf now cfg st =
     (case load_certificate load_pair parse_leaf now cfg of
        Inl e \<Rightarrow> (Some e, st)
      | Inr c \<Rightarrow> (None, publish c st))"

text \<open>The server policy: TLS 1.2 (771) or newer; the certificate is read when a handshake asks for it.\<close>

record server_tls =
  stls_min_version :: int
  stls_next_protos :: "string list"
  stls_get_certificate :: "certificate_store \<Rightarrow> certificate option"

definition store_tls_config :: server_tls where
  "store_tls_config = \<lparr>stls_min_version = 771, stls_next_protos = [''h2'', ''http/1.1''],
     stls_get_certificate = cs_certificate\<rparr>"

lemma load_certificate_ok:
  "load_certificate load_pair parse_leaf now cfg = Inr c \<longleftrightarrow>
     (\<exists>c0 lf. load_pair (cert_file cfg) (key_file cfg) = Some c0 \<and> ce_chain c0 \<noteq> [] \<and>
        parse_leaf (hd (ce_chain c0)) = Some lf \<and> not_before lf \<le> now \<and> now < not_after lf \<and>
        c = c0\<lparr>ce_leaf := Some lf\<rparr>)"
  by (auto simp: load_certificate_def hd_conv_nth split: option.splits if_splits)

section \<open>The servers\<close>

text \<open>The fields of \<open>http.Server\<close> that are set, and the rest of \<open>Managed\<close>.\<close>

record managed =
  ms_addr :: string
  ms_read_header :: duration
  ms_read :: duration
  ms_write :: duration
  ms_idle :: duration
  ms_max_header_bytes :: int
  ms_tls :: "server_tls option"
  ms_max_connections :: int

definition new_public :: "listener \<Rightarrow> config \<Rightarrow> server_tls option \<Rightarrow> managed" where
  "new_public l cfg tls = \<lparr>ms_addr = l_address l, ms_read_header = t_read_header (c_timeouts cfg),
     ms_read = t_read_body (c_timeouts cfg), ms_write = t_write (c_timeouts cfg), ms_idle = t_idle (c_timeouts cfg),
     ms_max_header_bytes = max_header_bytes (c_limits cfg), ms_tls = tls,
     ms_max_connections = max_connections (c_limits cfg)\<rparr>"

definition new_admin :: "config \<Rightarrow> managed" where
  "new_admin cfg = \<lparr>ms_addr = a_address (c_admin cfg), ms_read_header = 5 * second, ms_read = 10 * second,
     ms_write = 10 * second, ms_idle = 30 * second, ms_max_header_bytes = 8192, ms_tls = None,
     ms_max_connections = 128\<rparr>"

section \<open>Bounded connections\<close>

text \<open>
  \<open>limitListener\<close>: a semaphore of \<open>limit\<close> tokens. \<open>Accept\<close> takes a token, then waits for the
  inner listener; the connection gives the token back the first time it is closed. The state
  counts the calls of \<open>Accept\<close> that hold a token and wait, and keeps every accepted connection
  with what its \<open>releaseOnce\<close> has seen.
\<close>

record limit_listener =
  ll_limit :: int
  ll_sem :: int
  ll_closed :: bool
  ll_waiting :: nat
  ll_conns :: "bool list"

definition new_limit_listener :: "int \<Rightarrow> limit_listener option" where
  "new_limit_listener limit = (if limit \<le> 0 then None
     else Some \<lparr>ll_limit = limit, ll_sem = 0, ll_closed = False, ll_waiting = 0, ll_conns = []\<rparr>)"

text \<open>
  The steps. \<open>AcceptStart\<close> sends to the semaphore, \<open>AcceptClosed\<close> is the other branch of the
  \<open>select\<close>; \<open>AcceptDone\<close> is the return of the inner \<open>Accept\<close>, with a connection or an error. A step
  that would block, or a receive from the semaphore that would, is \<^const>\<open>None\<close>.
\<close>

datatype listener_event = AcceptStart | AcceptClosed | AcceptDone bool | ConnClose nat | ListenerClose

fun listener_step :: "limit_listener \<Rightarrow> listener_event \<Rightarrow> limit_listener option" where
  "listener_step l AcceptStart =
     (if ll_sem l < ll_limit l then Some (l\<lparr>ll_sem := ll_sem l + 1, ll_waiting := ll_waiting l + 1\<rparr>) else None)"
| "listener_step l AcceptClosed = (if ll_closed l then Some l else None)"
| "listener_step l (AcceptDone ok) =
     (if ll_waiting l = 0 then None
      else if ok then Some (l\<lparr>ll_waiting := ll_waiting l - 1, ll_conns := ll_conns l @ [False]\<rparr>)
      else if 0 < ll_sem l then Some (l\<lparr>ll_waiting := ll_waiting l - 1, ll_sem := ll_sem l - 1\<rparr>) else None)"
| "listener_step l (ConnClose k) =
     (if k \<ge> length (ll_conns l) then None
      else if ll_conns l ! k then Some l
      else if 0 < ll_sem l then Some (l\<lparr>ll_conns := (ll_conns l)[k := True], ll_sem := ll_sem l - 1\<rparr>) else None)"
| "listener_step l ListenerClose = Some (l\<lparr>ll_closed := True\<rparr>)"

definition open_conns :: "limit_listener \<Rightarrow> int" where
  "open_conns l = int (length (filter Not (ll_conns l)))"

lemma open_conns_close:
  assumes "k < length fs" "\<not> fs ! k"
  shows "length (filter Not fs) = Suc (length (filter Not (fs[k := True])))"
  using assms by (induction fs arbitrary: k) (auto split: nat.splits)

definition tokens_ok :: "int \<Rightarrow> limit_listener \<Rightarrow> bool" where
  "tokens_ok n l \<longleftrightarrow> ll_limit l = n \<and> ll_sem l = int (ll_waiting l) + open_conns l \<and> ll_sem l \<le> n"

lemma tokens_step:
  assumes "tokens_ok n l" "listener_step l e = Some m"
  shows "tokens_ok n m"
proof (cases e)
  case (ConnClose k)
  with assms open_conns_close [of k "ll_conns l"] show ?thesis
    by (auto simp: tokens_ok_def open_conns_def split: if_splits)
qed (use assms in \<open>auto simp: tokens_ok_def open_conns_def split: if_splits\<close>)

interpretation tokens: automaton listener_step "tokens_ok n" for n
  by unfold_locales (rule tokens_step)

lemma open_conns_nonneg: "0 \<le> open_conns l"
  by (simp add: open_conns_def)

lemma open_conns_pos: "k < length (ll_conns l) \<Longrightarrow> \<not> ll_conns l ! k \<Longrightarrow> 0 < open_conns l"
  unfolding open_conns_def by (metis (mono_tags, lifting) filter_empty_conv length_greater_0_conv nth_mem of_nat_0_less_iff)

text \<open>
  C34. The open connections of a server are bounded: in every interleaving of accepts, failed
  accepts and closes, closing twice included, at most \<open>limit\<close> accepted connections are open; a
  token is held for exactly each open connection and each pending accept, so closing and failing
  never block, and a new \<open>Accept\<close> waits only while the limit is reached.
\<close>

theorem connections_bounded:
  assumes "new_limit_listener limit = Some l0" and "reaches listener_step l0 l"
  shows "open_conns l \<le> limit \<and> ll_sem l = int (ll_waiting l) + open_conns l \<and>
    (listener_step l AcceptStart = None \<longleftrightarrow> int (ll_waiting l) + open_conns l = limit) \<and>
    (0 < ll_waiting l \<longrightarrow> listener_step l (AcceptDone ok) \<noteq> None) \<and>
    (k < length (ll_conns l) \<longrightarrow> listener_step l (ConnClose k) \<noteq> None)"
proof -
  have "tokens_ok limit l0" using assms(1)
    by (auto simp: new_limit_listener_def tokens_ok_def open_conns_def split: if_splits)
  with tokens.reaches_inv assms(2) have ok: "tokens_ok limit l" by blast
  have "listener_step l (ConnClose k) \<noteq> None" if "k < length (ll_conns l)"
    using ok that open_conns_pos [OF that] by (cases "ll_conns l ! k") (auto simp: tokens_ok_def)
  moreover have "listener_step l (AcceptDone ok) \<noteq> None" if "0 < ll_waiting l"
    using ok that open_conns_nonneg [of l] by (auto simp: tokens_ok_def)
  ultimately show ?thesis using ok open_conns_nonneg [of l] by (auto simp: tokens_ok_def)
qed

theorem connections_bounded_witness:
  "open_conns \<lparr>ll_limit = 1, ll_sem = 1, ll_closed = False, ll_waiting = 0, ll_conns = [False]\<rparr> \<le> 1"
proof -
  let ?l0 = "\<lparr>ll_limit = 1, ll_sem = 0, ll_closed = False, ll_waiting = 0, ll_conns = []\<rparr>"
  have new: "new_limit_listener 1 = Some ?l0" by (simp add: new_limit_listener_def)
  let ?l2 = "\<lparr>ll_limit = 1, ll_sem = 1, ll_closed = False, ll_waiting = 0, ll_conns = [False]\<rparr>"
  have "run_events listener_step ?l0 [AcceptStart, AcceptDone True] = Some ?l2" by code_simp
  then have "reaches listener_step ?l0 ?l2" by (rule run_events_reaches)
  from connections_bounded [OF new this, of True 0] show ?thesis by blast
qed

section \<open>The life of the group\<close>

text \<open>
  \<open>Run\<close> first opens a listener for every server; \<open>listen\<close> says whether an address can be bound
  while some others are open. The result is what is open, or the address that failed and the
  listeners that were closed again.
\<close>

primrec open_listeners :: "(string list \<Rightarrow> string \<Rightarrow> bool) \<Rightarrow> string list \<Rightarrow> managed list \<Rightarrow> (string \<times> string list) + string list" where
  "open_listeners listen opened [] = Inr opened"
| "open_listeners listen opened (m # ms) =
     (if \<not> listen opened (ms_addr m) then Inl (ms_addr m, opened)
      else open_listeners listen (opened @ [ms_addr m]) ms)"

lemma open_listeners_result:
  "case open_listeners listen opened ms of
     Inr open \<Rightarrow> open = opened @ map ms_addr ms
   | Inl (addr, closed) \<Rightarrow> \<exists>pre m post. ms = pre @ m # post \<and> addr = ms_addr m \<and> closed = opened @ map ms_addr pre \<and>
       \<not> listen closed addr"
proof (induction ms arbitrary: opened)
  case (Cons m ms)
  show ?case
  proof (cases "listen opened (ms_addr m)")
    case True
    from Cons.IH [of "opened @ [ms_addr m]"] True show ?thesis
      by (auto split: sum.splits) (metis append_Cons list.map(2))
  qed (auto intro!: exI [of _ "[]"])
qed simp

text \<open>
  Then one goroutine serves each listener and sends an error, if any, to a channel with room for
  one error per server; the caller waits for the context or the channel, shuts every server down,
  closes every server, and waits for the goroutines. \<open>Shutdown\<close> and \<open>Close\<close> return (the first by
  its deadline), and \<open>Serve\<close> returns after them; \<open>net/http\<close> documents both.
\<close>

datatype serve_state = Serving | Failing | Exited

datatype run_pc = Waiting | Shutting nat | ClosingAll nat | Joining | Returned

record group =
  g_goroutines :: "serve_state list"
  g_errors :: nat
  g_cancelled :: bool
  g_pc :: run_pc

definition start_group :: "managed list \<Rightarrow> group" where
  "start_group ms = \<lparr>g_goroutines = map (\<lambda>_. Serving) ms, g_errors = 0, g_cancelled = False, g_pc = Waiting\<rparr>"

definition stopped :: "group \<Rightarrow> nat \<Rightarrow> bool" where
  "stopped g i \<longleftrightarrow> (case g_pc g of Waiting \<Rightarrow> False | Shutting k \<Rightarrow> i < k | _ \<Rightarrow> True)"

datatype group_event = Cancel | ServeError nat | ServeClosed nat | SendError nat | Wake | ReceiveError
  | ShutdownNext | CloseNext | Join

fun group_step :: "group \<Rightarrow> group_event \<Rightarrow> group option" where
  "group_step g Cancel = Some (g\<lparr>g_cancelled := True\<rparr>)"
| "group_step g (ServeError i) =
     (if i < length (g_goroutines g) \<and> g_goroutines g ! i = Serving
      then Some (g\<lparr>g_goroutines := (g_goroutines g)[i := Failing]\<rparr>) else None)"
| "group_step g (ServeClosed i) =
     (if i < length (g_goroutines g) \<and> g_goroutines g ! i = Serving \<and> stopped g i
      then Some (g\<lparr>g_goroutines := (g_goroutines g)[i := Exited]\<rparr>) else None)"
| "group_step g (SendError i) =
     (if i < length (g_goroutines g) \<and> g_goroutines g ! i = Failing \<and> g_errors g < length (g_goroutines g)
      then Some (g\<lparr>g_goroutines := (g_goroutines g)[i := Exited], g_errors := g_errors g + 1\<rparr>) else None)"
| "group_step g Wake = (if g_pc g = Waiting \<and> g_cancelled g then Some (g\<lparr>g_pc := Shutting 0\<rparr>) else None)"
| "group_step g ReceiveError =
     (if g_pc g = Waiting \<and> 0 < g_errors g then Some (g\<lparr>g_pc := Shutting 0, g_errors := g_errors g - 1\<rparr>) else None)"
| "group_step g ShutdownNext =
     (case g_pc g of Shutting k \<Rightarrow>
        Some (if k < length (g_goroutines g) then g\<lparr>g_pc := Shutting (k + 1)\<rparr> else g\<lparr>g_pc := ClosingAll 0\<rparr>)
      | _ \<Rightarrow> None)"
| "group_step g CloseNext =
     (case g_pc g of ClosingAll k \<Rightarrow>
        Some (if k < length (g_goroutines g) then g\<lparr>g_pc := ClosingAll (k + 1)\<rparr> else g\<lparr>g_pc := Joining\<rparr>)
      | _ \<Rightarrow> None)"
| "group_step g Join =
     (if g_pc g = Joining \<and> list_all (\<lambda>x. x = Exited) (g_goroutines g) then Some (g\<lparr>g_pc := Returned\<rparr>) else None)"

definition exited_count :: "group \<Rightarrow> nat" where
  "exited_count g = length (filter (\<lambda>x. x = Exited) (g_goroutines g))"

definition group_ok :: "nat \<Rightarrow> group \<Rightarrow> bool" where
  "group_ok n g \<longleftrightarrow> length (g_goroutines g) = n \<and> g_errors g \<le> exited_count g \<and>
     (g_pc g = Waiting \<longrightarrow> g_errors g = exited_count g) \<and>
     (g_pc g = Returned \<longrightarrow> (\<forall>x \<in> set (g_goroutines g). x = Exited)) \<and>
     (case g_pc g of Shutting k \<Rightarrow> k \<le> n | ClosingAll k \<Rightarrow> k \<le> n | _ \<Rightarrow> True)"

text \<open>The work left: two for a goroutine that serves, one for one that has to send, and the caller's steps.\<close>

definition serve_rank :: "serve_state \<Rightarrow> nat" where
  "serve_rank x = (case x of Serving \<Rightarrow> 2 | Failing \<Rightarrow> 1 | Exited \<Rightarrow> 0)"

definition group_left :: "group \<Rightarrow> nat" where
  "group_left g = sum_list (map serve_rank (g_goroutines g)) +
     (let n = length (g_goroutines g) in
      case g_pc g of Waiting \<Rightarrow> 2 * n + 4 | Shutting k \<Rightarrow> 2 * n + 3 - k | ClosingAll k \<Rightarrow> n + 2 - k | Joining \<Rightarrow> 1 | Returned \<Rightarrow> 0)"

lemma exited_update:
  assumes "i < length xs" "xs ! i \<noteq> Exited"
  shows "length (filter (\<lambda>x. x = Exited) (xs[i := v])) = length (filter (\<lambda>x. x = Exited) xs) + of_bool (v = Exited)"
  using assms by (induction xs arbitrary: i) (auto split: nat.splits)

lemma rank_update:
  assumes "i < length xs" "serve_rank v < serve_rank (xs ! i)"
  shows "sum_list (map serve_rank (xs[i := v])) < sum_list (map serve_rank xs)"
proof -
  have "sum_list (map serve_rank (xs[i := v])) + serve_rank (xs ! i) = sum_list (map serve_rank xs) + serve_rank v"
    using assms(1) by (induction xs arbitrary: i) (auto split: nat.splits)
  with assms(2) show ?thesis by linarith
qed

lemma group_update_ok:
  assumes "group_ok n g" "i < n" "g_goroutines g ! i \<noteq> Exited" "m = g_errors g + of_bool (v = Exited)"
    and "v = Exited \<or> v = Failing"
  shows "group_ok n (g\<lparr>g_goroutines := (g_goroutines g)[i := v], g_errors := m\<rparr>)"
proof -
  have "g_pc g \<noteq> Returned" using assms(1-3) by (auto simp: group_ok_def dest: nth_mem)
  with assms show ?thesis by (auto simp: group_ok_def exited_count_def exited_update)
qed

lemma group_stop_ok:
  assumes "group_ok n g" "i < n" "g_goroutines g ! i \<noteq> Exited" "g_pc g \<noteq> Waiting \<or> v \<noteq> Exited"
  shows "group_ok n (g\<lparr>g_goroutines := (g_goroutines g)[i := v]\<rparr>)"
proof -
  have "g_pc g \<noteq> Returned" using assms(1-3) by (auto simp: group_ok_def dest: nth_mem)
  with assms show ?thesis by (auto simp: group_ok_def exited_count_def exited_update)
qed

lemma group_step_ok:
  assumes "group_ok n g" "group_step g e = Some h"
  shows "group_ok n h"
proof (cases e)
  case (ServeError i)
  with assms group_stop_ok [OF assms(1), of i Failing] show ?thesis by (auto simp: group_ok_def split: if_splits)
next
  case (ServeClosed i)
  then have "i < length (g_goroutines g)" "g_goroutines g ! i = Serving" "g_pc g \<noteq> Waiting"
    and h: "h = g\<lparr>g_goroutines := (g_goroutines g)[i := Exited]\<rparr>"
    using assms(2) by (auto simp: stopped_def split: if_splits)
  with assms(1) show ?thesis unfolding h by (intro group_stop_ok) (simp_all add: group_ok_def)
next
  case (SendError i)
  with assms group_update_ok [OF assms(1), of i "g_errors g + 1" Exited] show ?thesis
    by (auto simp: group_ok_def split: if_splits)
qed (use assms in \<open>auto simp: group_ok_def exited_count_def list_all_iff split: if_splits run_pc.splits\<close>)

lemma group_step_decreases:
  assumes "group_ok n g" "group_step g e = Some h" "e \<noteq> Cancel"
  shows "group_left h < group_left g"
proof (cases e)
  case (ServeError i)
  with assms show ?thesis using rank_update [of i "g_goroutines g" Failing]
    by (cases "g_pc g") (auto simp: group_left_def serve_rank_def Let_def split: if_splits)
next
  case (ServeClosed i)
  with assms show ?thesis using rank_update [of i "g_goroutines g" Exited]
    by (cases "g_pc g") (auto simp: group_left_def serve_rank_def Let_def split: if_splits)
next
  case (SendError i)
  with assms show ?thesis using rank_update [of i "g_goroutines g" Exited]
    by (cases "g_pc g") (auto simp: group_left_def serve_rank_def Let_def split: if_splits)
qed (use assms in \<open>auto simp: group_left_def group_ok_def Let_def split: if_splits run_pc.splits\<close>)

interpretation group: winding_down group_step "group_ok n" "\<lambda>e. e \<noteq> Cancel" group_left for n
proof unfold_locales
  fix g e h assume ok: "group_ok n g" and step: "group_step g e = Some h"
  show "if e \<noteq> Cancel then group_left h < group_left g else group_left h \<le> group_left g"
  proof (cases "e = Cancel")
    case True
    with step show ?thesis by (auto simp: group_left_def)
  next
    case False
    with group_step_decreases [OF ok step] show ?thesis by simp
  qed
qed (rule group_step_ok)

lemma not_all_exited:
  assumes "\<not> list_all (\<lambda>x. x = Exited) xs"
  shows "\<exists>i < length xs. xs ! i = Serving \<or> xs ! i = Failing"
proof -
  obtain i where "i < length xs" "xs ! i \<noteq> Exited" using assms by (auto simp: list_all_length)
  then show ?thesis by (cases "xs ! i") auto
qed

lemma failing_has_room:
  assumes "group_ok n g" "i < length (g_goroutines g)" "g_goroutines g ! i = Failing"
  shows "g_errors g < length (g_goroutines g)"
proof -
  have "exited_count g < length (g_goroutines g)"
    unfolding exited_count_def using nth_mem [OF assms(2)] assms(3)
    by (intro length_filter_less [of "g_goroutines g ! i"]) simp_all
  with assms(1) show ?thesis by (simp add: group_ok_def)
qed

lemma group_progress:
  assumes "group_ok n g" "g_pc g \<noteq> Returned"
    and "g_cancelled g \<or> g_pc g \<noteq> Waiting \<or> 0 < g_errors g \<or> Failing \<in> set (g_goroutines g)"
  shows "\<exists>e h. e \<noteq> Cancel \<and> group_step g e = Some h"
proof (cases "g_pc g")
  case Waiting
  consider "g_cancelled g" | "0 < g_errors g" | i where "i < length (g_goroutines g)" "g_goroutines g ! i = Failing"
    using assms(3) Waiting by (auto simp: in_set_conv_nth)
  then show ?thesis
  proof cases
    case 1
    then show ?thesis using Waiting by (intro exI [of _ Wake]) simp
  next
    case 2
    then show ?thesis using Waiting by (intro exI [of _ ReceiveError]) simp
  next
    case 3
    then show ?thesis using failing_has_room [OF assms(1)] by (intro exI [of _ "SendError i"]) simp
  qed
next
  case Joining
  show ?thesis
  proof (cases "list_all (\<lambda>x. x = Exited) (g_goroutines g)")
    case True
    then show ?thesis using Joining by (intro exI [of _ Join]) simp
  next
    case False
    then obtain i where i: "i < length (g_goroutines g)" "g_goroutines g ! i = Serving \<or> g_goroutines g ! i = Failing"
      using not_all_exited by blast
    show ?thesis
    proof (cases "g_goroutines g ! i = Serving")
      case True
      with i show ?thesis using Joining by (intro exI [of _ "ServeClosed i"]) (simp add: stopped_def)
    next
      case False
      with i show ?thesis using failing_has_room [OF assms(1)] by (intro exI [of _ "SendError i"]) simp
    qed
  qed
next
  case (Shutting k)
  then show ?thesis by (intro exI [of _ ShutdownNext]) simp
next
  case (ClosingAll k)
  then show ?thesis by (intro exI [of _ CloseNext]) simp
qed (use assms in simp)


definition demo_group :: group where
  "demo_group = \<lparr>g_goroutines = [Exited, Serving], g_errors = 1, g_cancelled = False, g_pc = Waiting\<rparr>"


section \<open>The servers of the program\<close>

text \<open>The servers \<open>runContext\<close> starts: one per listener with its TLS policy, then the operational one.\<close>

definition program_servers :: "config \<Rightarrow> (nat \<Rightarrow> server_tls option) \<Rightarrow> managed list" where
  "program_servers cfg tls =
     map (\<lambda>(i, l). new_public l cfg (tls i)) (enumerate 0 (listeners cfg)) @ [new_admin cfg]"

text \<open>
  No server of the program is unbounded: for a configuration that passes validation, every
  server has a connection limit, so its listener is always the limiting one, a limit on header
  bytes, and positive timeouts for reading headers and bodies, writing and idling; and no two
  servers are configured for the same address.
\<close>

lemma servers_bounded:
  assumes "validate parse cfg = []"
  shows "list_all (\<lambda>m. new_limit_listener (ms_max_connections m) \<noteq> None \<and> 0 < ms_max_header_bytes m \<and>
      0 < ms_read_header m \<and> 0 < ms_read m \<and> 0 < ms_write m \<and> 0 < ms_idle m) (program_servers cfg tls) \<and>
    distinct (map ms_addr (program_servers cfg tls))"
proof -
  have wf: "well_formed parse cfg" using assms by (simp add: validate_ok_iff)
  have addrs: "map ms_addr (program_servers cfg tls) = map l_address (listeners cfg) @ [a_address (c_admin cfg)]"
    by (simp add: program_servers_def new_public_def new_admin_def) (rule nth_equalityI; simp add: nth_enumerate_eq)
  have "distinct (map l_address (listeners cfg))" "well_formed_admin (l_address ` set (listeners cfg)) (c_admin cfg)"
    and bounds: "well_formed_bounds cfg" using wf unfolding well_formed_def by blast+
  then have "distinct (map l_address (listeners cfg) @ [a_address (c_admin cfg)])" by (simp add: well_formed_admin_def)
  moreover have "list_all (\<lambda>m. new_limit_listener (ms_max_connections m) \<noteq> None \<and> 0 < ms_max_header_bytes m \<and>
      0 < ms_read_header m \<and> 0 < ms_read m \<and> 0 < ms_write m \<and> 0 < ms_idle m) (program_servers cfg tls)"
    using bounds by (auto simp: program_servers_def new_public_def new_admin_def new_limit_listener_def second_def
        list_all_iff well_formed_bounds_def)
  ultimately show ?thesis unfolding addrs by blast
qed

end
