(* ===== verification/Health.thy ===== *)
theory Health
  imports NewHandler
begin

text \<open>
  Active health checks (package \<open>backend\<close>, file \<open>health.go\<close>, and \<open>StartHealthChecks\<close> of
  \<open>proxy/runtime.go\<close>). A probe is the request to a backend, here its outcome; what it does to
  the backend is one critical section, and a change of eligibility is reported to the observer.
  The observer's health calls are kept in order: pool, backend, healthy.
\<close>

section \<open>One probe\<close>

record health_policy =
  hp_path :: string
  hp_interval :: duration
  hp_timeout :: duration
  hp_healthy :: int
  hp_unhealthy :: int

text \<open>The target; \<^const>\<open>None\<close> is the nil URL, which the code would dereference.\<close>

definition probe_target :: "health_policy \<Rightarrow> backend \<Rightarrow> url option" where
  "probe_target policy x = map_option (\<lambda>u. u\<lparr>path := hp_path policy, raw_path := [], raw_query := []\<rparr>) (backend_url x)"

text \<open>
  What comes of it: the URL makes no request, the client returns an error (also when the context
  is cancelled or its deadline passes), or a status and whether the first 4097 bytes of the body
  were read to the limit or the end.
\<close>

datatype probe_result = BadProbeRequest | ProbeError | ProbeResponse int bool

definition probe_success :: "probe_result \<Rightarrow> bool" where
  "probe_success res = (case res of ProbeResponse st read_ok \<Rightarrow> (if \<not> read_ok then False else st \<ge> 200 \<and> st < 300) | _ \<Rightarrow> False)"

type_synonym health_call = "string \<times> string \<times> bool"

definition check :: "health_policy \<Rightarrow> string option \<Rightarrow> bid \<Rightarrow> probe_result \<Rightarrow> heap \<times> health_call list \<Rightarrow> heap \<times> health_call list" where
  "check policy on_change b res st =
     (case st of (hp, calls) \<Rightarrow>
        case record_probe (probe_success res) (hp_healthy policy) (hp_unhealthy policy) (hp b) of (changed, x) \<Rightarrow>
          (hp(b := x),
           if changed then (case on_change of None \<Rightarrow> calls | Some pl \<Rightarrow> calls @ [(pl, b_name x, alive x)]) else calls))"

section \<open>Rounds\<close>

text \<open>
  \<open>CheckOnce\<close> probes all backends at the same time: \<open>order\<close> is the order in which the probes
  finish. \<open>Run\<close> is one round at the start and one per tick until the context ends.
\<close>

definition check_once ::
  "health_policy \<Rightarrow> string option \<Rightarrow> bid list \<Rightarrow> (bid \<Rightarrow> probe_result) \<Rightarrow> heap \<times> health_call list \<Rightarrow> heap \<times> health_call list" where
  "check_once policy on_change order results st = foldl (\<lambda>st b. check policy on_change b (results b) st) st order"

primrec run_checker ::
  "health_policy \<Rightarrow> string option \<Rightarrow> (bid list \<times> (bid \<Rightarrow> probe_result)) list \<Rightarrow> heap \<times> health_call list \<Rightarrow> heap \<times> health_call list" where
  "run_checker policy on_change [] st = st"
| "run_checker policy on_change (r # rs) st = run_checker policy on_change rs (check_once policy on_change (fst r) (snd r) st)"

section \<open>StartHealthChecks\<close>

definition policy_of :: "config \<Rightarrow> string \<Rightarrow> health_policy" where
  "policy_of cfg name =
     (case map_of (pools cfg) name of
        None \<Rightarrow> \<lparr>hp_path = [], hp_interval = 0, hp_timeout = 0, hp_healthy = 0, hp_unhealthy = 0\<rparr>
      | Some p \<Rightarrow> \<lparr>hp_path = h_path (p_health p), hp_interval = h_interval (p_health p), hp_timeout = h_timeout (p_health p),
          hp_healthy = healthy_threshold (p_health p), hp_unhealthy = unhealthy_threshold (p_health p)\<rparr>)"

text \<open>The calls made at once, and the checker of each pool: its policy, its \<open>OnChange\<close> and its backends.\<close>

definition start_health_checks ::
  "config \<Rightarrow> handler \<Rightarrow> heap \<Rightarrow> health_call list \<times> (health_policy \<times> string option \<times> bid list) list" where
  "start_health_checks cfg h hp =
     (if h_observed h
      then concat (map (\<lambda>(name, p). map (\<lambda>b. (name, b_name (hp b), alive (hp b))) (rp_backends p)) (h_pools h))
      else [],
      map (\<lambda>(name, p). (policy_of cfg name, if h_observed h then Some name else None, rp_backends p)) (h_pools h))"

section \<open>A round\<close>

definition probed :: "health_policy \<Rightarrow> probe_result \<Rightarrow> backend \<Rightarrow> backend" where
  "probed policy res x = snd (record_probe (probe_success res) (hp_healthy policy) (hp_unhealthy policy) x)"

lemma probed_name [simp]: "b_name (probed policy res x) = b_name x"
  by (simp add: probed_def record_probe_def Let_def)

text \<open>What a probe reports of a backend.\<close>

definition change_call :: "health_policy \<Rightarrow> string option \<Rightarrow> probe_result \<Rightarrow> backend \<Rightarrow> health_call list" where
  "change_call policy on_change res x =
     (case on_change of None \<Rightarrow> []
      | Some pl \<Rightarrow> if alive (probed policy res x) = alive x then [] else [(pl, b_name x, alive (probed policy res x))])"

lemma check_effect:
  "check policy on_change b res (hp, calls) =
     (hp(b := probed policy res (hp b)), calls @ change_call policy on_change res (hp b))"
  by (auto simp: check_def probed_def change_call_def record_probe_def Let_def split: option.splits)

lemma check_once_effect:
  assumes "distinct order"
  shows "check_once policy on_change order results (hp, calls) =
    (\<lambda>c. if c \<in> set order then probed policy (results c) (hp c) else hp c,
     calls @ concat (map (\<lambda>b. change_call policy on_change (results b) (hp b)) order))"
  using assms
proof (induction order arbitrary: hp calls)
  case (Cons b bs)
  let ?hp = "hp(b := probed policy (results b) (hp b))"
  have "map (\<lambda>c. change_call policy on_change (results c) (?hp c)) bs = map (\<lambda>c. change_call policy on_change (results c) (hp c)) bs"
    using Cons.prems by (intro map_cong) auto
  moreover have "(\<lambda>c. if c \<in> set bs then probed policy (results c) (?hp c) else ?hp c) =
      (\<lambda>c. if c \<in> set (b # bs) then probed policy (results c) (hp c) else hp c)"
    using Cons.prems by (intro ext) auto
  moreover have "check_once policy on_change (b # bs) results (hp, calls) =
      check_once policy on_change bs results (?hp, calls @ change_call policy on_change (results b) (hp b))"
    by (simp add: check_once_def check_effect)
  moreover have "distinct bs" using Cons.prems by simp
  note Cons.IH [OF this, of ?hp "calls @ change_call policy on_change (results b) (hp b)"]
  ultimately show ?case by (simp only: list.map concat.simps append_assoc)
qed (simp add: check_once_def)

lemma mset_concat_map:
  assumes "mset xs = mset ys"
  shows "mset (concat (map f xs)) = mset (concat (map f ys))"
proof -
  have "mset (concat (map f zs)) = \<Sum>\<^sub># (image_mset (mset \<circ> f) (mset zs))" for zs by (induction zs) simp_all
  with assms show ?thesis by simp
qed

text \<open>
  A round of probes does not depend on who finishes first: for any two orders of the same
  backends, every backend ends with the same state and counters, each having seen exactly its own
  probe once, and the same changes are reported.
\<close>

lemma probe_order_irrelevant:
  assumes "distinct order" and "mset order' = mset order"
  shows "fst (check_once policy on_change order' results (hp, calls)) = fst (check_once policy on_change order results (hp, calls)) \<and>
    mset (snd (check_once policy on_change order' results (hp, calls))) = mset (snd (check_once policy on_change order results (hp, calls))) \<and>
    (\<forall>b. fst (check_once policy on_change order results (hp, calls)) b =
       (if b \<in> set order
        then health_step (hp_healthy policy) (hp_unhealthy policy) (hp b) (Probe (probe_success (results b))) else hp b))"
proof -
  have sets: "set order' = set order" and dist: "distinct order'"
    using assms mset_eq_setD mset_eq_imp_distinct_iff by metis+
  show ?thesis
    unfolding check_once_effect [OF assms(1)] check_once_effect [OF dist] fst_conv snd_conv mset_append sets
      mset_concat_map [OF assms(2)]
    by (simp add: probed_def)
qed

section \<open>What the gauges say\<close>

text \<open>Every backend with its pool, and the last report on a pool's backend.\<close>

definition watched :: "handler \<Rightarrow> (string \<times> bid) list" where
  "watched h = concat (map (\<lambda>(name, p). map (\<lambda>b. (name, b)) (rp_backends p)) (h_pools h))"

definition last_call :: "string \<times> string \<Rightarrow> health_call list \<Rightarrow> bool option" where
  "last_call key calls = map_of (rev (map (\<lambda>(pl, b, v). ((pl, b), v)) calls)) key"

lemma last_call_append: "last_call key (xs @ ys) = (case last_call key ys of None \<Rightarrow> last_call key xs | Some v \<Rightarrow> Some v)"
  by (auto simp: last_call_def map_add_def split: option.splits)

lemma last_call_none [simp]: "last_call key [] = None"
  by (simp add: last_call_def)

definition probe_step :: "config \<Rightarrow> handler \<Rightarrow> heap \<times> health_call list \<Rightarrow> (string \<times> bid) \<times> probe_result \<Rightarrow> heap \<times> health_call list" where
  "probe_step cfg h st e =
     (case e of ((name, b), res) \<Rightarrow> check (policy_of cfg name) (if h_observed h then Some name else None) b res st)"

text \<open>Backends are not shared between pools, and names tell the backends of a pool apart.\<close>

definition separate :: "handler \<Rightarrow> heap \<Rightarrow> bool" where
  "separate h hp \<longleftrightarrow> distinct (map snd (watched h)) \<and> distinct (map (\<lambda>(name, b). (name, b_name (hp b))) (watched h))"

definition gauges_right :: "handler \<Rightarrow> heap \<Rightarrow> heap \<times> health_call list \<Rightarrow> bool" where
  "gauges_right h hp st \<longleftrightarrow> (\<forall>b. b_name (fst st b) = b_name (hp b)) \<and>
     (\<forall>(name, b) \<in> set (watched h). last_call (name, b_name (hp b)) (snd st) = Some (alive (fst st b)))"

lemma start_calls:
  "h_observed h \<Longrightarrow> fst (start_health_checks cfg h hp) = map (\<lambda>(name, b). (name, b_name (hp b), alive (hp b))) (watched h)"
  by (auto simp: start_health_checks_def watched_def map_concat comp_def intro!: arg_cong [of _ _ concat] map_cong)

lemma gauges_start:
  assumes "h_observed h" "separate h hp"
  shows "gauges_right h hp (hp, fst (start_health_checks cfg h hp))"
proof -
  have "last_call (name, b_name (hp b)) (map (\<lambda>(name, b). (name, b_name (hp b), alive (hp b))) (watched h)) = Some (alive (hp b))"
    if "(name, b) \<in> set (watched h)" for name b
    unfolding last_call_def
    by (rule map_of_is_SomeI)
       (use assms(2) that in \<open>auto simp: separate_def comp_def case_prod_beta' rev_map [symmetric] image_iff intro!: bexI [of _ "(name, b)"]\<close>)
  then show ?thesis by (auto simp: gauges_right_def start_calls [OF assms(1)])
qed

lemma gauges_step:
  assumes "h_observed h" "separate h hp" "gauges_right h hp st" "fst e \<in> set (watched h)"
  shows "gauges_right h hp (probe_step cfg h st e)"
proof -
  obtain name b res where e: "e = ((name, b), res)" by (cases e) auto
  obtain hp1 calls where st: "st = (hp1, calls)" by (cases st)
  let ?x = "probed (policy_of cfg name) res (hp1 b)"
  let ?new = "change_call (policy_of cfg name) (Some name) res (hp1 b)"
  have step: "probe_step cfg h st e = (hp1(b := ?x), calls @ ?new)"
    using assms(1) by (simp add: probe_step_def e st check_effect)
  have names: "b_name (hp1 c) = b_name (hp c)" for c using assms(3) by (simp add: gauges_right_def st)
  have sndinj: "inj_on snd (set (watched h))" and keyinj: "inj_on (\<lambda>(name, b). (name, b_name (hp b))) (set (watched h))"
    using assms(2) by (simp_all add: separate_def distinct_map)
  have here: "(name, b) \<in> set (watched h)" using assms(4) by (simp add: e)
  have "last_call (name', b_name (hp c)) (calls @ ?new) = Some (alive ((hp1(b := ?x)) c))" if there: "(name', c) \<in> set (watched h)" for name' c
  proof -
    have old: "last_call (name', b_name (hp c)) calls = Some (alive (hp1 c))"
      using assms(3) there by (auto simp: gauges_right_def st)
    show ?thesis
    proof (cases "c = b")
      case True
      with inj_onD [OF sndinj _ there here] have "name' = name" by simp
      with True old show ?thesis
        by (cases "alive ?x = alive (hp1 b)") (simp_all add: change_call_def last_call_append, simp_all add: last_call_def names)
    next
      case False
      with inj_onD [OF keyinj _ there here] have "(name', b_name (hp c)) \<noteq> (name, b_name (hp b))" by auto
      then have "last_call (name', b_name (hp c)) ?new = None" by (auto simp: change_call_def last_call_def names)
      with False old show ?thesis by (simp add: last_call_append)
    qed
  qed
  then show ?thesis by (auto simp: gauges_right_def step names)
qed

lemma gauges_run:
  assumes "h_observed h" "separate h hp" "gauges_right h hp st" "\<forall>e \<in> set es. fst e \<in> set (watched h)"
  shows "gauges_right h hp (foldl (probe_step cfg h) st es)"
  using assms(3,4)
proof (induction es arbitrary: st)
  case (Cons e es)
  then show ?case using gauges_step [OF assms(1,2), of st e] by simp
qed simp

section \<open>Handlers that were built\<close>

lemma build_backends_names:
  assumes "build_backends parse nx hp bs = Inr (ids, n, hp')"
  shows "nx \<le> n \<and> ids = [nx..<n] \<and> (\<forall>c < nx. hp' c = hp c) \<and> map (\<lambda>c. b_name (hp' c)) ids = map bc_name bs"
  using assms
proof (induction bs arbitrary: nx hp ids)
  case (Cons b bs)
  then obtain u ids' where rest: "build_backends parse (nx + 1) (hp(nx := new_backend (bc_name b) (Some u))) bs = Inr (ids', n, hp')"
    and ids: "ids = nx # ids'" by (auto split: option.splits sum.splits)
  note ih = Cons.IH [OF rest]
  then have "hp' nx = new_backend (bc_name b) (Some u)" by simp
  moreover have "[nx..<n] = nx # [nx + 1..<n]" using ih by (simp add: upt_conv_Cons)
  ultimately show ?case using ih by (auto simp: ids new_backend_def)
qed auto

definition pool_names :: "heap \<Rightarrow> string \<times> runtime_pool \<Rightarrow> (string \<times> string) list" where
  "pool_names hp np = map (\<lambda>c. (fst np, b_name (hp c))) (rp_backends (snd np))"

lemma build_pools_names:
  assumes "build_pools parse tr nx hp ps = Inr (rps, n, hp')"
  shows "nx \<le> n \<and> concat (map (\<lambda>np. rp_backends (snd np)) rps) = [nx..<n] \<and> (\<forall>c < nx. hp' c = hp c) \<and>
    concat (map (pool_names hp') rps) = concat (map (\<lambda>(name, p). map (\<lambda>b. (name, bc_name b)) (p_backends p)) ps)"
  using assms
proof (induction ps arbitrary: nx hp rps)
  case (Cons np ps)
  then obtain ids mid hp1 rps' rp where head: "build_backends parse nx hp (p_backends (snd np)) = Inr (ids, mid, hp1)"
    and rest: "build_pools parse tr mid hp1 ps = Inr (rps', n, hp')"
    and rps: "rps = (fst np, rp) # rps'" "rp_backends rp = ids"
    by (auto simp: Let_def split: option.splits sum.splits)
  note ih = Cons.IH [OF rest] and one = build_backends_names [OF head]
  have "map (\<lambda>c. b_name (hp' c)) ids = map bc_name (p_backends (snd np))"
    using ih one by (metis (no_types, lifting) atLeastLessThan_iff map_eq_conv set_upt)
  then have "map (Pair (fst np)) (map (\<lambda>c. b_name (hp' c)) ids) = map (Pair (fst np)) (map bc_name (p_backends (snd np)))"
    by simp
  then have "pool_names hp' (fst np, rp) = (case np of (name, p) \<Rightarrow> map (\<lambda>b. (name, bc_name b)) (p_backends p))"
    by (simp add: pool_names_def rps comp_def case_prod_beta')
  moreover have "[nx..<mid] @ [mid..<n] = [nx..<n]" using ih one by (metis le_add_diff_inverse upt_add_eq_append)
  ultimately show ?case using ih one by (simp add: rps)
qed auto

lemma distinct_pool_names:
  assumes "distinct (map fst ps)" "\<forall>np \<in> set ps. distinct (map bc_name (p_backends (snd np)))"
  shows "distinct (concat (map (\<lambda>(name, p). map (\<lambda>b. (name, bc_name b)) (p_backends p)) ps))"
  using assms
proof (induction ps)
  case (Cons np ps)
  obtain nm p where np: "np = (nm, p)" by (cases np)
  let ?rest = "concat (map (\<lambda>(name, p). map (\<lambda>b. (name, bc_name b)) (p_backends p)) ps)"
  have "distinct (map (Pair nm) (map bc_name (p_backends p)))"
    using Cons.prems(2) by (subst distinct_map) (auto simp: np inj_on_def)
  then have here: "distinct (map (\<lambda>b. (nm, bc_name b)) (p_backends p))" by (simp add: comp_def)
  have "fst ` set ?rest \<subseteq> fst ` set ps" by force
  moreover have "nm \<notin> fst ` set ps" using Cons.prems(1) by (simp add: np)
  ultimately have "nm \<notin> fst ` set ?rest" by blast
  then have "set (map (\<lambda>b. (nm, bc_name b)) (p_backends p)) \<inter> set ?rest = {}" by force
  moreover have "distinct ?rest" using Cons by simp
  ultimately show ?case using here by (simp only: np list.map concat.simps prod.case distinct_append)
qed simp

lemma built_separate:
  assumes "validate parse cfg = []" "distinct (map fst (pools cfg))"
    and new: "new_handler parse tr observed clean parse_time cfg = Inr (h, sh)"
    and "\<forall>b. b_name (hp b) = b_name (sh_heap sh b)"
  shows "separate h hp"
proof -
  have wf: "well_formed parse cfg" using assms(1) by (simp add: validate_ok_iff)
  obtain rps n where pools: "build_pools parse tr 0 empty_heap (pools cfg) = Inr (rps, n, sh_heap sh)" and h: "h_pools h = rps"
    using new by (auto simp: new_handler_def split: if_splits sum.splits)
  have snds: "map snd (watched h) = concat (map (\<lambda>np. rp_backends (snd np)) rps)"
    by (simp add: watched_def h map_concat comp_def case_prod_beta')
  have keys: "map (\<lambda>(name, b). (name, b_name (hp b))) (watched h) = concat (map (pool_names (sh_heap sh)) rps)"
    using assms(4) by (simp add: watched_def h map_concat comp_def case_prod_beta' pool_names_def [abs_def])
  have "distinct (map bc_name (p_backends (snd np)))" if "np \<in> set (pools cfg)" for np
    using wf that by (auto simp: well_formed_def well_formed_pool_def list_all_iff)
  with distinct_pool_names [OF assms(2)] build_pools_names [OF pools] show ?thesis
    by (simp add: separate_def snds keys)
qed

text \<open>
  C36. The health gauges follow the probes: in a handler built from a valid configuration, with an
  observer, after the reports \<open>StartHealthChecks\<close> makes at once and after any probes of any of its
  backends, in any order, the last report on every backend is its eligibility.
\<close>

theorem health_gauges_follow_probes:
  assumes "validate parse cfg = []" and "distinct (map fst (pools cfg))"
    and "new_handler parse tr True clean parse_time cfg = Inr (h, sh)"
    and "\<forall>b. b_name (hp b) = b_name (sh_heap sh b)"
    and "\<forall>e \<in> set es. fst e \<in> set (watched h)"
    and "(hp', calls) = foldl (probe_step cfg h) (hp, fst (start_health_checks cfg h hp)) es"
  shows "\<forall>(name, p) \<in> set (h_pools h). \<forall>b \<in> set (rp_backends p).
    last_call (name, b_name (hp' b)) calls = Some (alive (hp' b))"
proof -
  have "h_observed h" using assms(3) by (auto simp: new_handler_def split: if_splits sum.splits)
  note sep = built_separate [OF assms(1-4)]
  from gauges_run [OF \<open>h_observed h\<close> sep gauges_start [OF \<open>h_observed h\<close> sep, of cfg] assms(5), of cfg] assms(6) [symmetric]
  have "gauges_right h hp (hp', calls)" by simp
  then show ?thesis by (force simp: gauges_right_def watched_def)
qed

definition watched_config :: config where
  "watched_config = demo_config [plain_route ''api'' [] ''/api'' ''main'']"

definition demo_watched :: "new_handler_error + (handler \<times> shared)" where
  "demo_watched = new_handler demo_parse (\<lambda>_. None) True (\<lambda>q. q) (\<lambda>_. None)
     (demo_config [plain_route ''api'' [] ''/api'' ''main''])"

lemma demo_watched_built:
  "case demo_watched of Inl e \<Rightarrow> False | Inr (h, sh) \<Rightarrow>
     h_pools h = [(''main'', \<lparr>rp_backends = [0, 1], rp_max_attempts = 2, rp_passive_threshold = 3\<rparr>)] \<and>
     (\<forall>b \<in> {0, 1}. alive (sh_heap sh b) \<and> probe_fails (sh_heap sh b) = 0)"
  by code_simp

text \<open>Three failing probes of the second backend of the demonstration pool.\<close>

theorem health_gauges_follow_probes_witness:
  "case demo_watched of Inl e \<Rightarrow> False | Inr (h, sh) \<Rightarrow>
     (case foldl (probe_step watched_config h) (sh_heap sh, fst (start_health_checks watched_config h (sh_heap sh)))
        (replicate 3 ((''main'', 1), ProbeError)) of (hp', calls) \<Rightarrow>
        last_call (''main'', b_name (hp' 1)) calls = Some (alive (hp' 1)))"
proof (cases demo_watched)
  case (Inl e)
  from demo_watched_built show ?thesis unfolding Inl sum.case .
next
  case (Inr r)
  obtain h sh where r: "r = (h, sh)" by (cases r)
  let ?cfg = watched_config
  let ?es = "replicate 3 ((''main'', 1), ProbeError)"
  have new: "new_handler demo_parse (\<lambda>_. None) True (\<lambda>q. q) (\<lambda>_. None) ?cfg = Inr (h, sh)"
    using Inr by (simp add: r demo_watched_def watched_config_def)
  have pools: "h_pools h = [(''main'', \<lparr>rp_backends = [0, 1], rp_max_attempts = 2, rp_passive_threshold = 3\<rparr>)]"
    using demo_watched_built unfolding Inr r sum.case prod.case by blast
  have one: "distinct (map fst (pools ?cfg))" by (simp add: watched_config_def demo_config_def)
  have es: "\<forall>e \<in> set ?es. fst e \<in> set (watched h)" by (simp add: watched_def pools)
  obtain hp' calls where run: "foldl (probe_step watched_config h)
      (sh_heap sh, fst (start_health_checks watched_config h (sh_heap sh))) ?es = (hp', calls)" by fastforce
  have "\<forall>(name, p) \<in> set (h_pools h). \<forall>b \<in> set (rp_backends p). last_call (name, b_name (hp' b)) calls = Some (alive (hp' b))"
    by (rule health_gauges_follow_probes [OF demo_config_valid [folded watched_config_def] one new _ es run [symmetric]]) simp
  then show ?thesis unfolding Inr r sum.case prod.case run by (simp add: pools)
qed

section \<open>Outages\<close>

definition failing_rounds :: "bid \<Rightarrow> (bid list \<times> (bid \<Rightarrow> probe_result)) list \<Rightarrow> bool" where
  "failing_rounds b rounds \<longleftrightarrow> list_all (\<lambda>r. fst r = [b] \<and> \<not> probe_success (snd r b)) rounds"

lemma failing_round:
  "\<not> probe_success (results b) \<Longrightarrow> check_once policy (Some name) [b] results (hp, calls) =
     (hp(b := snd (record_probe False (hp_healthy policy) (hp_unhealthy policy) (hp b))),
      calls @ (if alive (hp b) \<and> hp_unhealthy policy \<le> probe_fails (hp b) + 1 then [(name, b_name (hp b), False)] else []))"
  by (simp add: check_once_def check_effect probed_def change_call_def record_probe_def Let_def)

lemma outage_continues:
  assumes "failing_rounds b rounds" "\<not> alive (hp b)" "run_checker policy (Some name) rounds (hp, calls) = (hp', calls')"
  shows "\<not> alive (hp' b) \<and> calls' = calls"
  using assms
proof (induction rounds arbitrary: hp)
  case (Cons r rs)
  let ?hp = "hp(b := snd (record_probe False (hp_healthy policy) (hp_unhealthy policy) (hp b)))"
  have rs: "failing_rounds b rs" "\<not> alive (?hp b)"
    using Cons.prems by (simp_all add: failing_rounds_def record_probe_def Let_def)
  have "check_once policy (Some name) (fst r) (snd r) (hp, calls) = (?hp, calls)"
    using Cons.prems(1,2) by (simp add: failing_rounds_def failing_round)
  then have "run_checker policy (Some name) rs (?hp, calls) = (hp', calls')"
    using Cons.prems(3) by (simp only: run_checker.simps)
  with Cons.IH rs show ?case by blast
qed simp

lemma outage_starts:
  assumes "failing_rounds b rounds" "alive (hp b)" "probe_fails (hp b) < hp_unhealthy policy"
  shows "(alive (fst (run_checker policy (Some name) rounds (hp, calls)) b) \<longleftrightarrow>
      probe_fails (hp b) + int (length rounds) < hp_unhealthy policy) \<and>
    snd (run_checker policy (Some name) rounds (hp, calls)) = calls @
      (if probe_fails (hp b) + int (length rounds) < hp_unhealthy policy then [] else [(name, b_name (hp b), False)])"
  using assms
proof (induction rounds arbitrary: hp calls)
  case (Cons r rs)
  let ?x = "snd (record_probe False (hp_healthy policy) (hp_unhealthy policy) (hp b))"
  let ?hp = "hp(b := ?x)"
  have rs: "failing_rounds b rs" and run: "run_checker policy (Some name) (r # rs) (hp, calls) =
      run_checker policy (Some name) rs (?hp, calls @ (if hp_unhealthy policy \<le> probe_fails (hp b) + 1 then [(name, b_name (hp b), False)] else []))"
    using Cons.prems by (simp_all add: failing_rounds_def failing_round)
  show ?case
  proof (cases "hp_unhealthy policy \<le> probe_fails (hp b) + 1")
    case True
    then have "\<not> alive (?hp b)" using Cons.prems by (simp add: record_probe_def Let_def)
    then have "\<not> alive (fst (run_checker policy (Some name) (r # rs) (hp, calls)) b) \<and>
        snd (run_checker policy (Some name) (r # rs) (hp, calls)) = calls @ [(name, b_name (hp b), False)]"
      unfolding run using True outage_continues [where hp = ?hp, OF rs _ surjective_pairing] by simp
    with True show ?thesis by simp
  next
    case False
    then have "alive (?hp b)" "probe_fails (?hp b) = probe_fails (hp b) + 1" "b_name (?hp b) = b_name (hp b)"
      using Cons.prems by (simp_all add: record_probe_def Let_def)
    with Cons.IH [OF rs, where hp = ?hp and calls = calls] False Cons.prems(3) show ?thesis
      unfolding run by (simp del: fun_upd_apply add: ac_simps)
  qed
qed simp



text \<open>
  Only probes report. A backend that failing requests ejected is out of service with its last
  report, that it is healthy, still standing; and because it already is out of service, failing
  probes do not report it either.
\<close>

lemma passive_ejection_unreported:
  assumes "alive (hp b)" "passive_fails (hp b) + 1 \<ge> threshold" "failing_rounds b rounds"
  shows "case run_checker policy (Some name) rounds (hp(b := snd (record_passive_failure threshold (hp b))), calls) of
    (hp', calls') \<Rightarrow> \<not> alive (hp' b) \<and> calls' = calls"
proof -
  let ?hp = "hp(b := snd (record_passive_failure threshold (hp b)))"
  have "\<not> alive (?hp b)" using assms(1,2) by (simp add: record_passive_failure_def Let_def)
  note outage_continues [where hp = ?hp, OF assms(3) this]
  then show ?thesis by (auto simp del: fun_upd_apply split: prod.splits)
qed

end
