(* ===== verification/Runtime.thy ===== *)
theory Runtime
  imports Load Server Health Observability ProxySafe
begin

text \<open>
  The runtime of the program (package \<open>app\<close>): the published handler, the active configuration,
  the TLS stores and the health workers, and the reload that replaces them. A handler that was
  built lives on with its requests as a generation; \<open>Dynamic\<close> holds the number of the published
  one. What \<open>New\<close> and \<open>Reload\<close> take from outside is two records: the functions of the libraries (the
  YAML decoder, URL parsing, path cleaning, date and certificate parsing), and the state of the
  world, given anew for each reload since files change in between.
\<close>

section \<open>The outside world\<close>

record library =
  lb_decode :: "config \<Rightarrow> string \<Rightarrow> config option"
  lb_trailing :: "string \<Rightarrow> trailing"
  lb_parse :: "string \<Rightarrow> url option"
  lb_clean :: "string \<Rightarrow> string"
  lb_parse_time :: "string \<Rightarrow> time option"
  lb_parse_leaf :: "string \<Rightarrow> leaf option"

record world =
  w_files :: "string \<Rightarrow> reader option"
  w_transport :: "config \<Rightarrow> pool \<Rightarrow> transport_error option"
  w_load_pair :: "string \<Rightarrow> string \<Rightarrow> certificate option"
  w_now :: time

section \<open>What needs a restart\<close>

datatype restart_error =
    AdminAddressRestart | AdminEnvRestart | AdminTokensRestart | ListenerCountRestart
  | ListenerAddressRestart nat | ListenerModeRestart nat
  | ReadHeaderRestart | ReadBodyRestart | WriteRestart | IdleRestart | ShutdownRestart
  | MaxHeaderRestart | MaxConnectionsRestart

primrec listeners_compatible :: "nat \<Rightarrow> (listener \<times> listener) list \<Rightarrow> restart_error list" where
  "listeners_compatible i [] = []"
| "listeners_compatible i (cn # rest) =
     report (l_address (fst cn) \<noteq> l_address (snd cn)) (ListenerAddressRestart i) @
     report ((l_tls (fst cn) = None) \<noteq> (l_tls (snd cn) = None)) (ListenerModeRestart i) @
     listeners_compatible (Suc i) rest"

definition immutable_compatible :: "config \<Rightarrow> config \<Rightarrow> restart_error list" where
  "immutable_compatible cur nxt =
     (let errs = report (a_address (c_admin cur) \<noteq> a_address (c_admin nxt)) AdminAddressRestart @
        report (auth_token_env (c_admin cur) \<noteq> auth_token_env (c_admin nxt)) AdminEnvRestart @
        report (a_tokens (c_admin cur) \<noteq> a_tokens (c_admin nxt)) AdminTokensRestart
      in if length (listeners cur) \<noteq> length (listeners nxt) then errs @ [ListenerCountRestart]
         else errs @ listeners_compatible 0 (zip (listeners cur) (listeners nxt)) @
           report (t_read_header (c_timeouts cur) \<noteq> t_read_header (c_timeouts nxt)) ReadHeaderRestart @
           report (t_read_body (c_timeouts cur) \<noteq> t_read_body (c_timeouts nxt)) ReadBodyRestart @
           report (t_write (c_timeouts cur) \<noteq> t_write (c_timeouts nxt)) WriteRestart @
           report (t_idle (c_timeouts cur) \<noteq> t_idle (c_timeouts nxt)) IdleRestart @
           report (t_shutdown (c_timeouts cur) \<noteq> t_shutdown (c_timeouts nxt)) ShutdownRestart @
           report (max_header_bytes (c_limits cur) \<noteq> max_header_bytes (c_limits nxt)) MaxHeaderRestart @
           report (max_connections (c_limits cur) \<noteq> max_connections (c_limits nxt)) MaxConnectionsRestart)"

text \<open>The part of a configuration that the bound sockets and the running servers use.\<close>

type_synonym frozen_part = "(string \<times> string \<times> admin_token list) \<times> (string \<times> bool) list \<times> duration list \<times> int \<times> int"

definition frozen :: "config \<Rightarrow> frozen_part" where
  "frozen cfg =
     ((a_address (c_admin cfg), auth_token_env (c_admin cfg), a_tokens (c_admin cfg)),
      map (\<lambda>l. (l_address l, l_tls l = None)) (listeners cfg),
      [t_read_header (c_timeouts cfg), t_read_body (c_timeouts cfg), t_write (c_timeouts cfg), t_idle (c_timeouts cfg),
       t_shutdown (c_timeouts cfg)],
      max_header_bytes (c_limits cfg), max_connections (c_limits cfg))"

lemma listeners_compatible_iff:
  "length xs = length ys \<Longrightarrow> listeners_compatible i (zip xs ys) = [] \<longleftrightarrow>
     map (\<lambda>l. (l_address l, l_tls l = None)) xs = map (\<lambda>l. (l_address l, l_tls l = None)) ys"
  by (induction xs ys arbitrary: i rule: list_induct2) auto

lemma immutable_iff: "immutable_compatible cur nxt = [] \<longleftrightarrow> frozen cur = frozen nxt"
proof (cases "length (listeners cur) = length (listeners nxt)")
  case True
  let ?addr = "\<lambda>cfg. map (\<lambda>l. (l_address l, l_tls l = None)) (listeners cfg)"
  have "immutable_compatible cur nxt = [] \<longleftrightarrow>
      a_address (c_admin cur) = a_address (c_admin nxt) \<and> auth_token_env (c_admin cur) = auth_token_env (c_admin nxt) \<and>
      a_tokens (c_admin cur) = a_tokens (c_admin nxt) \<and> listeners_compatible 0 (zip (listeners cur) (listeners nxt)) = [] \<and>
      t_read_header (c_timeouts cur) = t_read_header (c_timeouts nxt) \<and> t_read_body (c_timeouts cur) = t_read_body (c_timeouts nxt) \<and>
      t_write (c_timeouts cur) = t_write (c_timeouts nxt) \<and> t_idle (c_timeouts cur) = t_idle (c_timeouts nxt) \<and>
      t_shutdown (c_timeouts cur) = t_shutdown (c_timeouts nxt) \<and> max_header_bytes (c_limits cur) = max_header_bytes (c_limits nxt) \<and>
      max_connections (c_limits cur) = max_connections (c_limits nxt)"
    using True by (simp add: immutable_compatible_def)
  then show ?thesis
    unfolding listeners_compatible_iff [OF True] frozen_def prod.inject list.inject by blast
next
  case False
  then have "?thesis \<longleftrightarrow> frozen cur \<noteq> frozen nxt" by (simp add: immutable_compatible_def)
  moreover have "frozen cur \<noteq> frozen nxt"
    using False map_eq_imp_length_eq unfolding frozen_def prod.inject by blast
  ultimately show ?thesis by blast
qed

section \<open>The state\<close>

record generation =
  ge_config :: config
  ge_handler :: handler
  ge_system :: system

record runtime =
  rn_path :: string
  rn_observed :: bool
  rn_dynamic :: "nat dynamic"
  rn_current :: config
  rn_tls :: "certificate_store option list"
  rn_workers :: "nat option"
  rn_generations :: "generation list"
  rn_sinks :: sinks

datatype runtime_error =
    LoadFailed load_error | RequiresRestart "restart_error list" | HandlerFailed new_handler_error
  | CertificateFailed nat tls_error

definition published :: "runtime \<Rightarrow> generation" where
  "published rt = rn_generations rt ! dy_current (rn_dynamic rt)"

definition build_handler :: "library \<Rightarrow> world \<Rightarrow> bool \<Rightarrow> config \<Rightarrow> new_handler_error + (handler \<times> shared)" where
  "build_handler lb w observed cfg =
     new_handler (lb_parse lb) (w_transport w cfg) observed (lb_clean lb) (lb_parse_time lb) cfg"

definition new_generation :: "config \<Rightarrow> handler \<Rightarrow> shared \<Rightarrow> generation" where
  "new_generation cfg h sh = \<lparr>ge_config = cfg, ge_handler = h, ge_system = \<lparr>sy_shared = sh, sy_threads = []\<rparr>\<rparr>"

definition reconcile_observer :: "config \<Rightarrow> runtime \<Rightarrow> runtime" where
  "reconcile_observer cfg rt =
     (if rn_observed rt then rt\<lparr>rn_sinks := fanout_reconcile program_fanout cfg (rn_sinks rt)\<rparr> else rt)"

section \<open>New\<close>

primrec load_stores :: "library \<Rightarrow> world \<Rightarrow> nat \<Rightarrow> listener list \<Rightarrow> runtime_error + certificate_store option list" where
  "load_stores lb w i [] = Inr []"
| "load_stores lb w i (l # ls) =
     (case l_tls l of
        None \<Rightarrow> map_sum id (\<lambda>ss. None # ss) (load_stores lb w (Suc i) ls)
      | Some t \<Rightarrow>
          (case store_load (w_load_pair w) (lb_parse_leaf lb) (w_now w) t \<lparr>cs_certificate = None\<rparr> of
             (Some e, _) \<Rightarrow> Inl (CertificateFailed i e)
           | (None, st) \<Rightarrow> map_sum id (\<lambda>ss. Some st # ss) (load_stores lb w (Suc i) ls)))"

definition new_runtime :: "library \<Rightarrow> world \<Rightarrow> config \<Rightarrow> string \<Rightarrow> bool \<Rightarrow> sinks \<Rightarrow> runtime_error + runtime" where
  "new_runtime lb w cfg pth observed sinks =
     (case build_handler lb w observed cfg of
        Inl e \<Rightarrow> Inl (HandlerFailed e)
      | Inr (h, sh) \<Rightarrow>
          (case load_stores lb w 0 (listeners cfg) of
             Inl e \<Rightarrow> Inl e
           | Inr stores \<Rightarrow> Inr (reconcile_observer cfg
               \<lparr>rn_path = pth, rn_observed = observed, rn_dynamic = new_dynamic 0, rn_current = cfg,
                rn_tls = stores, rn_workers = None, rn_generations = [new_generation cfg h sh], rn_sinks = sinks\<rparr>)))"

text \<open>\<open>TLSConfig\<close>: the policy of a listener's handshakes, none for plain HTTP.\<close>

definition runtime_tls_config :: "runtime \<Rightarrow> nat \<Rightarrow> server_tls option" where
  "runtime_tls_config rt i = (if rn_tls rt ! i = None then None else Some store_tls_config)"

definition runtime_ready :: "runtime \<Rightarrow> bool" where
  "runtime_ready rt = ready (ge_handler (published rt)) (sh_heap (sy_shared (ge_system (published rt))))"

text \<open>
  \<open>startHealthLocked\<close>: the workers of the earlier handler are cancelled, those of the published one
  start, and report the state of every backend first.
\<close>

definition report_health :: "health_call list \<Rightarrow> sinks \<Rightarrow> sinks" where
  "report_health calls s = foldl (\<lambda>s (pl, b, healthy). fanout_health program_fanout pl b healthy s) s calls"

definition start_health_locked :: "runtime \<Rightarrow> runtime" where
  "start_health_locked rt =
     (let g = published rt;
          calls = fst (start_health_checks (rn_current rt) (ge_handler g) (sh_heap (sy_shared (ge_system g))))
      in rt\<lparr>rn_workers := Some (dy_current (rn_dynamic rt)),
            rn_sinks := report_health calls (rn_sinks rt)\<rparr>)"

section \<open>Reload\<close>

primrec stage_certificates :: "library \<Rightarrow> world \<Rightarrow> nat \<Rightarrow> listener list \<Rightarrow> runtime_error + certificate option list" where
  "stage_certificates lb w i [] = Inr []"
| "stage_certificates lb w i (l # ls) =
     (case l_tls l of
        None \<Rightarrow> map_sum id (\<lambda>cs. None # cs) (stage_certificates lb w (Suc i) ls)
      | Some t \<Rightarrow>
          (case load_certificate (w_load_pair w) (lb_parse_leaf lb) (w_now w) t of
             Inl e \<Rightarrow> Inl (CertificateFailed i e)
           | Inr c \<Rightarrow> map_sum id (\<lambda>cs. Some c # cs) (stage_certificates lb w (Suc i) ls)))"

text \<open>Publishing to a listener without a store, or beyond the stores, would panic: \<^const>\<open>None\<close>.\<close>

fun publish_staged :: "certificate option list \<Rightarrow> certificate_store option list \<Rightarrow> certificate_store option list option" where
  "publish_staged [] stores = Some stores"
| "publish_staged (None # cs) (s # stores) = map_option (\<lambda>ss. s # ss) (publish_staged cs stores)"
| "publish_staged (Some c # cs) (Some s # stores) = map_option (\<lambda>ss. Some (publish c s) # ss) (publish_staged cs stores)"
| "publish_staged (Some c # cs) (None # stores) = None"
| "publish_staged (None # cs) [] = map_option (\<lambda>ss. ss) (publish_staged cs [])"
| "publish_staged (Some c # cs) [] = None"

definition retire :: "generation \<Rightarrow> generation" where
  "retire g = g\<lparr>ge_system := sys_run (ge_handler g) (ge_system g) [RetireStore, RetireLoad]\<rparr>"

definition publish_reload :: "config \<Rightarrow> handler \<Rightarrow> shared \<Rightarrow> certificate_store option list \<Rightarrow> runtime \<Rightarrow> runtime" where
  "publish_reload nxt h sh stores rt0 =
     (let rt1 = rt0\<lparr>rn_tls := stores\<rparr>;
          prev = dy_current (rn_dynamic rt1);
          previous = published rt1;
          hp = inherit_backend_health (Some (ge_handler previous, sh_heap (sy_shared (ge_system previous)))) h (sh_heap sh);
          rt2 = reconcile_observer nxt rt1;
          rt3 = rt2\<lparr>rn_generations := rn_generations rt2 @ [new_generation nxt h (sh\<lparr>sh_heap := hp\<rparr>)],
                    rn_dynamic := swap (length (rn_generations rt2)) (rn_dynamic rt2)\<rparr>;
          rt4 = start_health_locked (rt3\<lparr>rn_current := nxt\<rparr>)
      in rt4\<lparr>rn_generations := (rn_generations rt4)[prev := retire (rn_generations rt4 ! prev)]\<rparr>)"

text \<open>What a reload prepares before it changes anything, and the reload.\<close>

record staged =
  sg_config :: config
  sg_handler :: handler
  sg_shared :: shared
  sg_certificates :: "certificate option list"

definition stage_reload :: "library \<Rightarrow> world \<Rightarrow> runtime \<Rightarrow> runtime_error + staged" where
  "stage_reload lb w rt =
     (case load_file (lb_decode lb) (lb_trailing lb) (lb_parse lb) (w_files w) (rn_path rt) of
        Inl e \<Rightarrow> Inl (LoadFailed e)
      | Inr nxt \<Rightarrow>
          if immutable_compatible (rn_current rt) nxt \<noteq> []
          then Inl (RequiresRestart (immutable_compatible (rn_current rt) nxt))
          else (case build_handler lb w (rn_observed rt) nxt of
             Inl e \<Rightarrow> Inl (HandlerFailed e)
           | Inr (h, sh) \<Rightarrow>
               (case stage_certificates lb w 0 (listeners nxt) of
                  Inl e \<Rightarrow> Inl e
                | Inr certs \<Rightarrow> Inr \<lparr>sg_config = nxt, sg_handler = h, sg_shared = sh, sg_certificates = certs\<rparr>)))"

definition reload :: "library \<Rightarrow> world \<Rightarrow> runtime \<Rightarrow> (runtime_error option \<times> runtime) option" where
  "reload lb w rt =
     (case stage_reload lb w rt of
        Inl e \<Rightarrow> Some (Some e, rt)
      | Inr sg \<Rightarrow>
          (case publish_staged (sg_certificates sg) (rn_tls rt) of
             None \<Rightarrow> None
           | Some stores \<Rightarrow> Some (None, publish_reload (sg_config sg) (sg_handler sg) (sg_shared sg) stores rt)))"

section \<open>Everything that happens\<close>

text \<open>
  A request loads the published handler and from then on runs in that generation, also after a
  reload; the probes of a generation may end after its workers were cancelled. What a generation
  reports reaches the sinks in the same step. A reload is one step here; the theory \<open>Reloading\<close>
  takes it apart.
\<close>

datatype runtime_event =
    Request string request
  | Progress nat nat input
  | ProbeDone nat string bid probe_result
  | StartHealth
  | Reload world

definition set_system :: "nat \<Rightarrow> system \<Rightarrow> runtime \<Rightarrow> runtime" where
  "set_system g sy rt = rt\<lparr>rn_generations := (rn_generations rt)[g := (rn_generations rt ! g)\<lparr>ge_system := sy\<rparr>]\<rparr>"

fun runtime_step :: "library \<Rightarrow> runtime \<Rightarrow> runtime_event \<Rightarrow> runtime option" where
  "runtime_step lb rt (Request ident r) =
     (let g = dy_current (rn_dynamic rt); ge = rn_generations rt ! g
      in Some (set_system g (sys_step (ge_handler ge) (ge_system ge) (Arrive ident r)) rt))"
| "runtime_step lb rt (Progress g k i) =
     (if g < length (rn_generations rt)
      then let ge = rn_generations rt ! g;
               sy = sys_step (ge_handler ge) (ge_system ge) (Step k i);
               obs = drop (length (sh_log (sy_shared (ge_system ge)))) (sh_log (sy_shared sy))
           in Some ((set_system g sy rt)\<lparr>rn_sinks := deliver_log program_fanout obs (rn_sinks rt)\<rparr>)
      else None)"
| "runtime_step lb rt (ProbeDone g name b res) =
     (if g < length (rn_generations rt) \<and> (name, b) \<in> set (watched (ge_handler (rn_generations rt ! g)))
      then let ge = rn_generations rt ! g; sy = ge_system ge
           in case probe_step (ge_config ge) (ge_handler ge) (sh_heap (sy_shared sy), []) ((name, b), res) of
                (hp, calls) \<Rightarrow>
                  Some ((set_system g (sy\<lparr>sy_shared := (sy_shared sy)\<lparr>sh_heap := hp\<rparr>\<rparr>) rt)
                    \<lparr>rn_sinks := report_health calls (rn_sinks rt)\<rparr>)
      else None)"
| "runtime_step lb rt StartHealth = Some (start_health_locked rt)"
| "runtime_step lb rt (Reload w) = map_option snd (reload lb w rt)"

section \<open>Staging\<close>

lemma map_sum_Inr [simp]: "map_sum id f x = Inr y \<longleftrightarrow> (\<exists>z. x = Inr z \<and> y = f z)"
  by (cases x) auto

text \<open>The certificate of a listener is valid, or the listener is plain.\<close>

definition certified :: "library \<Rightarrow> world \<Rightarrow> listener \<Rightarrow> certificate option \<Rightarrow> bool" where
  "certified lb w l c \<longleftrightarrow>
     (case l_tls l of
        None \<Rightarrow> c = None
      | Some t \<Rightarrow> (\<exists>x. c = Some x \<and> load_certificate (w_load_pair w) (lb_parse_leaf lb) (w_now w) t = Inr x))"

lemma stage_certificates_ok: "stage_certificates lb w i ls = Inr cs \<longleftrightarrow> list_all2 (certified lb w) ls cs"
  by (induction ls arbitrary: i cs)
     (auto simp: certified_def list_all2_Cons1 split: option.splits sum.splits)

definition holds :: "certificate option \<Rightarrow> certificate_store option \<Rightarrow> bool" where
  "holds c s \<longleftrightarrow> map_option cs_certificate s = map_option Some c"

lemma load_stores_ok:
  "load_stores lb w i ls = Inr ss \<Longrightarrow> list_all2 (\<lambda>l s. \<exists>c. certified lb w l c \<and> holds c s) ls ss"
proof (induction ls arbitrary: i ss)
  case (Cons l ls)
  then obtain s ss' where rest: "load_stores lb w (Suc i) ls = Inr ss'" and ss: "ss = s # ss'"
    by (auto split: option.splits prod.splits)
  have "\<exists>c. certified lb w l c \<and> holds c s"
    using Cons.prems
    by (auto simp: ss certified_def holds_def store_load_def publish_def split: option.splits sum.splits prod.splits)
  with Cons.IH [OF rest] show ?case by (simp add: ss)
qed simp

text \<open>The stores go with the listeners: one for each that speaks TLS, and it holds a certificate.\<close>

definition stores_match :: "listener list \<Rightarrow> certificate_store option list \<Rightarrow> bool" where
  "stores_match = list_all2 (\<lambda>l s. case s of None \<Rightarrow> l_tls l = None | Some st \<Rightarrow> l_tls l \<noteq> None \<and> cs_certificate st \<noteq> None)"

lemma load_stores_match: "load_stores lb w i ls = Inr ss \<Longrightarrow> stores_match ls ss"
  unfolding stores_match_def
  by (drule load_stores_ok, erule list_all2_mono) (auto simp: certified_def holds_def split: option.splits)

lemma publish_staged_ok:
  assumes "stores_match old ss" "list_all2 (certified lb w) ls cs" "map (\<lambda>l. l_tls l = None) ls = map (\<lambda>l. l_tls l = None) old"
  shows "\<exists>ss'. publish_staged cs ss = Some ss' \<and> list_all2 holds cs ss' \<and> stores_match ls ss'"
  using assms unfolding stores_match_def
proof (induction cs arbitrary: old ss ls)
  case (Cons c cs)
  then obtain l ls' where ls: "ls = l # ls'" by (auto simp: list_all2_Cons2)
  with Cons.prems(3) obtain o1 old' where old: "old = o1 # old'" by (cases old) auto
  with Cons.prems(1) obtain s ss1 where ss: "ss = s # ss1" by (auto simp: list_all2_Cons1)
  from Cons.IH [of old' ss1 ls'] Cons.prems ls old ss
  show ?case
    by (cases c; cases s) (auto simp: certified_def holds_def publish_def split: option.splits)
qed auto

section \<open>What inheritance and reports leave alone\<close>

lemma inherit_from_frame [simp]:
  "active (inherit_from old cs x) = active x" "b_url (inherit_from old cs x) = b_url x" "b_name (inherit_from old cs x) = b_name x"
  by (induction cs) (auto simp: set_alive_def)

lemma inherit_backends_frame:
  "active (foldl (\<lambda>hp b. hp(b := inherit_from old cs (hp b))) hp bs c) = active (hp c) \<and>
   b_url (foldl (\<lambda>hp b. hp(b := inherit_from old cs (hp b))) hp bs c) = b_url (hp c)"
  by (induction bs arbitrary: hp) auto

lemma inherit_frame:
  "active (inherit_backend_health prev h hp c) = active (hp c) \<and> b_url (inherit_backend_health prev h hp c) = b_url (hp c)"
proof -
  have "active (foldl (inherit_pool oldh old) hp ps c) = active (hp c) \<and> b_url (foldl (inherit_pool oldh old) hp ps c) = b_url (hp c)"
    for oldh old ps hp
  proof (induction ps arbitrary: hp)
    case (Cons p ps)
    then show ?case by (auto simp: inherit_pool_def inherit_backends_frame split: option.splits)
  qed simp
  then show ?thesis by (auto simp: inherit_backend_health_def split: option.splits)
qed

lemma start_health_frame [simp]:
  "rn_generations (start_health_locked rt) = rn_generations rt" "rn_dynamic (start_health_locked rt) = rn_dynamic rt"
  "rn_current (start_health_locked rt) = rn_current rt" "rn_tls (start_health_locked rt) = rn_tls rt"
  "rn_observed (start_health_locked rt) = rn_observed rt" "rn_path (start_health_locked rt) = rn_path rt"
  "rn_workers (start_health_locked rt) = Some (dy_current (rn_dynamic rt))"
  by (simp_all add: start_health_locked_def Let_def)

lemma reconcile_frame [simp]:
  "rn_generations (reconcile_observer cfg rt) = rn_generations rt" "rn_dynamic (reconcile_observer cfg rt) = rn_dynamic rt"
  "rn_current (reconcile_observer cfg rt) = rn_current rt" "rn_tls (reconcile_observer cfg rt) = rn_tls rt"
  "rn_observed (reconcile_observer cfg rt) = rn_observed rt" "rn_path (reconcile_observer cfg rt) = rn_path rt"
  "rn_workers (reconcile_observer cfg rt) = rn_workers rt"
  by (simp_all add: reconcile_observer_def)

lemma set_system_frame [simp]:
  "rn_dynamic (set_system g sy rt) = rn_dynamic rt" "rn_current (set_system g sy rt) = rn_current rt"
  "rn_tls (set_system g sy rt) = rn_tls rt" "rn_observed (set_system g sy rt) = rn_observed rt"
  "rn_path (set_system g sy rt) = rn_path rt" "length (rn_generations (set_system g sy rt)) = length (rn_generations rt)"
  "rn_sinks (set_system g sy rt) = rn_sinks rt" "rn_workers (set_system g sy rt) = rn_workers rt"
  by (simp_all add: set_system_def)

section \<open>A generation\<close>

text \<open>
  Every generation was built from a valid configuration; and unless that asks for a cache of more
  than half of the 64-bit range, it is what its handler does from a fresh start.
\<close>

definition bounded_cache :: "config \<Rightarrow> bool" where
  "bounded_cache cfg \<longleftrightarrow> 2 * c_max_bytes (c_cache cfg) \<le> max_int64"

definition generation_ok :: "library \<Rightarrow> bool \<Rightarrow> generation \<Rightarrow> bool" where
  "generation_ok lb observed g \<longleftrightarrow>
     (\<exists>w sh. build_handler lb w observed (ge_config g) = Inr (ge_handler g, sh)) \<and>
     (bounded_cache (ge_config g) \<longrightarrow>
        (\<exists>sh as. fresh_handler (ge_handler g) sh \<and> complete (ge_handler g) sh \<and> ge_system g = run_from (ge_handler g) sh as))"

lemma build_well_formed: "build_handler lb w observed cfg = Inr (h, sh) \<Longrightarrow> well_formed (lb_parse lb) cfg"
  by (auto simp: build_handler_def new_handler_def validate_ok_iff split: if_splits)

lemma generation_new:
  assumes build: "build_handler lb w observed cfg = Inr (h, sh)"
    and same: "\<And>b. active (hp b) = active (sh_heap sh b) \<and> b_url (hp b) = b_url (sh_heap sh b)"
  shows "generation_ok lb observed (new_generation cfg h (sh\<lparr>sh_heap := hp\<rparr>))"
proof -
  have "fresh_handler h (sh\<lparr>sh_heap := hp\<rparr>) \<and> complete h (sh\<lparr>sh_heap := hp\<rparr>)" if "bounded_cache cfg"
  proof -
    have "fresh_handler h sh \<and> complete h sh"
      using new_handler_built [OF build_well_formed [OF build] that [unfolded bounded_cache_def] build [unfolded build_handler_def]]
      by blast
    then show ?thesis using same by (simp add: fresh_handler_def complete_def)
  qed
  moreover have "\<lparr>sy_shared = sh', sy_threads = []\<rparr> = run_from h sh' []" for sh' by (simp add: run_from_def sys_run_def)
  ultimately show ?thesis using build unfolding generation_ok_def new_generation_def generation.simps by blast
qed

lemma run_from_append: "sys_run h (run_from h sh as) bs = run_from h sh (as @ bs)"
  by (simp add: run_from_def sys_run_def)

lemma generation_run:
  assumes "generation_ok lb observed g"
  shows "generation_ok lb observed (g\<lparr>ge_system := sys_run (ge_handler g) (ge_system g) as\<rparr>)"
proof -
  have "\<exists>sh bs. fresh_handler (ge_handler g) sh \<and> complete (ge_handler g) sh \<and>
      sys_run (ge_handler g) (ge_system g) as = run_from (ge_handler g) sh bs" if bounded: "bounded_cache (ge_config g)"
  proof -
    obtain sh bs where "fresh_handler (ge_handler g) sh" "complete (ge_handler g) sh" "ge_system g = run_from (ge_handler g) sh bs"
      using assms bounded by (auto simp: generation_ok_def)
    then show ?thesis using run_from_append by metis
  qed
  with assms show ?thesis by (simp add: generation_ok_def)
qed

lemma generation_step:
  "generation_ok lb observed g \<Longrightarrow> generation_ok lb observed (g\<lparr>ge_system := sys_step (ge_handler g) (ge_system g) a\<rparr>)"
  using generation_run [of lb observed g "[a]"] by (simp add: sys_run_def)

text \<open>A probe is a step of the generation's system.\<close>

lemma probe_is_step:
  assumes "probe_step cfg h (sh_heap (sy_shared sy), []) ((name, b), res) = (hp, calls)"
  shows "sy\<lparr>sy_shared := (sy_shared sy)\<lparr>sh_heap := hp\<rparr>\<rparr> =
    sys_step h sy (Health b (hp_healthy (policy_of cfg name)) (hp_unhealthy (policy_of cfg name)) (Probe (probe_success res)))"
  using assms by (auto simp: probe_step_def check_effect probed_def update_backend_def)

text \<open>Nothing a request does takes the retirement of its handler back.\<close>

lemma retired_frame [simp]:
  "sh_retired (acquire_backend h pl b sh) = sh_retired sh" "sh_retired (release_backend h pl b f sh) = sh_retired sh"
  "sh_retired (update_backend b x sh) = sh_retired sh"
  by (simp_all add: acquire_backend_def release_backend_def update_backend_def Let_def)

lemma retired_admission:
  "serve_start h now sh t = (sh', t') \<Longrightarrow> sh_retired sh' = sh_retired sh"
  "serve_limit h now sh t = (sh', t') \<Longrightarrow> sh_retired sh' = sh_retired sh"
  "serve_slot h sh t = (sh', t') \<Longrightarrow> sh_retired sh' = sh_retired sh"
  "serve_cache now sh t = (sh', t') \<Longrightarrow> sh_retired sh' = sh_retired sh"
  "serve_select h sh t = (sh', t') \<Longrightarrow> sh_retired sh' = sh_retired sh"
  "serve_acquire h sh t = (sh', t') \<Longrightarrow> sh_retired sh' = sh_retired sh"
  by (auto simp: serve_start_def serve_limit_def serve_slot_def serve_cache_def serve_select_def serve_acquire_def observers Let_def
      split: if_splits option.splits prod.splits sum.splits)

lemma retired_attempts:
  "attempt_error h e sh t = (sh', t') \<Longrightarrow> sh_retired sh' = sh_retired sh"
  "attempt_response h resp now sh t = (sh', t') \<Longrightarrow> sh_retired sh' = sh_retired sh"
  "attempt_failed h sh t = (sh', t') \<Longrightarrow> sh_retired sh' = sh_retired sh"
  "attempt_reselect h sh t = (sh', t') \<Longrightarrow> sh_retired sh' = sh_retired sh"
  "attempt_reacquire h ge sh t = (sh', t') \<Longrightarrow> sh_retired sh' = sh_retired sh"
  by (auto simp: attempt_error_def attempt_response_def attempt_failed_def attempt_reselect_def attempt_reacquire_def
      release_held_def Let_def split: if_splits option.splits prod.splits sum.splits)

lemma retired_closing:
  "close_capture sh t = (sh', t') \<Longrightarrow> sh_retired sh' = sh_retired sh"
  "close_release h sh t = (sh', t') \<Longrightarrow> sh_retired sh' = sh_retired sh"
  "serve_finish sh t = (sh', t') \<Longrightarrow> sh_retired sh' = sh_retired sh"
  "serve_report h ident now sh t = (sh', t') \<Longrightarrow> sh_retired sh' = sh_retired sh"
  "serve_leave sh t = (sh', t') \<Longrightarrow> sh_retired sh' = sh_retired sh"
  "serve_leave_check z sh t = (sh', t') \<Longrightarrow> sh_retired sh' = sh_retired sh"
  by (auto simp: close_capture_def close_release_def release_held_def serve_finish_def serve_report_def observers
      serve_leave_def serve_leave_check_def close_idle_connections_def Let_def split: if_splits option.splits prod.splits)

lemma retired_chunk:
  "stream_chunk h p e ok now1 now2 sh t = (sh', t') \<Longrightarrow> sh_retired sh' = sh_retired sh"
proof -
  have "sh_retired sh1 = sh_retired sh" if "capture_chunk h p eof now1 now2 sh t = Some (sh1, t1)" for eof sh1 t1
    using that by (auto simp: capture_chunk_def Let_def split: option.splits prod.splits)
  then show "stream_chunk h p e ok now1 now2 sh t = (sh', t') \<Longrightarrow> sh_retired sh' = sh_retired sh"
    by (auto simp: stream_chunk_def Let_def split: option.splits prod.splits if_splits read_end.splits)
qed

lemma step_retired: "serve_step h ident i sh t = (sh', t') \<Longrightarrow> sh_retired sh' = sh_retired sh"
proof (erule step_cases)
  assume "sh' = sh"
  then show "sh_retired sh' = sh_retired sh" by simp
qed (erule retired_admission retired_attempts retired_closing retired_chunk)+

lemma sys_step_retired: "sh_retired (sy_shared sy) \<Longrightarrow> sh_retired (sy_shared (sys_step h sy a))"
  by (cases a) (auto simp: step_retired retire_store_def retire_load_def close_idle_connections_def update_backend_def split: prod.splits)

lemma retire_retired: "sh_retired (sy_shared (ge_system (retire g)))"
  by (simp add: retire_def sys_run_def retire_store_def retire_load_def close_idle_connections_def)

section \<open>What a reload does\<close>

lemma publish_reload_fields:
  "rn_tls (publish_reload nxt h sh stores rt) = stores" "rn_current (publish_reload nxt h sh stores rt) = nxt"
  "rn_observed (publish_reload nxt h sh stores rt) = rn_observed rt" "rn_path (publish_reload nxt h sh stores rt) = rn_path rt"
  "dy_current (rn_dynamic (publish_reload nxt h sh stores rt)) = length (rn_generations rt)"
  "rn_workers (publish_reload nxt h sh stores rt) = Some (length (rn_generations rt))"
  by (simp_all add: publish_reload_def Let_def swap_def)

definition inherited_heap :: "runtime \<Rightarrow> handler \<Rightarrow> shared \<Rightarrow> heap" where
  "inherited_heap rt h sh =
     inherit_backend_health (Some (ge_handler (published rt), sh_heap (sy_shared (ge_system (published rt))))) h (sh_heap sh)"

lemma publish_reload_generations:
  assumes "dy_current (rn_dynamic rt) < length (rn_generations rt)"
  shows "rn_generations (publish_reload nxt h sh stores rt) =
    (rn_generations rt)[dy_current (rn_dynamic rt) := retire (published rt)] @
      [new_generation nxt h (sh\<lparr>sh_heap := inherited_heap rt h sh\<rparr>)]"
  using assms by (simp add: publish_reload_def Let_def published_def inherited_heap_def list_update_append nth_append)

lemma published_reload:
  assumes "dy_current (rn_dynamic rt) < length (rn_generations rt)"
  shows "published (publish_reload nxt h sh stores rt) = new_generation nxt h (sh\<lparr>sh_heap := inherited_heap rt h sh\<rparr>)"
  by (simp add: published_def publish_reload_generations [OF assms] publish_reload_fields nth_append)

lemma frozen_modes:
  "frozen a = frozen b \<Longrightarrow> map (\<lambda>l. l_tls l = None) (listeners a) = map (\<lambda>l. l_tls l = None) (listeners b)"
proof -
  assume "frozen a = frozen b"
  then have "map (\<lambda>l. (l_address l, l_tls l = None)) (listeners a) = map (\<lambda>l. (l_address l, l_tls l = None)) (listeners b)"
    unfolding frozen_def by blast
  from arg_cong [where f = "map snd", OF this] show ?thesis by (simp add: comp_def)
qed

text \<open>When a reload is accepted: the file loads, nothing frozen changed, the handler is built, the certificates are valid.\<close>

definition accepted :: "library \<Rightarrow> world \<Rightarrow> runtime \<Rightarrow> config \<Rightarrow> handler \<Rightarrow> shared \<Rightarrow> certificate option list \<Rightarrow> bool" where
  "accepted lb w rt nxt h sh cs \<longleftrightarrow>
     load_file (lb_decode lb) (lb_trailing lb) (lb_parse lb) (w_files w) (rn_path rt) = Inr nxt \<and>
     frozen (rn_current rt) = frozen nxt \<and> build_handler lb w (rn_observed rt) nxt = Inr (h, sh) \<and>
     list_all2 (certified lb w) (listeners nxt) cs"

lemma stage_reload_ok:
  "stage_reload lb w rt = Inr sg \<longleftrightarrow> accepted lb w rt (sg_config sg) (sg_handler sg) (sg_shared sg) (sg_certificates sg)"
  by (cases sg) (auto simp: stage_reload_def accepted_def immutable_iff stage_certificates_ok [of lb w 0, symmetric]
      split: sum.splits)

lemma reload_cases:
  assumes "stores_match (listeners (rn_current rt)) (rn_tls rt)"
  obtains (rejected) e where "reload lb w rt = Some (Some e, rt)" "stage_reload lb w rt = Inl e"
      "\<nexists>nxt h sh cs. accepted lb w rt nxt h sh cs"
  | (accepted) nxt h sh cs ss where "reload lb w rt = Some (None, publish_reload nxt h sh ss rt)"
      "accepted lb w rt nxt h sh cs" "list_all2 holds cs ss" "stores_match (listeners nxt) ss"
proof (cases "stage_reload lb w rt")
  case (Inl e)
  have "\<not> accepted lb w rt nxt h sh cs" for nxt h sh cs
    using stage_reload_ok [of lb w rt "\<lparr>sg_config = nxt, sg_handler = h, sg_shared = sh, sg_certificates = cs\<rparr>"] Inl by simp
  then show ?thesis by (intro that(1) [of e]) (simp_all add: reload_def Inl)
next
  case (Inr sg)
  then have acc: "accepted lb w rt (sg_config sg) (sg_handler sg) (sg_shared sg) (sg_certificates sg)"
    by (simp add: stage_reload_ok)
  then have cert: "list_all2 (certified lb w) (listeners (sg_config sg)) (sg_certificates sg)"
    and fz: "frozen (rn_current rt) = frozen (sg_config sg)" by (simp_all add: accepted_def)
  from publish_staged_ok [OF assms cert frozen_modes [OF fz [symmetric]]] obtain ss where
    ss: "publish_staged (sg_certificates sg) (rn_tls rt) = Some ss" "list_all2 holds (sg_certificates sg) ss"
      "stores_match (listeners (sg_config sg)) ss" by blast
  show ?thesis by (rule that(2) [OF _ acc ss(2,3)]) (simp add: reload_def Inr ss(1))
qed

section \<open>The invariant\<close>

definition runtime_ok :: "library \<Rightarrow> bool \<times> frozen_part \<Rightarrow> runtime \<Rightarrow> bool" where
  "runtime_ok lb fixed rt \<longleftrightarrow>
     (rn_observed rt, frozen (rn_current rt)) = fixed \<and>
     length (rn_generations rt) = Suc (dy_current (rn_dynamic rt)) \<and>
     rn_current rt = ge_config (published rt) \<and>
     stores_match (listeners (rn_current rt)) (rn_tls rt) \<and>
     list_all (generation_ok lb (rn_observed rt)) (rn_generations rt) \<and>
     (\<forall>g < dy_current (rn_dynamic rt). sh_retired (sy_shared (ge_system (rn_generations rt ! g)))) \<and>
     rn_workers rt \<in> {None, Some (dy_current (rn_dynamic rt))}"

lemma runtime_ok_new:
  assumes "new_runtime lb w cfg pth observed sinks = Inr rt"
  shows "runtime_ok lb (observed, frozen cfg) rt"
proof -
  obtain h sh ss where build: "build_handler lb w observed cfg = Inr (h, sh)" and ss: "load_stores lb w 0 (listeners cfg) = Inr ss"
    and rt: "rt = reconcile_observer cfg \<lparr>rn_path = pth, rn_observed = observed, rn_dynamic = new_dynamic 0, rn_current = cfg,
        rn_tls = ss, rn_workers = None, rn_generations = [new_generation cfg h sh], rn_sinks = sinks\<rparr>"
    using assms by (auto simp: new_runtime_def split: sum.splits prod.splits)
  from generation_new [OF build, of "sh_heap sh"] load_stores_match [OF ss] show ?thesis
    by (simp add: runtime_ok_def rt new_dynamic_def published_def new_generation_def)
qed

lemma list_all_update: "list_all P xs \<Longrightarrow> P x \<Longrightarrow> list_all P (xs[i := x])"
  by (induction xs arbitrary: i) (auto split: nat.splits)

lemma set_system_ok:
  assumes ok: "runtime_ok lb fixed rt" and g: "g < length (rn_generations rt)"
    and gen: "generation_ok lb (rn_observed rt) ((rn_generations rt ! g)\<lparr>ge_system := sy\<rparr>)"
    and retired: "sh_retired (sy_shared (ge_system (rn_generations rt ! g))) \<Longrightarrow> sh_retired (sy_shared sy)"
  shows "runtime_ok lb fixed ((set_system g sy rt)\<lparr>rn_sinks := s\<rparr>)"
proof -
  have "list_all (generation_ok lb (rn_observed rt)) ((rn_generations rt)[g := (rn_generations rt ! g)\<lparr>ge_system := sy\<rparr>])"
    using ok gen by (simp add: runtime_ok_def list_all_update)
  moreover have "ge_config (published (set_system g sy rt)) = ge_config (published rt)"
    using g by (cases "g = dy_current (rn_dynamic rt)") (simp_all add: published_def set_system_def)
  ultimately show ?thesis
    using ok retired g by (auto simp: runtime_ok_def set_system_def published_def nth_list_update)
qed

lemma set_system_ok': 
  assumes "runtime_ok lb fixed rt" "g < length (rn_generations rt)"
    and "sy = sys_step (ge_handler (rn_generations rt ! g)) (ge_system (rn_generations rt ! g)) a"
  shows "runtime_ok lb fixed ((set_system g sy rt)\<lparr>rn_sinks := s\<rparr>)"
proof (rule set_system_ok [OF assms(1,2)])
  have "generation_ok lb (rn_observed rt) (rn_generations rt ! g)"
    using assms(1,2) by (simp add: runtime_ok_def list_all_length)
  then show "generation_ok lb (rn_observed rt) ((rn_generations rt ! g)\<lparr>ge_system := sy\<rparr>)"
    unfolding assms(3) by (rule generation_step)
  show "sh_retired (sy_shared (ge_system (rn_generations rt ! g))) \<Longrightarrow> sh_retired (sy_shared sy)"
    unfolding assms(3) by (rule sys_step_retired)
qed

lemma reload_ok:
  assumes ok: "runtime_ok lb fixed rt" and "reload lb w rt = Some (out, rt')"
  shows "runtime_ok lb fixed rt'"
proof -
  have "stores_match (listeners (rn_current rt)) (rn_tls rt)" using ok unfolding runtime_ok_def by blast
  then show ?thesis
  proof (cases rule: reload_cases [where lb = lb and w = w, consumes 1])
    case (rejected e)
    with assms show ?thesis by simp
  next
    case (accepted nxt h sh cs ss)
    let ?d = "dy_current (rn_dynamic rt)"
    let ?new = "new_generation nxt h (sh\<lparr>sh_heap := inherited_heap rt h sh\<rparr>)"
    have rt': "rt' = publish_reload nxt h sh ss rt" using accepted(1) assms(2) by simp
    have d: "length (rn_generations rt) = Suc ?d" using ok by (simp add: runtime_ok_def)
    then have lt: "?d < length (rn_generations rt)" by simp
    have build: "build_handler lb w (rn_observed rt) nxt = Inr (h, sh)" and fz: "frozen (rn_current rt) = frozen nxt"
      using accepted(2) by (simp_all add: accepted_def)
    have new: "generation_ok lb (rn_observed rt) ?new"
      by (rule generation_new [OF build]) (simp add: inherited_heap_def inherit_frame)
    have all: "list_all (generation_ok lb (rn_observed rt)) (rn_generations rt)" using ok by (simp add: runtime_ok_def)
    with lt have "generation_ok lb (rn_observed rt) (retire (published rt))"
      unfolding retire_def by (intro generation_run) (simp add: list_all_length published_def)
    with all new have gens: "list_all (generation_ok lb (rn_observed rt)) ((rn_generations rt)[?d := retire (published rt)] @ [?new])"
      by (simp add: list_all_update)
    have retired: "sh_retired (sy_shared (ge_system (((rn_generations rt)[?d := retire (published rt)] @ [?new]) ! g)))"
      if "g < Suc ?d" for g
      using that ok d by (cases "g = ?d") (simp_all add: nth_append retire_retired runtime_ok_def)
    show ?thesis
      using ok fz gens retired accepted(4)
      by (simp add: runtime_ok_def rt' publish_reload_fields publish_reload_generations [OF lt] published_reload [OF lt] d)
         (simp add: new_generation_def)
  qed
qed

lemma runtime_step_ok: "runtime_ok lb fixed rt \<Longrightarrow> runtime_step lb rt e = Some rt' \<Longrightarrow> runtime_ok lb fixed rt'"
proof (cases e)
  case (Request ident r)
  assume ok: "runtime_ok lb fixed rt" and step: "runtime_step lb rt e = Some rt'"
  have "dy_current (rn_dynamic rt) < length (rn_generations rt)" using ok by (simp add: runtime_ok_def)
  from set_system_ok' [OF ok this refl, where a = "Arrive ident r" and s = "rn_sinks rt"] step show ?thesis
    by (simp add: Request Let_def set_system_def)
next
  case (Progress g k i)
  assume ok: "runtime_ok lb fixed rt" and step: "runtime_step lb rt e = Some rt'"
  then have g: "g < length (rn_generations rt)" by (simp add: Progress split: if_splits)
  from step g have rt': "rt' = (set_system g (sys_step (ge_handler (rn_generations rt ! g)) (ge_system (rn_generations rt ! g)) (Step k i)) rt)
      \<lparr>rn_sinks := rn_sinks rt'\<rparr>"
    by (auto simp: Progress Let_def simp del: sys_step.simps)
  show ?thesis by (subst rt') (rule set_system_ok' [OF ok g refl])
next
  case (ProbeDone g name b res)
  assume ok: "runtime_ok lb fixed rt" and step: "runtime_step lb rt e = Some rt'"
  then have g: "g < length (rn_generations rt)" by (simp add: ProbeDone split: if_splits)
  let ?ge = "rn_generations rt ! g"
  obtain hp calls where p: "probe_step (ge_config ?ge) (ge_handler ?ge) (sh_heap (sy_shared (ge_system ?ge)), []) ((name, b), res) = (hp, calls)"
    by fastforce
  from step g have rt': "rt' = (set_system g ((ge_system ?ge)\<lparr>sy_shared := (sy_shared (ge_system ?ge))\<lparr>sh_heap := hp\<rparr>\<rparr>) rt)
      \<lparr>rn_sinks := rn_sinks rt'\<rparr>"
    by (auto simp: ProbeDone Let_def p split: if_splits)
  show ?thesis by (subst rt') (rule set_system_ok' [OF ok g probe_is_step [OF p]])
next
  case StartHealth
  assume ok: "runtime_ok lb fixed rt" and step: "runtime_step lb rt e = Some rt'"
  then show ?thesis by (auto simp: StartHealth runtime_ok_def published_def)
next
  case (Reload w)
  assume "runtime_ok lb fixed rt" and "runtime_step lb rt e = Some rt'"
  then show ?thesis by (auto simp: Reload intro: reload_ok)
qed

interpretation runtime: automaton "runtime_step lb" "runtime_ok lb fixed" for lb fixed
  by unfold_locales (rule runtime_step_ok)

section \<open>Reloads and whole runs\<close>

definition requests_of :: "generation \<Rightarrow> (string \<times> thread) list" where
  "requests_of g = sy_threads (ge_system g)"

lemma requests_retire [simp]: "requests_of (retire g) = requests_of g"
  by (simp add: requests_of_def retire_def sys_run_def)

text \<open>
  C5. A reload is all or nothing, in every state the program can reach: it always returns; an
  error leaves the whole state as it was; and it succeeds exactly when the file loads, nothing
  that the bound sockets use has changed, the handler can be built and every certificate is
  valid. Then the new configuration and a new handler are published together, without requests
  and with the eligibility inherited from the old one, each TLS listener has the certificate of
  the new configuration, the workers are those of the new handler, and the requests of all
  earlier generations go on untouched.
\<close>

theorem reload_all_or_nothing:
  assumes "new_runtime lb w0 cfg pth observed sinks = Inr rt0" and "run_events (runtime_step lb) rt0 es = Some rt"
  shows "\<exists>out rt'. reload lb w rt = Some (out, rt') \<and>
    (out \<noteq> None \<longrightarrow> rt' = rt) \<and> (out = None \<longleftrightarrow> (\<exists>nxt h sh cs. accepted lb w rt nxt h sh cs)) \<and>
    (out = None \<longrightarrow> (\<exists>nxt h sh cs. accepted lb w rt nxt h sh cs \<and> rn_current rt' = nxt \<and>
       published rt' = new_generation nxt h (sh\<lparr>sh_heap := inherited_heap rt h sh\<rparr>) \<and>
       rn_workers rt' = Some (dy_current (rn_dynamic rt')) \<and> list_all2 holds cs (rn_tls rt') \<and>
       map requests_of (rn_generations rt') = map requests_of (rn_generations rt) @ [[]]))"
proof -
  have ok: "runtime_ok lb (observed, frozen cfg) rt" by (rule runtime.run_inv [OF assms(2) runtime_ok_new [OF assms(1)]])
  then have "stores_match (listeners (rn_current rt)) (rn_tls rt)" unfolding runtime_ok_def by blast
  then show ?thesis
  proof (cases rule: reload_cases [where lb = lb and w = w, consumes 1])
    case (rejected e)
    then show ?thesis by simp
  next
    case (accepted nxt h sh cs ss)
    have lt: "dy_current (rn_dynamic rt) < length (rn_generations rt)" using ok by (simp add: runtime_ok_def)
    have "map requests_of ((rn_generations rt)[dy_current (rn_dynamic rt) := retire (published rt)]) =
        map requests_of (rn_generations rt)"
      using lt by (simp add: map_update published_def list_update_same_conv)
    with accepted lt show ?thesis
      by (intro exI [of _ None] exI [of _ "publish_reload nxt h sh ss rt"])
         (auto simp: publish_reload_fields publish_reload_generations published_reload new_generation_def requests_of_def)
  qed
qed

section \<open>Reports of the past\<close>

text \<open>
  A reload cancels the probes of the old handler, and a cancelled probe counts as failed. When it is
  the last failure to the threshold, the old handler reports its backend as out of service
  after the new handler reported it in service: the gauge, which both share, then shows the state
  of a backend that no longer serves, and the published handler is as it was.
\<close>

lemma stale_probe_overrides_gauge:
  assumes "g < length (rn_generations rt)" "g \<noteq> dy_current (rn_dynamic rt)"
    and ge: "ge = rn_generations rt ! g" and x: "x = sh_heap (sy_shared (ge_system ge)) b"
    and "(name, b) \<in> set (watched (ge_handler ge))" "h_observed (ge_handler ge)"
    and "alive x" "\<not> alive (probed (policy_of (ge_config ge) name) ProbeError x)"
    and "(name, b_name x) \<in> allowed_backends (snd (rn_sinks rt))"
  shows "\<exists>rt'. runtime_step lb rt (ProbeDone g name b ProbeError) = Some rt' \<and> published rt' = published rt \<and>
    map_of (health_gauge (snd (rn_sinks rt'))) (name, b_name x) = Some 0"
proof -
  obtain lg m where sinks: "rn_sinks rt = (lg, m)" by (cases "rn_sinks rt")
  let ?m = "set_backend_health name (b_name x) False m"
  have "change_call (policy_of (ge_config ge) name) (Some name) ProbeError x = [(name, b_name x, False)]"
    using assms(7,8) by (simp add: change_call_def)
  moreover have "report_health [(name, b_name x, False)] (rn_sinks rt) = (lg, ?m)"
    by (simp add: report_health_def sinks fanout_health_def program_fanout_def metrics_gauges_def)
  moreover have "map_of (health_gauge ?m) (name, b_name x) = Some 0"
    using assms(9) by (simp add: set_backend_health_def sinks update_conv')
  moreover have "published (set_system g sy rt) = published rt" for sy
    using assms(2) by (simp add: published_def set_system_def)
  ultimately show ?thesis
    using assms(1,5,6) by (simp add: Let_def ge [symmetric] probe_step_def check_effect x [symmetric] published_def)
qed

text \<open>The demonstration configuration, a request on its way, and a reload of the same file.\<close>

definition demo_library :: library where
  "demo_library = \<lparr>lb_decode = (\<lambda>_ _. Some watched_config), lb_trailing = (\<lambda>_. NoMore), lb_parse = demo_parse,
     lb_clean = (\<lambda>q. q), lb_parse_time = (\<lambda>_. None), lb_parse_leaf = (\<lambda>_. None)\<rparr>"

definition demo_world :: world where
  "demo_world = \<lparr>w_files = (\<lambda>_. Some (''x'', False)), w_transport = (\<lambda>_ _. None), w_load_pair = (\<lambda>_ _. None), w_now = 0\<rparr>"

definition demo_runtime :: "runtime_error + runtime" where
  "demo_runtime = new_runtime demo_library demo_world watched_config ''proxy.yaml'' True ([], new_metrics)"

definition demo_reloads :: "runtime_event list" where
  "demo_reloads = [StartHealth, Request ''1'' (plain_request ''GET'' ''a.test'' ''/api''), Progress 0 0 (Go 0),
     Reload demo_world, Progress 0 0 (Go 0)]"

lemma demo_build: obtains h sh where "build_handler demo_library demo_world True watched_config = Inr (h, sh)"
proof (cases demo_watched)
  case (Inl e)
  from demo_watched_built show ?thesis unfolding Inl sum.case ..
next
  case (Inr r)
  have "build_handler demo_library demo_world True watched_config = demo_watched"
    by (simp add: build_handler_def demo_library_def demo_world_def demo_watched_def watched_config_def)
  with Inr show ?thesis using that by (cases r) simp
qed

lemma demo_listeners: "l \<in> set (listeners watched_config) \<Longrightarrow> l_tls l = None"
  by (simp add: watched_config_def demo_config_def default_config_def)

lemma demo_loads:
  "load_file (lb_decode demo_library) (lb_trailing demo_library) (lb_parse demo_library) (w_files demo_world) p = Inr watched_config"
  using demo_config_valid [folded watched_config_def]
  by (simp add: load_file_def load_result demo_library_def demo_world_def max_config_bytes_def validate_ok_iff)

lemma demo_accepted:
  assumes "rn_current rt = watched_config" "rn_observed rt"
  shows "\<exists>h sh cs. accepted demo_library demo_world rt watched_config h sh cs"
proof -
  obtain h sh where "build_handler demo_library demo_world True watched_config = Inr (h, sh)" by (rule demo_build)
  moreover have "list_all2 (certified demo_library demo_world) (listeners watched_config) (map (\<lambda>_. None) (listeners watched_config))"
    by (simp add: list_all2_conv_all_nth certified_def demo_listeners)
  ultimately show ?thesis using assms demo_loads unfolding accepted_def by auto
qed

lemma demo_started: obtains rt where "demo_runtime = Inr rt" "rn_current rt = watched_config" "rn_observed rt"
proof -
  obtain h sh where build: "build_handler demo_library demo_world True watched_config = Inr (h, sh)" by (rule demo_build)
  have "\<forall>l \<in> set ls. l_tls l = None \<Longrightarrow> \<exists>ss. load_stores demo_library demo_world i ls = Inr ss" for ls i
    by (induction ls arbitrary: i) auto
  with demo_listeners obtain ss where "load_stores demo_library demo_world 0 (listeners watched_config) = Inr ss" by blast
  with build that show ?thesis by (simp add: demo_runtime_def new_runtime_def)
qed

lemma demo_reload:
  assumes "runtime_ok demo_library fixed rt" "rn_current rt = watched_config" "rn_observed rt"
  shows "\<exists>rt'. reload demo_library demo_world rt = Some (None, rt') \<and> rn_current rt' = watched_config \<and> rn_observed rt'"
proof -
  have "stores_match (listeners (rn_current rt)) (rn_tls rt)" using assms(1) unfolding runtime_ok_def by blast
  then show ?thesis
  proof (cases rule: reload_cases [where lb = demo_library and w = demo_world, consumes 1])
    case (rejected e)
    with demo_accepted [OF assms(2,3)] show ?thesis by blast
  next
    case (accepted nxt h sh cs ss)
    from demo_accepted [OF assms(2,3)] accepted(2) have "Inr nxt = (Inr watched_config :: load_error + config)"
      unfolding accepted_def by (elim exE conjE) (simp only:)
    then have "nxt = watched_config" by (simp only: sum.inject)
    with accepted(1) assms(3) show ?thesis by (simp add: publish_reload_fields)
  qed
qed

lemma quiet_steps:
  "e \<in> {StartHealth, Request ident r} \<or> (\<exists>k i. e = Progress 0 k i \<and> rn_generations rt \<noteq> []) \<Longrightarrow>
     \<exists>rt'. runtime_step lb rt e = Some rt' \<and> rn_current rt' = rn_current rt \<and> rn_observed rt' = rn_observed rt"
  by (auto simp: Let_def simp del: sys_step.simps)

lemma demo_runs:
  obtains rt0 rt where "demo_runtime = Inr rt0" "run_events (runtime_step demo_library) rt0 demo_reloads = Some rt"
    "rn_current rt = watched_config" "rn_observed rt"
proof -
  obtain rt0 where start: "demo_runtime = Inr rt0" "rn_current rt0 = watched_config" "rn_observed rt0" by (rule demo_started)
  note ok = runtime_ok_new [OF start(1) [unfolded demo_runtime_def]]
  have moves: "\<exists>rt'. runtime_step demo_library rt e = Some rt' \<and> rn_current rt' = watched_config \<and> rn_observed rt' \<and>
      runtime_ok demo_library (True, frozen watched_config) rt'"
    if inv: "runtime_ok demo_library (True, frozen watched_config) rt" "rn_current rt = watched_config" "rn_observed rt"
      and e: "e \<in> set demo_reloads" for rt e
  proof -
    have len: "rn_generations rt \<noteq> []" using inv(1) by (auto simp: runtime_ok_def)
    have "\<exists>rt'. reload demo_library demo_world rt = Some (None, rt') \<and> rn_current rt' = watched_config \<and> rn_observed rt'"
      by (rule demo_reload [OF inv])
    then have "\<exists>rt'. runtime_step demo_library rt e = Some rt' \<and> rn_current rt' = watched_config \<and> rn_observed rt'"
    proof (cases "e = Reload demo_world")
      case False
      then have "e \<in> {StartHealth, Request ''1'' (plain_request ''GET'' ''a.test'' ''/api'')} \<or> (\<exists>k i. e = Progress 0 k i \<and> rn_generations rt \<noteq> [])"
        using e len unfolding demo_reloads_def set_simps by blast
      from quiet_steps [OF this, of demo_library] inv(2,3) show ?thesis by auto
    qed auto
    then show ?thesis using runtime_step_ok [OF inv(1)] by blast
  qed
  have "\<exists>rt'. run_events (runtime_step demo_library) rt es = Some rt' \<and> rn_current rt' = watched_config \<and> rn_observed rt'"
    if "runtime_ok demo_library (True, frozen watched_config) rt" "rn_current rt = watched_config" "rn_observed rt"
      "set es \<subseteq> set demo_reloads" for rt es
    using that
  proof (induction es arbitrary: rt)
    case (Cons e es)
    from moves [OF Cons.prems(1-3), of e] Cons.prems(4) Cons.IH show ?case by fastforce
  qed simp
  from this [OF ok start(2,3) subset_refl] start(1) that show ?thesis by blast
qed

theorem reload_all_or_nothing_witness:
  "case demo_runtime of Inl e \<Rightarrow> False | Inr rt0 \<Rightarrow>
     (case run_events (runtime_step demo_library) rt0 demo_reloads of None \<Rightarrow> False
      | Some rt \<Rightarrow> \<exists>rt'. reload demo_library demo_world rt = Some (None, rt') \<and>
          map requests_of (rn_generations rt') = map requests_of (rn_generations rt) @ [[]])"
proof -
  obtain rt0 rt where run: "demo_runtime = Inr rt0" "run_events (runtime_step demo_library) rt0 demo_reloads = Some rt"
    "rn_current rt = watched_config" "rn_observed rt" by (rule demo_runs)
  from reload_all_or_nothing [OF run(1) [unfolded demo_runtime_def] run(2), of demo_world] demo_accepted [OF run(3,4)]
  show ?thesis unfolding run(1,2) sum.case option.case by blast
qed

end
