(* ===== verification/Reloading.thy ===== *)
theory Reloading
  imports Runtime
begin

text \<open>
  The reload of the runtime (package \<open>app\<close>) one operation at a time. The mutex keeps two reloads
  apart but stops neither requests nor probes, so they run between any two operations: a handshake
  may see the certificates half replaced, a request may load the new handler before the
  configuration is stored, an old handler goes on after it is retired. Undisturbed, the steps are
  the reload of the theory \<open>Runtime\<close>.
\<close>

section \<open>The steps\<close>

text \<open>What comes next; \<open>Publishing i\<close> is the loop over the certificates. A number is the old handler's.\<close>

datatype reload_pc =
    Idle
  | Publishing nat staged
  | Inheriting staged
  | Reconciling staged
  | Swapping staged
  | StoringConfig nat config
  | RestartingHealth nat
  | RetiringStore nat
  | RetiringLoad nat

definition act_on :: "nat \<Rightarrow> action \<Rightarrow> runtime \<Rightarrow> runtime" where
  "act_on g a rt =
     set_system g (sys_step (ge_handler (rn_generations rt ! g)) (ge_system (rn_generations rt ! g)) a) rt"

text \<open>\<^const>\<open>None\<close> is a panic, except in \<open>Idle\<close>.\<close>

fun reload_advance :: "runtime \<Rightarrow> reload_pc \<Rightarrow> (runtime \<times> reload_pc) option" where
  "reload_advance rt Idle = None"
| "reload_advance rt (Publishing i sg) =
     (if i < length (sg_certificates sg)
      then (case sg_certificates sg ! i of
              None \<Rightarrow> Some (rt, Publishing (Suc i) sg)
            | Some c \<Rightarrow>
                if i < length (rn_tls rt)
                then (case rn_tls rt ! i of
                        None \<Rightarrow> None
                      | Some s \<Rightarrow> Some (rt\<lparr>rn_tls := (rn_tls rt)[i := Some (publish c s)]\<rparr>, Publishing (Suc i) sg))
                else None)
      else Some (rt, Inheriting sg))"
| "reload_advance rt (Inheriting sg) =
     Some (rt, Reconciling (sg\<lparr>sg_shared := (sg_shared sg)\<lparr>sh_heap := inherited_heap rt (sg_handler sg) (sg_shared sg)\<rparr>\<rparr>))"
| "reload_advance rt (Reconciling sg) = Some (reconcile_observer (sg_config sg) rt, Swapping sg)"
| "reload_advance rt (Swapping sg) =
     Some (rt\<lparr>rn_generations := rn_generations rt @ [new_generation (sg_config sg) (sg_handler sg) (sg_shared sg)],
              rn_dynamic := swap (length (rn_generations rt)) (rn_dynamic rt)\<rparr>,
           StoringConfig (dy_current (rn_dynamic rt)) (sg_config sg))"
| "reload_advance rt (StoringConfig prev cfg) = Some (rt\<lparr>rn_current := cfg\<rparr>, RestartingHealth prev)"
| "reload_advance rt (RestartingHealth prev) = Some (start_health_locked rt, RetiringStore prev)"
| "reload_advance rt (RetiringStore prev) = Some (act_on prev RetireStore rt, RetiringLoad prev)"
| "reload_advance rt (RetiringLoad prev) = Some (act_on prev RetireLoad rt, Idle)"

datatype reload_event = Begin world | Advance | Meanwhile runtime_event

text \<open>A rejected reload changes nothing and is over at once.\<close>

fun reload_step :: "library \<Rightarrow> runtime \<times> reload_pc \<Rightarrow> reload_event \<Rightarrow> (runtime \<times> reload_pc) option" where
  "reload_step lb (rt, pc) (Begin w) =
     (if pc = Idle
      then (case stage_reload lb w rt of Inl e \<Rightarrow> Some (rt, Idle) | Inr sg \<Rightarrow> Some (rt, Publishing 0 sg))
      else None)"
| "reload_step lb (rt, pc) Advance = reload_advance rt pc"
| "reload_step lb (rt, pc) (Meanwhile e) =
     (case e of
        Reload _ \<Rightarrow> None
      | StartHealth \<Rightarrow> None
      | _ \<Rightarrow> map_option (\<lambda>rt'. (rt', pc)) (runtime_step lb rt e))"

section \<open>Undisturbed, it is the reload\<close>

lemma publishing_run:
  assumes "publish_staged cs ss = Some ss'" "length cs = length ss" "length pre = i" "length front = i"
  shows "run_events (reload_step lb) (rt\<lparr>rn_tls := pre @ ss\<rparr>, Publishing i (sg\<lparr>sg_certificates := front @ cs\<rparr>))
      (replicate (Suc (length cs)) Advance) =
    Some (rt\<lparr>rn_tls := pre @ ss'\<rparr>, Inheriting (sg\<lparr>sg_certificates := front @ cs\<rparr>))"
  using assms
proof (induction cs arbitrary: ss ss' pre front i)
  case (Cons c cs)
  then obtain s rest where ss: "ss = s # rest" by (cases ss) auto
  obtain t rest' where rest: "publish_staged cs rest = Some rest'" "ss' = t # rest'"
    and t: "case c of None \<Rightarrow> t = s | Some x \<Rightarrow> \<exists>st. s = Some st \<and> t = Some (publish x st)"
    using Cons.prems(1) by (cases c; cases s) (auto simp: ss)
  have "reload_step lb (rt\<lparr>rn_tls := pre @ ss\<rparr>, Publishing i (sg\<lparr>sg_certificates := front @ c # cs\<rparr>)) Advance =
      Some (rt\<lparr>rn_tls := (pre @ [t]) @ rest\<rparr>, Publishing (Suc i) (sg\<lparr>sg_certificates := (front @ [c]) @ cs\<rparr>))"
    using t Cons.prems(3,4) by (cases c) (auto simp: ss nth_append list_update_append)
  moreover note Cons.IH [OF rest(1), of "pre @ [t]" "Suc i" "front @ [c]"]
  ultimately show ?case using Cons.prems by (simp add: ss rest(2))
qed simp

lemma reload_undisturbed:
  assumes ok: "runtime_ok lb fixed rt" and reload: "reload lb w rt = Some (out, rt')"
  shows "\<exists>n. run_events (reload_step lb) (rt, Idle) (Begin w # replicate n Advance) = Some (rt', Idle)"
proof (cases "stage_reload lb w rt")
  case (Inl e)
  with reload have "rt' = rt" by (simp add: reload_def)
  then have "run_events (reload_step lb) (rt, Idle) (Begin w # replicate 0 Advance) = Some (rt', Idle)" by (simp add: Inl)
  then show ?thesis ..
next
  case (Inr sg)
  then obtain ss where ss: "publish_staged (sg_certificates sg) (rn_tls rt) = Some ss"
    and rt': "rt' = publish_reload (sg_config sg) (sg_handler sg) (sg_shared sg) ss rt"
    using reload by (auto simp: reload_def split: option.splits)
  have acc: "accepted lb w rt (sg_config sg) (sg_handler sg) (sg_shared sg) (sg_certificates sg)"
    using Inr by (simp add: stage_reload_ok)
  have len: "length (rn_generations rt) = Suc (dy_current (rn_dynamic rt))"
    and match: "stores_match (listeners (rn_current rt)) (rn_tls rt)"
    using ok unfolding runtime_ok_def by blast+
  have "length (sg_certificates sg) = length (listeners (sg_config sg))" using acc by (auto simp: accepted_def dest: list_all2_lengthD)
  also have "\<dots> = length (listeners (rn_current rt))"
    using acc frozen_modes [of "rn_current rt" "sg_config sg"] map_eq_imp_length_eq by (fastforce simp: accepted_def)
  also have "\<dots> = length (rn_tls rt)" using match by (auto simp: stores_match_def dest: list_all2_lengthD)
  finally have published: "run_events (reload_step lb) (rt, Publishing 0 sg) (replicate (Suc (length (sg_certificates sg))) Advance) =
      Some (rt\<lparr>rn_tls := ss\<rparr>, Inheriting sg)"
    using publishing_run [OF ss, of "[]" 0 "[]" lb rt sg] by simp
  have rest: "run_events (reload_step lb) (rt\<lparr>rn_tls := ss\<rparr>, Inheriting sg) (replicate 7 Advance) = Some (rt', Idle)"
    using len
    by (simp add: rt' publish_reload_def Let_def eval_nat_numeral act_on_def set_system_def retire_def sys_run_def
        inherited_heap_def published_def list_update_append nth_append swap_def del: sys_step.simps)
  have "run_events (reload_step lb) (rt, Idle) (Begin w # replicate (Suc (length (sg_certificates sg)) + 7) Advance) = Some (rt', Idle)"
    unfolding replicate_add using published rest by (simp add: run_events_append Inr del: replicate.simps)
  then show ?thesis ..
qed

section \<open>What requests and probes leave alone\<close>

definition quiet :: "library \<Rightarrow> runtime \<Rightarrow> runtime \<Rightarrow> bool" where
  "quiet lb rt rt' \<longleftrightarrow>
     rn_current rt' = rn_current rt \<and> rn_tls rt' = rn_tls rt \<and> rn_dynamic rt' = rn_dynamic rt \<and>
     rn_observed rt' = rn_observed rt \<and> length (rn_generations rt') = length (rn_generations rt) \<and>
     (\<forall>g < length (rn_generations rt).
        ge_config (rn_generations rt' ! g) = ge_config (rn_generations rt ! g) \<and>
        (sh_retired (sy_shared (ge_system (rn_generations rt' ! g))) \<longleftrightarrow>
           sh_retired (sy_shared (ge_system (rn_generations rt ! g)))) \<and>
        (generation_ok lb (rn_observed rt) (rn_generations rt ! g) \<longrightarrow>
           generation_ok lb (rn_observed rt) (rn_generations rt' ! g)))"

lemma busy_step_retired:
  "a \<notin> {RetireStore, RetireLoad} \<Longrightarrow> sh_retired (sy_shared (sys_step h sy a)) \<longleftrightarrow> sh_retired (sy_shared sy)"
  by (cases a) (auto simp: step_retired split: prod.splits)

lemma quiet_set_system:
  assumes "g < length (rn_generations rt)" "a \<notin> {RetireStore, RetireLoad}"
    and "sy = sys_step (ge_handler (rn_generations rt ! g)) (ge_system (rn_generations rt ! g)) a"
  shows "quiet lb rt ((set_system g sy rt)\<lparr>rn_sinks := s\<rparr>)"
  using assms(1) busy_step_retired [OF assms(2)] generation_step
  by (auto simp: quiet_def set_system_def nth_list_update assms(3))

lemma quiet_step:
  assumes g: "dy_current (rn_dynamic rt) < length (rn_generations rt)" and step: "runtime_step lb rt e = Some rt'"
    and e: "e \<noteq> StartHealth" "\<nexists>w. e = Reload w"
  shows "quiet lb rt rt'"
proof (cases e)
  case (Request ident r)
  have "rt' = (set_system (dy_current (rn_dynamic rt)) (sys_step (ge_handler (rn_generations rt ! dy_current (rn_dynamic rt)))
      (ge_system (rn_generations rt ! dy_current (rn_dynamic rt))) (Arrive ident r)) rt)\<lparr>rn_sinks := rn_sinks rt\<rparr>"
    using step by (auto simp: Request Let_def set_system_def)
  then show ?thesis using quiet_set_system [OF g, of "Arrive ident r"] by simp
next
  case (Progress k j i)
  let ?sy = "sys_step (ge_handler (rn_generations rt ! k)) (ge_system (rn_generations rt ! k)) (Step j i)"
  from step have k: "k < length (rn_generations rt)" by (simp add: Progress split: if_splits)
  from step k have rt': "rt' = (set_system k ?sy rt)\<lparr>rn_sinks := rn_sinks rt'\<rparr>"
    by (auto simp: Progress Let_def simp del: sys_step.simps)
  show ?thesis by (subst rt', rule quiet_set_system [OF k _ refl]) simp
next
  case (ProbeDone k name b res)
  from step have k: "k < length (rn_generations rt)" by (simp add: ProbeDone split: if_splits)
  let ?ge = "rn_generations rt ! k"
  obtain hp calls where p: "probe_step (ge_config ?ge) (ge_handler ?ge) (sh_heap (sy_shared (ge_system ?ge)), []) ((name, b), res) = (hp, calls)"
    by fastforce
  from step k have rt': "rt' = (set_system k ((ge_system ?ge)\<lparr>sy_shared := (sy_shared (ge_system ?ge))\<lparr>sh_heap := hp\<rparr>\<rparr>) rt)
      \<lparr>rn_sinks := rn_sinks rt'\<rparr>"
    by (auto simp: ProbeDone Let_def p split: if_splits)
  show ?thesis by (subst rt', rule quiet_set_system [OF k _ probe_is_step [OF p]]) simp
qed (use e in auto)

section \<open>The invariant between any two operations\<close>

definition base_ok :: "library \<Rightarrow> bool \<times> frozen_part \<Rightarrow> runtime \<Rightarrow> bool" where
  "base_ok lb fixed rt \<longleftrightarrow>
     rn_observed rt = fst fixed \<and> frozen (rn_current rt) = snd fixed \<and> frozen (ge_config (published rt)) = snd fixed \<and>
     length (rn_generations rt) = Suc (dy_current (rn_dynamic rt)) \<and>
     stores_match (listeners (rn_current rt)) (rn_tls rt) \<and>
     list_all (generation_ok lb (fst fixed)) (rn_generations rt) \<and>
     \<not> sh_retired (sy_shared (ge_system (published rt)))"

definition retired_below :: "nat \<Rightarrow> runtime \<Rightarrow> bool" where
  "retired_below n rt \<longleftrightarrow> (\<forall>g < n. sh_retired (sy_shared (ge_system (rn_generations rt ! g))))"

definition settled :: "runtime \<Rightarrow> bool" where
  "settled rt \<longleftrightarrow> rn_current rt = ge_config (published rt) \<and> retired_below (dy_current (rn_dynamic rt)) rt"

definition staged_ok :: "library \<Rightarrow> bool \<times> frozen_part \<Rightarrow> staged \<Rightarrow> bool" where
  "staged_ok lb fixed sg \<longleftrightarrow> frozen (sg_config sg) = snd fixed \<and>
     (\<exists>w sh. build_handler lb w (fst fixed) (sg_config sg) = Inr (sg_handler sg, sh) \<and>
        sg_shared sg = sh\<lparr>sh_heap := sh_heap (sg_shared sg)\<rparr> \<and>
        (\<forall>b. active (sh_heap (sg_shared sg) b) = active (sh_heap sh b) \<and> b_url (sh_heap (sg_shared sg) b) = b_url (sh_heap sh b)))"

definition certificates_ok :: "staged \<Rightarrow> runtime \<Rightarrow> bool" where
  "certificates_ok sg rt \<longleftrightarrow> map (\<lambda>c. c = None) (sg_certificates sg) = map (\<lambda>s. s = None) (rn_tls rt)"

primrec pc_ok :: "library \<Rightarrow> bool \<times> frozen_part \<Rightarrow> runtime \<Rightarrow> reload_pc \<Rightarrow> bool" where
  "pc_ok lb fixed rt Idle \<longleftrightarrow> settled rt"
| "pc_ok lb fixed rt (Publishing i sg) \<longleftrightarrow> settled rt \<and> staged_ok lb fixed sg \<and> certificates_ok sg rt"
| "pc_ok lb fixed rt (Inheriting sg) \<longleftrightarrow> settled rt \<and> staged_ok lb fixed sg"
| "pc_ok lb fixed rt (Reconciling sg) \<longleftrightarrow> settled rt \<and> staged_ok lb fixed sg"
| "pc_ok lb fixed rt (Swapping sg) \<longleftrightarrow> settled rt \<and> staged_ok lb fixed sg"
| "pc_ok lb fixed rt (StoringConfig prev cfg) \<longleftrightarrow>
     cfg = ge_config (published rt) \<and> Suc prev = dy_current (rn_dynamic rt) \<and> retired_below prev rt"
| "pc_ok lb fixed rt (RestartingHealth prev) \<longleftrightarrow>
     rn_current rt = ge_config (published rt) \<and> Suc prev = dy_current (rn_dynamic rt) \<and> retired_below prev rt"
| "pc_ok lb fixed rt (RetiringStore prev) \<longleftrightarrow>
     rn_current rt = ge_config (published rt) \<and> Suc prev = dy_current (rn_dynamic rt) \<and> retired_below prev rt"
| "pc_ok lb fixed rt (RetiringLoad prev) \<longleftrightarrow> settled rt \<and> Suc prev = dy_current (rn_dynamic rt)"

definition reloading_ok :: "library \<Rightarrow> bool \<times> frozen_part \<Rightarrow> runtime \<times> reload_pc \<Rightarrow> bool" where
  "reloading_ok lb fixed s \<longleftrightarrow> base_ok lb fixed (fst s) \<and> pc_ok lb fixed (fst s) (snd s)"

lemma quiet_base:
  assumes q: "quiet lb rt rt'" and ok: "base_ok lb fixed rt"
  shows "base_ok lb fixed rt'"
proof -
  have d: "dy_current (rn_dynamic rt) < length (rn_generations rt)" using ok by (simp add: base_ok_def)
  have "list_all (generation_ok lb (fst fixed)) (rn_generations rt')"
    using q ok by (simp add: quiet_def base_ok_def list_all_length)
  with q ok d show ?thesis by (simp add: quiet_def base_ok_def published_def)
qed

lemma quiet_pc:
  assumes q: "quiet lb rt rt'" and ok: "base_ok lb fixed rt" and pc: "pc_ok lb fixed rt pc"
  shows "pc_ok lb fixed rt' pc"
proof -
  have d: "length (rn_generations rt) = Suc (dy_current (rn_dynamic rt))" using ok by (simp add: base_ok_def)
  have below: "retired_below n rt' \<longleftrightarrow> retired_below n rt" if "n \<le> Suc (dy_current (rn_dynamic rt))" for n
    using q d that by (auto simp: retired_below_def quiet_def)
  have same: "rn_current rt' = rn_current rt" "rn_dynamic rt' = rn_dynamic rt" "rn_tls rt' = rn_tls rt"
    "ge_config (published rt') = ge_config (published rt)"
    using q d by (simp_all add: quiet_def published_def)
  show ?thesis
    using pc by (cases pc) (simp_all add: same below settled_def certificates_ok_def)
qed

section \<open>Every operation of a reload keeps it\<close>

lemma handler_fresh: "build_handler lb w observed cfg = Inr (h, sh) \<Longrightarrow> \<not> sh_retired sh"
  by (auto simp: build_handler_def new_handler_def split: if_splits sum.splits prod.splits)

lemma staged_generation:
  assumes "staged_ok lb fixed sg"
  shows "generation_ok lb (fst fixed) (new_generation (sg_config sg) (sg_handler sg) (sg_shared sg))"
    and "\<not> sh_retired (sg_shared sg)" and "frozen (sg_config sg) = snd fixed"
proof -
  obtain w sh where build: "build_handler lb w (fst fixed) (sg_config sg) = Inr (sg_handler sg, sh)"
    and sh: "sg_shared sg = sh\<lparr>sh_heap := sh_heap (sg_shared sg)\<rparr>"
    and same: "\<forall>b. active (sh_heap (sg_shared sg) b) = active (sh_heap sh b) \<and> b_url (sh_heap (sg_shared sg) b) = b_url (sh_heap sh b)"
    and fz: "frozen (sg_config sg) = snd fixed"
    using assms unfolding staged_ok_def by blast
  show "generation_ok lb (fst fixed) (new_generation (sg_config sg) (sg_handler sg) (sg_shared sg))"
    by (subst sh, rule generation_new [OF build]) (use same in blast)
  have "\<not> sh_retired (sh\<lparr>sh_heap := sh_heap (sg_shared sg)\<rparr>)" using handler_fresh [OF build] by simp
  then show "\<not> sh_retired (sg_shared sg)" using sh by metis
  show "frozen (sg_config sg) = snd fixed" by (rule fz)
qed

lemma staged_inherit:
  assumes "staged_ok lb fixed sg"
  shows "staged_ok lb fixed (sg\<lparr>sg_shared := (sg_shared sg)\<lparr>sh_heap := inherited_heap rt h (sg_shared sg)\<rparr>\<rparr>)"
proof -
  obtain w sh where "build_handler lb w (fst fixed) (sg_config sg) = Inr (sg_handler sg, sh)"
    and sh: "sg_shared sg = sh\<lparr>sh_heap := sh_heap (sg_shared sg)\<rparr>"
    and "\<forall>b. active (sh_heap (sg_shared sg) b) = active (sh_heap sh b) \<and> b_url (sh_heap (sg_shared sg) b) = b_url (sh_heap sh b)"
    and "frozen (sg_config sg) = snd fixed"
    using assms unfolding staged_ok_def by blast
  moreover have "(sg_shared sg)\<lparr>sh_heap := hp\<rparr> = sh\<lparr>sh_heap := hp\<rparr>" for hp
    by (subst sh) simp
  ultimately show ?thesis
    unfolding staged_ok_def by (intro conjI exI [of _ w] exI [of _ sh]) (simp_all add: inherited_heap_def inherit_frame)
qed

lemma stores_match_publish:
  assumes "stores_match ls ss" "ss ! i = Some s"
  shows "stores_match ls (ss[i := Some (publish c s)])"
  using assms by (cases "i < length ss") (auto simp: stores_match_def list_all2_conv_all_nth nth_list_update publish_def split: option.splits)

lemma stores_match_frozen:
  assumes "frozen a = frozen b" "stores_match (listeners a) ss"
  shows "stores_match (listeners b) ss"
proof -
  have "map (\<lambda>l. l_tls l = None) (listeners a) = map (\<lambda>l. l_tls l = None) (listeners b)" by (rule frozen_modes [OF assms(1)])
  then have "length (listeners a) = length (listeners b)"
    and "\<And>i. i < length (listeners a) \<Longrightarrow> (l_tls (listeners a ! i) = None) = (l_tls (listeners b ! i) = None)"
    by (auto dest: map_eq_imp_length_eq simp: list_eq_iff_nth_eq)
  with assms(2) show ?thesis by (auto simp: stores_match_def list_all2_conv_all_nth split: option.splits)
qed

lemma act_on_frame:
  "rn_current (act_on g a rt) = rn_current rt" "rn_tls (act_on g a rt) = rn_tls rt" "rn_dynamic (act_on g a rt) = rn_dynamic rt"
  "rn_observed (act_on g a rt) = rn_observed rt" "length (rn_generations (act_on g a rt)) = length (rn_generations rt)"
  by (simp_all add: act_on_def)

lemma act_on_generations:
  "k < length (rn_generations rt) \<Longrightarrow> rn_generations (act_on g a rt) ! k =
     (if k = g then (rn_generations rt ! g)\<lparr>ge_system := sys_step (ge_handler (rn_generations rt ! g)) (ge_system (rn_generations rt ! g)) a\<rparr>
      else rn_generations rt ! k)"
  by (auto simp: act_on_def set_system_def nth_list_update)

lemma act_on_base:
  assumes ok: "base_ok lb fixed rt" and "g < dy_current (rn_dynamic rt)"
  shows "base_ok lb fixed (act_on g a rt)" and "published (act_on g a rt) = published rt"
proof -
  have d: "length (rn_generations rt) = Suc (dy_current (rn_dynamic rt))" using ok by (simp add: base_ok_def)
  show same: "published (act_on g a rt) = published rt"
    using assms(2) d by (simp add: published_def act_on_generations act_on_frame)
  have "list_all (generation_ok lb (fst fixed)) (rn_generations (act_on g a rt))"
    using ok by (auto simp: base_ok_def list_all_length act_on_frame act_on_generations intro!: generation_step)
  with ok show "base_ok lb fixed (act_on g a rt)" by (simp add: base_ok_def act_on_frame same)
qed

lemma dy_swap [simp]: "dy_current (swap n d) = n"
  by (simp add: swap_def)

lemma swapped:
  assumes ok: "base_ok lb fixed rt" and st: "settled rt" and sg: "staged_ok lb fixed sg"
  shows "reloading_ok lb fixed (the (reload_advance rt (Swapping sg)))"
proof -
  let ?d = "dy_current (rn_dynamic rt)" and ?g = "new_generation (sg_config sg) (sg_handler sg) (sg_shared sg)"
  have d: "length (rn_generations rt) = Suc ?d" using ok by (simp add: base_ok_def)
  define rt2 where "rt2 = rt\<lparr>rn_generations := rn_generations rt @ [?g], rn_dynamic := swap (length (rn_generations rt)) (rn_dynamic rt)\<rparr>"
  have fields: "rn_generations rt2 = rn_generations rt @ [?g]" "dy_current (rn_dynamic rt2) = Suc ?d"
    "rn_current rt2 = rn_current rt" "rn_tls rt2 = rn_tls rt" "rn_observed rt2 = rn_observed rt"
    by (simp_all add: rt2_def d)
  have pub: "published rt2 = ?g" by (simp add: published_def fields d nth_append)
  note fresh = staged_generation [OF sg]
  have g: "ge_config ?g = sg_config sg" "sh_retired (sy_shared (ge_system ?g)) = sh_retired (sg_shared sg)"
    by (simp_all add: new_generation_def)
  have "base_ok lb fixed rt2"
    using ok fresh by (simp add: base_ok_def pub g fields)
  moreover have "retired_below ?d rt2" using st d by (simp add: settled_def retired_below_def nth_append fields)
  ultimately show ?thesis by (simp add: reloading_ok_def pub g fields rt2_def [symmetric])
qed

lemma advance_ok:
  assumes ok: "base_ok lb fixed rt" and pc: "pc_ok lb fixed rt pc" and step: "reload_advance rt pc = Some s'"
  shows "reloading_ok lb fixed s'"
proof (cases pc)
  case (Publishing i sg)
  with step consider "s' = (rt, Publishing (Suc i) sg)" | "s' = (rt, Inheriting sg)"
    | c s where "i < length (rn_tls rt)" "rn_tls rt ! i = Some s"
        "s' = (rt\<lparr>rn_tls := (rn_tls rt)[i := Some (publish c s)]\<rparr>, Publishing (Suc i) sg)"
    by (auto split: if_splits option.splits)
  then show ?thesis
  proof cases
    case 3
    let ?rt = "rt\<lparr>rn_tls := (rn_tls rt)[i := Some (publish c s)]\<rparr>"
    have pub: "published ?rt = published rt" by (simp add: published_def)
    have "stores_match (listeners (rn_current rt)) (rn_tls ?rt)"
      using ok stores_match_publish [of _ _ i] 3(2) by (simp add: base_ok_def)
    then have "base_ok lb fixed ?rt" using ok by (simp add: base_ok_def pub)
    moreover have "map (\<lambda>s. s = None) (rn_tls ?rt) = map (\<lambda>s. s = None) (rn_tls rt)"
      using 3(1,2) by (auto simp: list_eq_iff_nth_eq nth_list_update)
    then have "pc_ok lb fixed ?rt (Publishing (Suc i) sg)"
      using pc by (simp add: Publishing settled_def pub retired_below_def certificates_ok_def)
    ultimately show ?thesis by (simp add: reloading_ok_def 3(3))
  qed (use ok pc in \<open>simp_all add: reloading_ok_def Publishing\<close>)
next
  case (Inheriting sg)
  with step pc have s': "s' = (rt, Reconciling (sg\<lparr>sg_shared := (sg_shared sg)\<lparr>sh_heap := inherited_heap rt (sg_handler sg) (sg_shared sg)\<rparr>\<rparr>))"
    and "settled rt" "staged_ok lb fixed sg" by auto
  with ok staged_inherit show ?thesis unfolding reloading_ok_def s' fst_conv snd_conv pc_ok.simps by blast
next
  case (Reconciling sg)
  have pub: "published (reconcile_observer (sg_config sg) rt) = published rt" by (simp add: published_def)
  have s': "s' = (reconcile_observer (sg_config sg) rt, Swapping sg)" using step by (simp add: Reconciling)
  show ?thesis
    using ok pc unfolding reloading_ok_def s' fst_conv snd_conv
    by (simp add: base_ok_def Reconciling settled_def retired_below_def pub)
next
  case (Swapping sg)
  with swapped [OF ok, of sg] pc step show ?thesis by auto
next
  case (StoringConfig prev cfg)
  let ?rt = "rt\<lparr>rn_current := cfg\<rparr>"
  have pub: "published (rt\<lparr>rn_current := c\<rparr>) = published rt" for c by (simp add: published_def)
  have "frozen (rn_current rt) = frozen cfg" using ok pc by (auto simp: base_ok_def StoringConfig)
  with ok stores_match_frozen [OF this] have "base_ok lb fixed ?rt" by (simp add: base_ok_def pub)
  moreover have s': "s' = (?rt, RestartingHealth prev)" using step by (simp add: StoringConfig)
  ultimately show ?thesis
    using pc unfolding reloading_ok_def s' fst_conv snd_conv by (simp add: StoringConfig pub retired_below_def)
next
  case (RestartingHealth prev)
  have pub: "published (start_health_locked rt) = published rt" by (simp add: published_def)
  have s': "s' = (start_health_locked rt, RetiringStore prev)" using step by (simp add: RestartingHealth)
  show ?thesis
    using ok pc unfolding reloading_ok_def s' fst_conv snd_conv
    by (simp add: base_ok_def RestartingHealth retired_below_def pub)
next
  case (RetiringStore prev)
  have prev: "prev < dy_current (rn_dynamic rt)" using pc by (simp add: RetiringStore)
  have "sh_retired (sy_shared (ge_system (rn_generations (act_on prev RetireStore rt) ! g)))"
    if "g < Suc prev" for g
    using that pc ok prev
    by (cases "g = prev") (auto simp: act_on_generations base_ok_def RetiringStore retire_store_def retired_below_def)
  moreover have s': "s' = (act_on prev RetireStore rt, RetiringLoad prev)" using step by (simp add: RetiringStore)
  ultimately show ?thesis
    using act_on_base [OF ok prev] pc unfolding reloading_ok_def s' fst_conv snd_conv
    by (simp add: RetiringStore settled_def retired_below_def act_on_frame del: sys_step.simps)
next
  case (RetiringLoad prev)
  have prev: "prev < dy_current (rn_dynamic rt)" using pc by (simp add: RetiringLoad)
  have "sh_retired (sy_shared (ge_system (rn_generations (act_on prev RetireLoad rt) ! g)))"
    if "g < dy_current (rn_dynamic rt)" for g
    using that pc ok
    by (auto simp: act_on_generations base_ok_def RetiringLoad settled_def retired_below_def sys_step_retired simp del: sys_step.simps)
  moreover have s': "s' = (act_on prev RetireLoad rt, Idle)" using step by (simp add: RetiringLoad)
  ultimately show ?thesis
    using act_on_base [OF ok prev] pc unfolding reloading_ok_def s' fst_conv snd_conv
    by (simp add: RetiringLoad settled_def retired_below_def act_on_frame del: sys_step.simps)
qed (use step in simp)

lemma reloading_step_ok: "reloading_ok lb fixed s \<Longrightarrow> reload_step lb s e = Some s' \<Longrightarrow> reloading_ok lb fixed s'"
proof -
  assume inv: "reloading_ok lb fixed s" and step: "reload_step lb s e = Some s'"
  obtain rt pc where s: "s = (rt, pc)" by (cases s)
  have ok: "base_ok lb fixed rt" and pc: "pc_ok lb fixed rt pc" using inv by (simp_all add: reloading_ok_def s)
  show ?thesis
  proof (cases e)
    case Advance
    with step show ?thesis using advance_ok [OF ok pc] by (simp add: s)
  next
    case (Meanwhile x)
    then obtain rt' where x: "runtime_step lb rt x = Some rt'" "x \<noteq> StartHealth" "\<nexists>w. x = Reload w" and s': "s' = (rt', pc)"
      using step by (auto simp: s split: runtime_event.splits)
    have "dy_current (rn_dynamic rt) < length (rn_generations rt)" using ok by (simp add: base_ok_def)
    note q = quiet_step [OF this x]
    show ?thesis using quiet_base [OF q ok] quiet_pc [OF q ok pc] by (simp add: reloading_ok_def s')
  next
    case (Begin w)
    with step have idle: "pc = Idle" by (auto simp: s split: if_splits)
    show ?thesis
    proof (cases "stage_reload lb w rt")
      case (Inl x)
      with step inv idle show ?thesis by (auto simp: s Begin)
    next
      case (Inr sg)
      have acc: "accepted lb w rt (sg_config sg) (sg_handler sg) (sg_shared sg) (sg_certificates sg)"
        using Inr by (simp add: stage_reload_ok)
      have obs: "rn_observed rt = fst fixed" "frozen (rn_current rt) = snd fixed" using ok by (auto simp: base_ok_def)
      have "build_handler lb w (fst fixed) (sg_config sg) = Inr (sg_handler sg, sg_shared sg)" "frozen (sg_config sg) = snd fixed"
        using acc obs by (simp_all add: accepted_def)
      then have "staged_ok lb fixed sg"
        unfolding staged_ok_def by (intro conjI exI [of _ w] exI [of _ "sg_shared sg"]) simp_all
      moreover have "certificates_ok sg rt"
      proof -
        have "map (\<lambda>c. c = None) (sg_certificates sg) = map (\<lambda>l. l_tls l = None) (listeners (sg_config sg))"
          using acc by (auto simp: accepted_def list_all2_conv_all_nth list_eq_iff_nth_eq certified_def split: option.splits)
        also have "\<dots> = map (\<lambda>l. l_tls l = None) (listeners (rn_current rt))"
          using acc by (intro frozen_modes) (simp add: accepted_def)
        also have "\<dots> = map (\<lambda>s. s = None) (rn_tls rt)"
          using ok by (auto simp: base_ok_def stores_match_def list_all2_conv_all_nth list_eq_iff_nth_eq split: option.splits)
        finally show ?thesis by (simp add: certificates_ok_def)
      qed
      ultimately show ?thesis using step idle ok pc by (auto simp: s Begin Inr reloading_ok_def)
    qed
  qed
qed

interpretation reloading: automaton "reload_step lb" "reloading_ok lb fixed" for lb fixed
  by unfold_locales (rule reloading_step_ok)

section \<open>Every moment of a run\<close>

lemma reloading_start:
  assumes "new_runtime lb w cfg pth observed sinks = Inr rt"
  shows "reloading_ok lb (observed, frozen cfg) (rt, Idle)"
proof -
  obtain h sh where build: "build_handler lb w observed cfg = Inr (h, sh)" and gens: "rn_generations rt = [new_generation cfg h sh]"
    and d: "dy_current (rn_dynamic rt) = 0"
    using assms by (auto simp: new_runtime_def new_dynamic_def split: sum.splits prod.splits)
  have "published rt = new_generation cfg h sh" by (simp add: published_def gens d)
  with runtime_ok_new [OF assms] handler_fresh [OF build] show ?thesis
    by (auto simp: reloading_ok_def base_ok_def runtime_ok_def settled_def retired_below_def d new_generation_def)
qed

lemma reload_progress:
  assumes ok: "base_ok lb fixed rt" and pc: "pc_ok lb fixed rt pc" and "pc \<noteq> Idle"
  shows "reload_advance rt pc \<noteq> None"
proof (cases pc)
  case (Publishing i sg)
  have same: "map (\<lambda>c. c = None) (sg_certificates sg) = map (\<lambda>s. s = None) (rn_tls rt)"
    using pc by (simp add: Publishing certificates_ok_def)
  then have len: "length (sg_certificates sg) = length (rn_tls rt)" by (rule map_eq_imp_length_eq)
  have "(sg_certificates sg ! i = None) = (rn_tls rt ! i = None)" if "i < length (rn_tls rt)"
    using arg_cong [where f = "\<lambda>xs. xs ! i", OF same] that len by simp
  with len show ?thesis by (auto simp: Publishing split: option.splits)
qed (use assms(3) in simp_all)

lemma generation_sound:
  assumes "generation_ok lb observed g" and bound: "2 * c_max_bytes (c_cache (ge_config g)) \<le> max_int64"
  shows "accounted (ge_handler g) (ge_system g) \<and> (\<forall>(ident, t) \<in> set (requests_of g). \<not> th_panicked t)"
proof -
  obtain sh as where fresh: "fresh_handler (ge_handler g) sh" and complete: "complete (ge_handler g) sh"
    and run: "ge_system g = run_from (ge_handler g) sh as"
    using assms unfolding generation_ok_def bounded_cache_def by blast
  have "accounted (ge_handler g) (ge_system g)" unfolding run by (rule accounted_run_from [OF fresh])
  moreover have "\<not> th_panicked t" if "(ident, t) \<in> set (requests_of g)" for ident t
    by (rule complete_no_panic [OF complete]) (use that in \<open>simp add: requests_of_def run\<close>)
  ultimately show ?thesis by blast
qed

text \<open>
  C6. What holds between any two operations of a reload, with requests and probes running all the
  while: the published handler was built from a valid configuration, is never retired, and agrees
  with the configuration at startup on all that needs a restart; every TLS listener has a
  certificate to serve and a plain one has none; in every generation, old or new, no request has
  panicked and the requests past admission, the handles on the backends and the memory held for
  the cache are accounted for; a reload that has begun can always go on and never panics; and when it is
  over, the published handler is that of the active configuration and all others are retired.
\<close>

theorem reload_interleaved_sound:
  assumes "new_runtime lb w0 cfg pth observed sinks = Inr rt0" and "run_events (reload_step lb) (rt0, Idle) es = Some (rt, pc)"
  shows "validate (lb_parse lb) (ge_config (published rt)) = [] \<and> frozen (ge_config (published rt)) = frozen cfg \<and>
    \<not> sh_retired (sy_shared (ge_system (published rt))) \<and>
    list_all2 (\<lambda>l s. case s of None \<Rightarrow> l_tls l = None | Some st \<Rightarrow> l_tls l \<noteq> None \<and> cs_certificate st \<noteq> None)
      (listeners (ge_config (published rt))) (rn_tls rt) \<and>
    (\<forall>g \<in> set (rn_generations rt). 2 * c_max_bytes (c_cache (ge_config g)) \<le> max_int64 \<longrightarrow>
       accounted (ge_handler g) (ge_system g) \<and> (\<forall>(ident, t) \<in> set (requests_of g). \<not> th_panicked t)) \<and>
    (pc \<noteq> Idle \<longrightarrow> reload_step lb (rt, pc) Advance \<noteq> None) \<and>
    (pc = Idle \<longrightarrow> rn_current rt = ge_config (published rt) \<and>
       (\<forall>g < dy_current (rn_dynamic rt). sh_retired (sy_shared (ge_system (rn_generations rt ! g)))))"
proof -
  have inv: "reloading_ok lb (observed, frozen cfg) (rt, pc)"
    by (rule reloading.run_inv [OF assms(2) reloading_start [OF assms(1)]])
  then have ok: "base_ok lb (observed, frozen cfg) rt" and pc: "pc_ok lb (observed, frozen cfg) rt pc"
    by (simp_all add: reloading_ok_def)
  have gens: "generation_ok lb observed g" if "g \<in> set (rn_generations rt)" for g
    using ok that by (simp add: base_ok_def list_all_iff)
  have "published rt \<in> set (rn_generations rt)" using ok by (simp add: base_ok_def published_def)
  from gens [OF this] have valid: "validate (lb_parse lb) (ge_config (published rt)) = []"
    by (auto simp: generation_ok_def validate_ok_iff dest: build_well_formed)
  have fz: "frozen (rn_current rt) = frozen (ge_config (published rt))" using ok by (simp add: base_ok_def)
  from stores_match_frozen [OF fz] ok have tls: "stores_match (listeners (ge_config (published rt))) (rn_tls rt)"
    by (simp add: base_ok_def)
  have "pc = Idle \<longrightarrow> settled rt" using pc by auto
  moreover have "pc \<noteq> Idle \<longrightarrow> reload_step lb (rt, pc) Advance \<noteq> None" using reload_progress [OF ok pc] by simp
  moreover have "frozen (ge_config (published rt)) = frozen cfg" "\<not> sh_retired (sy_shared (ge_system (published rt)))"
    using ok by (simp_all add: base_ok_def)
  ultimately show ?thesis
    using valid generation_sound gens tls unfolding settled_def retired_below_def stores_match_def by blast
qed

text \<open>A request arrives and moves while the certificates of a reload are out but its handler is not.\<close>

definition demo_interleaving :: "reload_event list" where
  "demo_interleaving = [Begin demo_world, Meanwhile (Request ''1'' (plain_request ''GET'' ''a.test'' ''/api'')), Advance,
     Meanwhile (Progress 0 0 (Go 0))]"

theorem reload_interleaved_sound_witness:
  "case demo_runtime of Inl e \<Rightarrow> False | Inr rt0 \<Rightarrow>
     (case run_events (reload_step demo_library) (rt0, Idle) demo_interleaving of None \<Rightarrow> False
      | Some (rt, pc) \<Rightarrow> pc \<noteq> Idle \<and> validate demo_parse (ge_config (published rt)) = [] \<and>
          reload_step demo_library (rt, pc) Advance \<noteq> None)"
proof -
  obtain rt0 where start: "demo_runtime = Inr rt0" "rn_current rt0 = watched_config" "rn_observed rt0" by (rule demo_started)
  have inv: "reloading_ok demo_library (True, frozen watched_config) (rt0, Idle)"
    by (rule reloading_start [OF start(1) [unfolded demo_runtime_def]])
  obtain h sh cs where acc: "accepted demo_library demo_world rt0 watched_config h sh cs"
    using demo_accepted [OF start(2,3)] by blast
  then obtain sg where sg: "stage_reload demo_library demo_world rt0 = Inr sg"
    using stage_reload_ok [of demo_library demo_world rt0 "\<lparr>sg_config = watched_config, sg_handler = h, sg_shared = sh, sg_certificates = cs\<rparr>"]
    by auto
  define rt1 where "rt1 = the (runtime_step demo_library rt0 (Request ''1'' (plain_request ''GET'' ''a.test'' ''/api'')))"
  have rt1: "runtime_step demo_library rt0 (Request ''1'' (plain_request ''GET'' ''a.test'' ''/api'')) = Some rt1"
    by (simp add: rt1_def Let_def del: sys_step.simps)
  have begun: "run_events (reload_step demo_library) (rt0, Idle)
      [Begin demo_world, Meanwhile (Request ''1'' (plain_request ''GET'' ''a.test'' ''/api''))] = Some (rt1, Publishing 0 sg)"
    using rt1 by (simp add: sg del: runtime_step.simps)
  from reloading.run_inv [OF begun inv] have "reloading_ok demo_library (True, frozen watched_config) (rt1, Publishing 0 sg)" .
  then have "base_ok demo_library (True, frozen watched_config) rt1"
    and "pc_ok demo_library (True, frozen watched_config) rt1 (Publishing 0 sg)" by (simp_all add: reloading_ok_def)
  from reload_progress [OF this] obtain rt2 pc where adv: "reload_advance rt1 (Publishing 0 sg) = Some (rt2, pc)" by auto
  then have busy: "pc \<noteq> Idle" by (auto split: if_splits option.splits)
  have "reload_step demo_library (rt1, Publishing 0 sg) Advance = Some (rt2, pc)" using adv by simp
  from reloading_step_ok [OF \<open>reloading_ok demo_library (True, frozen watched_config) (rt1, Publishing 0 sg)\<close> this]
  have "rn_generations rt2 \<noteq> []" by (auto simp: reloading_ok_def base_ok_def)
  then obtain rt3 where "runtime_step demo_library rt2 (Progress 0 0 (Go 0)) = Some rt3"
    by (simp add: Let_def del: sys_step.simps)
  then have "run_events (reload_step demo_library) (rt1, Publishing 0 sg) [Advance, Meanwhile (Progress 0 0 (Go 0))] = Some (rt3, pc)"
    using adv by (simp del: runtime_step.simps reload_advance.simps)
  moreover have "demo_interleaving = [Begin demo_world, Meanwhile (Request ''1'' (plain_request ''GET'' ''a.test'' ''/api''))] @
      [Advance, Meanwhile (Progress 0 0 (Go 0))]" by (simp add: demo_interleaving_def)
  ultimately have run: "run_events (reload_step demo_library) (rt0, Idle) demo_interleaving = Some (rt3, pc)"
    by (metis begun run_events_append bind.bind_lunit)
  note sound = reload_interleaved_sound [OF start(1) [unfolded demo_runtime_def] run]
  have "lb_parse demo_library = demo_parse" by (simp add: demo_library_def)
  with conjunct1 [OF sound] have "validate demo_parse (ge_config (published rt3)) = []" by (simp only:)
  moreover have "reload_step demo_library (rt3, pc) Advance \<noteq> None" using sound busy by blast
  ultimately show ?thesis unfolding start(1) run sum.case option.case prod.case using busy by blast
qed

end
