(* ===== verification/Program.thy ===== *)
theory Program
  imports Runtime Admin
begin

text \<open>
  The command \<open>goproxy\<close> (\<open>main.go\<close>): what \<open>runContext\<close> does with its flags up to the running
  servers, and the goroutine that answers SIGHUP with a reload. The operational handler and the health check
  command are in the theory of the package \<open>admin\<close>, the group of servers in that of \<open>server\<close>.
\<close>

section \<open>Version and log level\<close>

definition version_string :: "string \<Rightarrow> string \<Rightarrow> string" where
  "version_string version commit = ''goproxy version='' @ version @ '' commit='' @ commit"

datatype slog_level = LevelDebug | LevelInfo | LevelWarn | LevelError

definition set_log_level :: "string \<Rightarrow> slog_level" where
  "set_log_level configured =
     (let s = to_lower configured
      in if s = ''debug'' then LevelDebug else if s = ''warn'' then LevelWarn
         else if s = ''error'' then LevelError else LevelInfo)"

text \<open>The levels of \<open>log/slog\<close> are numbers, and a record is written from the level of its logger upwards.\<close>

primrec level_value :: "slog_level \<Rightarrow> int" where
  "level_value LevelDebug = -4"
| "level_value LevelInfo = 0"
| "level_value LevelWarn = 4"
| "level_value LevelError = 8"

lemma level_value_inject [simp]: "level_value a = level_value b \<longleftrightarrow> a = b"
  by (cases a; cases b) simp_all

instantiation slog_level :: linorder
begin

definition less_eq_slog_level :: "slog_level \<Rightarrow> slog_level \<Rightarrow> bool" where
  "less_eq_slog_level a b \<longleftrightarrow> level_value a \<le> level_value b"

definition less_slog_level :: "slog_level \<Rightarrow> slog_level \<Rightarrow> bool" where
  "less_slog_level a b \<longleftrightarrow> level_value a < level_value b"

instance
  by intro_classes (auto simp: less_eq_slog_level_def less_slog_level_def)

end

definition log_enabled :: "slog_level \<Rightarrow> slog_level \<Rightarrow> bool" where
  "log_enabled configured record_level \<longleftrightarrow> configured \<le> record_level"

text \<open>
  The records of requests and of the operational endpoints have level info: under a valid configuration they are
  written unless it asks for warnings or errors only. A rejected reload is an error and always written.
\<close>

lemma requests_logged:
  assumes "validate parse cfg = []"
  shows "log_enabled (set_log_level (log_level cfg)) LevelInfo \<longleftrightarrow> log_level cfg \<in> {''debug'', ''info''}"
    and "log_enabled (set_log_level (log_level cfg)) LevelError"
proof -
  have "log_level cfg \<in> {''debug'', ''info'', ''warn'', ''error''}"
    using assms by (simp add: validate_ok_iff well_formed_def well_formed_bounds_def)
  then show "log_enabled (set_log_level (log_level cfg)) LevelInfo \<longleftrightarrow> log_level cfg \<in> {''debug'', ''info''}"
    and "log_enabled (set_log_level (log_level cfg)) LevelError"
    by (auto simp: log_enabled_def set_log_level_def less_eq_slog_level_def to_lower_def lower_char_def Let_def)
qed

section \<open>From the flags to the servers\<close>

record flags =
  fl_config :: string
  fl_check_config :: bool
  fl_healthcheck :: string
  fl_version :: bool

datatype run_error =
    FlagsInvalid | HealthcheckFailed healthcheck_error | ConfigFailed load_error
  | CredentialsFailed string | RuntimeFailed runtime_error

text \<open>
  The program while its servers run. The channel for SIGHUP has room for one signal; \<open>pr_hup\<close> says
  that there is one. \<open>pr_log\<close> has what the goroutine logged: whether each reload was accepted.
\<close>

record program =
  pr_runtime :: runtime
  pr_level :: slog_level
  pr_credentials :: "credential list"
  pr_servers :: "managed list"
  pr_shutdown :: duration
  pr_hup :: bool
  pr_cancelled :: bool
  pr_loop_ended :: bool
  pr_log :: "bool list"

datatype outcome = Printed string | Healthy | Running program

definition start_servers :: "config \<Rightarrow> credential list \<Rightarrow> runtime \<Rightarrow> program" where
  "start_servers cfg cs rt =
     \<lparr>pr_runtime = start_health_locked rt, pr_level = set_log_level (log_level cfg), pr_credentials = cs,
      pr_servers = program_servers cfg (runtime_tls_config rt), pr_shutdown = t_shutdown (c_timeouts cfg),
      pr_hup = False, pr_cancelled = False, pr_loop_ended = False, pr_log = []\<rparr>"

definition run_context ::
  "library \<Rightarrow> world \<Rightarrow> (string \<Rightarrow> string) \<Rightarrow> (string \<Rightarrow> string \<Rightarrow> request option) \<Rightarrow> (request \<Rightarrow> int option) \<Rightarrow>
   string \<Rightarrow> string \<Rightarrow> flags option \<Rightarrow> run_error + outcome" where
  "run_context lb w getenv new_request send version commit parsed =
     (case parsed of
        None \<Rightarrow> Inl FlagsInvalid
      | Some fl \<Rightarrow>
          if fl_version fl then Inr (Printed (version_string version commit))
          else if fl_healthcheck fl \<noteq> []
          then (case run_healthcheck new_request send (fl_healthcheck fl) (getenv ''GOPROXY_ADMIN_TOKEN'') of
                  Some e \<Rightarrow> Inl (HealthcheckFailed e)
                | None \<Rightarrow> Inr Healthy)
          else (case load_file (lb_decode lb) (lb_trailing lb) (lb_parse lb) (w_files w) (fl_config fl) of
                  Inl e \<Rightarrow> Inl (ConfigFailed e)
                | Inr cfg \<Rightarrow>
                    if fl_check_config fl then Inr (Printed (''configuration ok: '' @ fl_config fl))
                    else (case admin_credentials getenv cfg of
                       Inl e \<Rightarrow> Inl (CredentialsFailed e)
                     | Inr cs \<Rightarrow>
                         (case new_runtime lb w cfg (fl_config fl) True ([], new_metrics) of
                            Inl e \<Rightarrow> Inl (RuntimeFailed e)
                          | Inr rt \<Rightarrow> Inr (Running (start_servers cfg cs rt))))))"

section \<open>The reload loop\<close>

text \<open>
  A signal is dropped when one is already waiting. The loop takes it and reloads, or sees that the
  context has ended, whichever \<open>select\<close> picks when both are ready. Everything else that happens
  to the runtime meanwhile is a request or a probe.
\<close>

datatype program_event = Hup | Cancelled | TakeHup world | LoopEnds | Serving runtime_event

fun program_step :: "library \<Rightarrow> program \<Rightarrow> program_event \<Rightarrow> program option" where
  "program_step lb p Hup = Some (p\<lparr>pr_hup := True\<rparr>)"
| "program_step lb p Cancelled = Some (p\<lparr>pr_cancelled := True\<rparr>)"
| "program_step lb p (TakeHup w) =
     (if pr_hup p \<and> \<not> pr_loop_ended p
      then (case reload lb w (pr_runtime p) of
              None \<Rightarrow> None
            | Some (Some e, rt) \<Rightarrow> Some (p\<lparr>pr_hup := False, pr_runtime := rt, pr_log := pr_log p @ [False]\<rparr>)
            | Some (None, rt) \<Rightarrow>
                Some (p\<lparr>pr_hup := False, pr_runtime := rt, pr_level := set_log_level (log_level (rn_current rt)),
                        pr_log := pr_log p @ [True]\<rparr>))
      else None)"
| "program_step lb p LoopEnds = (if pr_cancelled p then Some (p\<lparr>pr_loop_ended := True\<rparr>) else None)"
| "program_step lb p (Serving e) =
     (case e of
        Reload _ \<Rightarrow> None
      | StartHealth \<Rightarrow> None
      | _ \<Rightarrow> map_option (\<lambda>rt. p\<lparr>pr_runtime := rt\<rparr>) (runtime_step lb (pr_runtime p) e))"

section \<open>The servers stay those of the active configuration\<close>

lemma frozen_parts:
  assumes "frozen a = frozen b"
  shows "a_address (c_admin a) = a_address (c_admin b)" "auth_token_env (c_admin a) = auth_token_env (c_admin b)"
    "a_tokens (c_admin a) = a_tokens (c_admin b)" "t_read_header (c_timeouts a) = t_read_header (c_timeouts b)"
    "t_read_body (c_timeouts a) = t_read_body (c_timeouts b)" "t_write (c_timeouts a) = t_write (c_timeouts b)"
    "t_idle (c_timeouts a) = t_idle (c_timeouts b)" "t_shutdown (c_timeouts a) = t_shutdown (c_timeouts b)"
    "max_header_bytes (c_limits a) = max_header_bytes (c_limits b)" "max_connections (c_limits a) = max_connections (c_limits b)"
    "map (\<lambda>l. (l_address l, l_tls l = None)) (listeners a) = map (\<lambda>l. (l_address l, l_tls l = None)) (listeners b)"
  using assms unfolding frozen_def prod.inject list.inject by blast+

text \<open>The public servers depend on their listeners only through address and TLS mode.\<close>

lemma servers_of_modes:
  assumes "stores_match (listeners cfg) (rn_tls rt)"
  shows "program_servers cfg (runtime_tls_config rt) =
    map (\<lambda>(addr, plain). new_public \<lparr>l_address = addr, l_tls = None\<rparr> cfg (if plain then None else Some store_tls_config))
      (map (\<lambda>l. (l_address l, l_tls l = None)) (listeners cfg)) @ [new_admin cfg]"
proof -
  have "runtime_tls_config rt i = (if l_tls (listeners cfg ! i) = None then None else Some store_tls_config)"
    if "i < length (listeners cfg)" for i
    using assms that by (auto simp: stores_match_def list_all2_conv_all_nth runtime_tls_config_def split: option.splits)
  then show ?thesis
    by (auto simp: program_servers_def new_public_def nth_enumerate_eq intro!: nth_equalityI)
qed

lemma servers_frozen:
  assumes "frozen (rn_current rt) = frozen (rn_current rt')"
    and "stores_match (listeners (rn_current rt)) (rn_tls rt)" "stores_match (listeners (rn_current rt')) (rn_tls rt')"
  shows "program_servers (rn_current rt) (runtime_tls_config rt) = program_servers (rn_current rt') (runtime_tls_config rt')"
  unfolding servers_of_modes [OF assms(2)] servers_of_modes [OF assms(3)] frozen_parts(11) [OF assms(1)]
  by (simp add: new_public_def new_admin_def frozen_parts [OF assms(1)])

lemma credentials_frozen: "frozen a = frozen b \<Longrightarrow> admin_credentials getenv a = admin_credentials getenv b"
proof -
  assume fz: "frozen a = frozen b"
  show ?thesis unfolding admin_credentials_def admin_token_value_def frozen_parts(2,3) [OF fz] ..
qed

definition program_ok ::
  "library \<Rightarrow> (string \<Rightarrow> string) \<Rightarrow> bool \<times> frozen_part \<Rightarrow>
   program \<Rightarrow> bool" where
  "program_ok lb getenv fixed p \<longleftrightarrow>
     (let rt = pr_runtime p; cfg = rn_current rt
      in runtime_ok lb fixed rt \<and> pr_servers p = program_servers cfg (runtime_tls_config rt) \<and>
         pr_shutdown p = t_shutdown (c_timeouts cfg) \<and> admin_credentials getenv cfg = Inr (pr_credentials p) \<and>
         pr_level p = set_log_level (log_level cfg) \<and> length (filter id (pr_log p)) = dy_current (rn_dynamic rt))"

lemma runtime_ok_parts:
  assumes "runtime_ok lb fixed rt"
  shows "(rn_observed rt, frozen (rn_current rt)) = fixed" "stores_match (listeners (rn_current rt)) (rn_tls rt)"
    "length (rn_generations rt) = Suc (dy_current (rn_dynamic rt))"
  using assms unfolding runtime_ok_def by blast+

text \<open>Requests and probes leave the configuration, the stores and the published handler alone.\<close>

lemma serving_frame:
  assumes "runtime_step lb rt e = Some rt'" "\<nexists>w. e = Reload w"
  shows "rn_current rt' = rn_current rt \<and> rn_tls rt' = rn_tls rt \<and> rn_dynamic rt' = rn_dynamic rt"
  using assms by (cases e) (auto simp: Let_def simp del: sys_step.simps split: if_splits prod.splits)

lemma program_ok_moved:
  assumes ok: "program_ok lb getenv fixed p" and rt: "runtime_ok lb fixed rt"
    and n: "length (filter id lg) = dy_current (rn_dynamic rt)" and level: "lv = set_log_level (log_level (rn_current rt))"
  shows "program_ok lb getenv fixed (p\<lparr>pr_hup := f, pr_runtime := rt, pr_level := lv, pr_log := lg\<rparr>)"
proof -
  have old: "runtime_ok lb fixed (pr_runtime p)" using ok by (simp add: program_ok_def Let_def)
  have fz: "frozen (rn_current rt) = frozen (rn_current (pr_runtime p))"
    using runtime_ok_parts(1) [OF old] runtime_ok_parts(1) [OF rt] by auto
  from ok servers_frozen [OF fz runtime_ok_parts(2) [OF rt] runtime_ok_parts(2) [OF old]] credentials_frozen [OF fz, of getenv]
    frozen_parts(8) [OF fz]
  show ?thesis by (simp add: program_ok_def Let_def rt n level)
qed

lemma program_step_ok:
  assumes ok: "program_ok lb getenv fixed p" and step: "program_step lb p e = Some p'"
  shows "program_ok lb getenv fixed p'"
proof -
  let ?rt = "pr_runtime p"
  have old: "runtime_ok lb fixed ?rt" and n: "length (filter id (pr_log p)) = dy_current (rn_dynamic ?rt)"
    and level: "pr_level p = set_log_level (log_level (rn_current ?rt))"
    using ok by (simp_all add: program_ok_def Let_def)
  show ?thesis
  proof (cases e)
    case (TakeHup w)
    have "stores_match (listeners (rn_current ?rt)) (rn_tls ?rt)" by (rule runtime_ok_parts(2) [OF old])
    then show ?thesis
    proof (cases rule: reload_cases [where lb = lb and w = w, consumes 1])
      case (rejected x)
      with step have p': "p' = p\<lparr>pr_hup := False, pr_runtime := ?rt, pr_level := pr_level p, pr_log := pr_log p @ [False]\<rparr>"
        by (auto simp: TakeHup split: if_splits)
      show ?thesis unfolding p' by (rule program_ok_moved [OF ok old _ level]) (simp add: n)
    next
      case (accepted nxt h sh cs ss)
      let ?new = "publish_reload nxt h sh ss ?rt"
      have "length (filter id (pr_log p @ [True])) = dy_current (rn_dynamic ?new)"
        using n runtime_ok_parts(3) [OF old] by (simp add: publish_reload_fields)
      from program_ok_moved [OF ok reload_ok [OF old accepted(1)] this refl, of False] step accepted(1) show ?thesis
        by (auto simp: TakeHup split: if_splits)
    qed
  next
    case (Serving x)
    then obtain rt where rt: "runtime_step lb ?rt x = Some rt" "\<nexists>w. x = Reload w"
      and p': "p' = p\<lparr>pr_hup := pr_hup p, pr_runtime := rt, pr_level := pr_level p, pr_log := pr_log p\<rparr>"
      using step by (auto split: runtime_event.splits)
    show ?thesis unfolding p'
      by (rule program_ok_moved [OF ok runtime_step_ok [OF old rt(1)]]) (simp_all add: n level serving_frame [OF rt])
  qed (use ok step in \<open>auto simp: program_ok_def Let_def split: if_splits\<close>)
qed

interpretation reload_loop: automaton "program_step lb" "program_ok lb getenv fixed" for lb getenv fixed
  by unfold_locales (rule program_step_ok)

lemma program_ok_start:
  assumes "run_context lb w getenv new_request send version commit (Some fl) = Inr (Running p)"
  shows "\<exists>fixed. program_ok lb getenv fixed p"
proof -
  obtain cfg cs rt where cs: "admin_credentials getenv cfg = Inr cs"
    and rt: "new_runtime lb w cfg (fl_config fl) True ([], new_metrics) = Inr rt" and p: "p = start_servers cfg cs rt"
    using assms by (auto simp: run_context_def split: if_splits option.splits sum.splits)
  note ok = runtime_ok_new [OF rt]
  have "rn_current rt = cfg" "dy_current (rn_dynamic rt) = 0"
    using rt by (auto simp: new_runtime_def new_dynamic_def split: sum.splits prod.splits)
  moreover have "runtime_tls_config (start_health_locked rt) = runtime_tls_config rt"
    by (simp add: runtime_tls_config_def [abs_def])
  moreover have "runtime_ok lb (True, frozen cfg) (start_health_locked rt)"
    by (rule runtime_step_ok [OF ok, of StartHealth]) simp
  ultimately have "program_ok lb getenv (True, frozen cfg) p"
    using cs by (simp add: program_ok_def Let_def p start_servers_def)
  then show ?thesis by blast
qed

text \<open>
  C7. The running servers never go stale. Whatever reloads have been asked for, accepted and
  rejected: the servers that were started are exactly the ones the active configuration would
  start, with the same addresses, limits, timeouts and TLS policies, and so are the credentials of
  the operational endpoints and the shutdown timeout; the log level is that of the active
  configuration; and the number of accepted reloads is the number of times the handler was replaced.
\<close>

theorem servers_never_stale:
  assumes "run_context lb w getenv new_request send version commit (Some fl) = Inr (Running p0)"
    and "run_events (program_step lb) p0 es = Some p"
  shows "pr_servers p = program_servers (rn_current (pr_runtime p)) (runtime_tls_config (pr_runtime p)) \<and>
    admin_credentials getenv (rn_current (pr_runtime p)) = Inr (pr_credentials p) \<and>
    pr_shutdown p = t_shutdown (c_timeouts (rn_current (pr_runtime p))) \<and>
    pr_level p = set_log_level (log_level (rn_current (pr_runtime p))) \<and>
    length (filter id (pr_log p)) = dy_current (rn_dynamic (pr_runtime p))"
proof -
  obtain fixed where "program_ok lb getenv fixed p0" using program_ok_start [OF assms(1)] by blast
  from reload_loop.run_inv [OF assms(2) this] show ?thesis by (simp add: program_ok_def Let_def)
qed

definition demo_run_context :: "run_error + outcome" where
  "demo_run_context = run_context demo_library demo_world (\<lambda>_. []) (\<lambda>_ _. None) (\<lambda>_. None) ''v1'' ''c0''
     (Some \<lparr>fl_config = ''proxy.yaml'', fl_check_config = False, fl_healthcheck = [], fl_version = False\<rparr>)"

theorem servers_never_stale_witness:
  "case demo_run_context of
     Inr (Running p0) \<Rightarrow>
       (case run_events (program_step demo_library) p0 [Hup, Hup, TakeHup demo_world] of
          None \<Rightarrow> False
        | Some p \<Rightarrow> pr_servers p = program_servers (rn_current (pr_runtime p)) (runtime_tls_config (pr_runtime p)))
   | _ \<Rightarrow> False"
proof -
  obtain rt where rt: "demo_runtime = Inr rt" "rn_current rt = watched_config" "rn_observed rt" by (rule demo_started)
  have "admin_credentials (\<lambda>_. []) watched_config = Inr []"
    by (simp add: admin_credentials_def watched_config_def demo_config_def default_config_def)
  then have start: "demo_run_context = Inr (Running (start_servers watched_config [] rt))"
    using rt(1) by (simp add: demo_run_context_def run_context_def demo_loads demo_runtime_def)
  let ?p = "start_servers watched_config [] rt"
  have ok: "runtime_ok demo_library (True, frozen watched_config) (start_health_locked rt)"
    by (rule runtime_step_ok [OF runtime_ok_new [OF rt(1) [unfolded demo_runtime_def]], of StartHealth]) simp
  obtain rt' where "reload demo_library demo_world (start_health_locked rt) = Some (None, rt')"
    using demo_reload [OF ok] rt(2,3) by auto
  then obtain p where run: "run_events (program_step demo_library) ?p [Hup, Hup, TakeHup demo_world] = Some p"
    by (simp add: start_servers_def)
  show ?thesis
    unfolding start sum.case outcome.case run option.case
    using servers_never_stale [OF start [unfolded demo_run_context_def] run] by blast
qed

end
