(* ===== verification/LoadCheck.thy ===== *)
theory LoadCheck
  imports GoHttp "HOL-Library.Multiset"
begin

text \<open>
  The command \<open>loadcheck\<close>: workers that share a counter and send a fixed number of requests,
  the reading of the metrics before and after, and the verdict. Requests and responses are
  parameters or events; so are floats, their parser and their difference.
\<close>

section \<open>The load\<close>

text \<open>
  An exchange is what came of one index: no request could be made, none was answered, or the answer has
  a status and its body was read to the end or not.
\<close>

datatype exchange = NoRequest | NoAnswer | Answer int bool

definition failed_exchange :: "exchange \<Rightarrow> bool" where
  "failed_exchange ex = (case ex of Answer st copied \<Rightarrow> \<not> copied \<or> st < 200 \<or> st \<ge> 300 | _ \<Rightarrow> True)"

datatype worker = Fetching | Sending int | Returned

text \<open>The two counters, the goroutines, and the indices with what came of them.\<close>

record load_run =
  lr_next :: int64
  lr_failures :: int64
  lr_workers :: "worker list"
  lr_done :: "(int \<times> exchange) list"

definition start_load :: "nat \<Rightarrow> load_run" where
  "start_load concurrency =
     \<lparr>lr_next = 0, lr_failures = 0, lr_workers = replicate concurrency Fetching, lr_done = []\<rparr>"

datatype load_event = Fetch nat | Finish nat exchange

fun load_step :: "int \<Rightarrow> load_run \<Rightarrow> load_event \<Rightarrow> load_run option" where
  "load_step requests s (Fetch k) =
     (if k < length (lr_workers s) \<and> lr_workers s ! k = Fetching
      then let index = wrap64 (lr_next s + 1)
           in Some (s\<lparr>lr_next := index,
                      lr_workers := (lr_workers s)[k := (if index > requests then Returned else Sending index)]\<rparr>)
      else None)"
| "load_step requests s (Finish k ex) =
     (if k < length (lr_workers s)
      then (case lr_workers s ! k of
              Sending index \<Rightarrow>
                Some (s\<lparr>lr_failures := (if failed_exchange ex then wrap64 (lr_failures s + 1) else lr_failures s),
                        lr_workers := (lr_workers s)[k := Fetching], lr_done := lr_done s @ [(index, ex)]\<rparr>)
            | _ \<Rightarrow> None)
      else None)"

definition returned :: "load_run \<Rightarrow> nat" where
  "returned s = length (filter (\<lambda>w. w = Returned) (lr_workers s))"

definition pending :: "load_run \<Rightarrow> int multiset" where
  "pending s = mset (concat (map (\<lambda>w. case w of Sending i \<Rightarrow> [i] | _ \<Rightarrow> []) (lr_workers s)))"

text \<open>The indices up to the next one are pending or done, each once; beyond the last, workers return.\<close>

definition load_ok :: "int \<Rightarrow> nat \<Rightarrow> load_run \<Rightarrow> bool" where
  "load_ok requests concurrency s \<longleftrightarrow>
     length (lr_workers s) = concurrency \<and> 0 \<le> lr_next s \<and>
     int (returned s) = max 0 (lr_next s - requests) \<and>
     mset (map fst (lr_done s)) + pending s = mset [1..min (lr_next s) requests] \<and>
     lr_failures s = int (length (filter (\<lambda>x. failed_exchange (snd x)) (lr_done s)))"

definition worker_rank :: "worker \<Rightarrow> nat" where
  "worker_rank w = (case w of Fetching \<Rightarrow> 1 | Sending _ \<Rightarrow> 2 | Returned \<Rightarrow> 0)"

definition load_left :: "int \<Rightarrow> load_run \<Rightarrow> nat" where
  "load_left requests s = 2 * nat (requests - lr_next s) + sum_list (map worker_rank (lr_workers s))"

lemma worker_update:
  assumes "k < length ws"
  obtains as bs where "ws = as @ ws ! k # bs" "\<And>w. ws[k := w] = as @ w # bs"
proof
  show "ws = take k ws @ ws ! k # drop (Suc k) ws" by (rule id_take_nth_drop [OF assms])
  show "ws[k := w] = take k ws @ w # drop (Suc k) ws" for w using assms by (simp add: upd_conv_take_nth_drop)
qed

lemma upto_snoc: "0 \<le> n \<Longrightarrow> mset [1..n + 1] = mset [1..n] + {#n + 1#}"
  by (simp add: upto_rec2)

lemma load_step_ok:
  assumes ok: "load_ok requests concurrency s" and step: "load_step requests s e = Some s'"
    and range: "0 \<le> requests" "requests + int concurrency \<le> max_int64"
  shows "load_ok requests concurrency s' \<and> load_left requests s' < load_left requests s"
proof (cases e)
  case (Fetch k)
  then have k: "k < length (lr_workers s)" "lr_workers s ! k = Fetching" using step by (auto split: if_splits)
  obtain as bs where ws: "lr_workers s = as @ Fetching # bs" and upd: "\<And>w. (lr_workers s)[k := w] = as @ w # bs"
    by (rule worker_update [OF k(1)]) (simp add: k(2))
  have ret: "int (returned s) = max 0 (lr_next s - requests)" and len: "length (lr_workers s) = concurrency"
    and pos: "0 \<le> lr_next s" using ok by (simp_all add: load_ok_def)
  have "returned s < concurrency"
    using len length_filter_le [of "\<lambda>w. w = Returned" as] length_filter_le [of "\<lambda>w. w = Returned" bs]
    by (simp add: returned_def ws del: length_filter_le)
  with ret have "lr_next s < requests + int concurrency" using range(1) by linarith
  then have "wrap64 (lr_next s + 1) = lr_next s + 1"
    using pos range by (intro wrap64_id) (simp add: is_int64_def min_int64_def)
  with step k have s': "s' = s\<lparr>lr_next := lr_next s + 1,
      lr_workers := as @ (if lr_next s + 1 > requests then Returned else Sending (lr_next s + 1)) # bs\<rparr>"
    by (simp add: Fetch Let_def upd)
  show ?thesis
  proof (cases "lr_next s + 1 > requests")
    case True
    with ok ret show ?thesis
      by (simp add: s' load_ok_def load_left_def returned_def pending_def ws worker_rank_def)
  next
    case False
    with ok ret pos upto_snoc [of "lr_next s"] show ?thesis
      by (simp add: s' load_ok_def load_left_def returned_def pending_def ws worker_rank_def min_def)
  qed
next
  case (Finish k ex)
  then obtain i where k: "k < length (lr_workers s)" "lr_workers s ! k = Sending i"
    using step by (auto split: if_splits worker.splits)
  obtain as bs where ws: "lr_workers s = as @ Sending i # bs" and upd: "\<And>w. (lr_workers s)[k := w] = as @ w # bs"
    by (rule worker_update [OF k(1)]) (simp add: k(2))
  have parts: "mset (map fst (lr_done s)) + pending s = mset [1..min (lr_next s) requests]" "0 \<le> lr_next s"
    and failures: "lr_failures s = int (length (filter (\<lambda>x. failed_exchange (snd x)) (lr_done s)))"
    using ok by (simp_all add: load_ok_def)
  have "size (mset (map fst (lr_done s)) + pending s) = nat (min (lr_next s) requests)"
    unfolding parts(1) by simp
  moreover have "0 < size (pending s)" by (simp add: pending_def ws)
  ultimately have "int (length (lr_done s)) < requests" by simp
  moreover have "length (filter (\<lambda>x. failed_exchange (snd x)) (lr_done s)) \<le> length (lr_done s)" by (rule length_filter_le)
  ultimately have "wrap64 (lr_failures s + 1) = lr_failures s + 1"
    using failures range by (intro wrap64_id) (simp add: is_int64_def min_int64_def del: length_filter_le)
  with step k have s': "s' = s\<lparr>lr_failures := lr_failures s + of_bool (failed_exchange ex),
      lr_workers := as @ Fetching # bs, lr_done := lr_done s @ [(i, ex)]\<rparr>"
    by (auto simp: Finish upd)
  show ?thesis
    using ok by (simp add: s' load_ok_def load_left_def returned_def pending_def ws worker_rank_def)
qed

text \<open>
  The contract of the prelude for concurrent parts that wind down: the state stays consistent and every
  event leaves less to do.
\<close>

definition sane :: "int \<Rightarrow> nat \<Rightarrow> bool" where
  "sane requests concurrency \<longleftrightarrow> 0 \<le> requests \<and> requests + int concurrency \<le> max_int64"

interpretation load_run: winding_down "load_step requests" "\<lambda>s. sane requests concurrency \<and> load_ok requests concurrency s"
    "\<lambda>_. True" "load_left requests" for requests concurrency
  by unfold_locales (auto simp: sane_def dest: load_step_ok)

lemma load_start: "0 \<le> requests \<Longrightarrow> load_ok requests concurrency (start_load concurrency)"
  by (simp add: load_ok_def start_load_def returned_def pending_def)

text \<open>
  \<open>runLoad\<close> is exact: however the workers interleave, there are at most \<open>2 * requests + concurrency\<close>
  steps; while a worker has not returned there is a step; and when all have returned, every
  index from 1 to the number of requests was sent exactly once and the result is the number of exchanges that failed.
\<close>

lemma run_load_exact:
  assumes "0 \<le> requests" and "requests + int concurrency \<le> max_int64"
    and run: "run_events (load_step requests) (start_load concurrency) es = Some s"
  shows "length es \<le> 2 * nat requests + concurrency"
    and "Returned \<noteq> w \<Longrightarrow> w \<in> set (lr_workers s) \<Longrightarrow> \<exists>e s'. load_step requests s e = Some s'"
    and "set (lr_workers s) \<subseteq> {Returned} \<Longrightarrow> 0 < concurrency \<Longrightarrow>
      mset (map fst (lr_done s)) = mset [1..requests] \<and>
      lr_failures s = int (length (filter (\<lambda>x. failed_exchange (snd x)) (lr_done s)))"
proof -
  have init: "sane requests concurrency \<and> load_ok requests concurrency (start_load concurrency)"
    using assms(1,2) load_start by (simp add: sane_def)
  from load_run.run_inv [OF run init] have ok: "load_ok requests concurrency s" by blast
  from load_run.run_bounded [OF run init] show "length es \<le> 2 * nat requests + concurrency"
    by (simp add: load_left_def start_load_def worker_rank_def sum_list_replicate)
  show "\<exists>e s'. load_step requests s e = Some s'" if busy: "Returned \<noteq> w" "w \<in> set (lr_workers s)"
  proof -
    obtain k where "k < length (lr_workers s)" "lr_workers s ! k = w" using busy(2) by (auto simp: in_set_conv_nth)
    then have "load_step requests s (Fetch k) \<noteq> None \<or> load_step requests s (Finish k NoAnswer) \<noteq> None"
      using busy(1) by (cases w) (simp_all add: Let_def)
    then show ?thesis by blast
  qed
  show "mset (map fst (lr_done s)) = mset [1..requests] \<and>
      lr_failures s = int (length (filter (\<lambda>x. failed_exchange (snd x)) (lr_done s)))"
    if all: "set (lr_workers s) \<subseteq> {Returned}" and "0 < concurrency"
  proof -
    have "filter (\<lambda>w. w = Returned) (lr_workers s) = lr_workers s" using all by (auto simp: filter_id_conv)
    then have "returned s = concurrency" using ok by (simp add: returned_def load_ok_def)
    with ok \<open>0 < concurrency\<close> have "min (lr_next s) requests = requests" by (auto simp: load_ok_def max_def split: if_splits)
    moreover have "concat (map (\<lambda>w. case w of Sending i \<Rightarrow> [i] | _ \<Rightarrow> []) ws) = []" if "set ws \<subseteq> {Returned}" for ws
      using that by (induction ws) auto
    from this [OF all] have "pending s = {#}" by (simp add: pending_def)
    ultimately show ?thesis using ok by (simp add: load_ok_def)
  qed
qed

section \<open>Reading the metrics\<close>

text \<open>\<open>strings.Fields\<close>, for ASCII text.\<close>

definition is_space :: "char \<Rightarrow> bool" where
  "is_space c \<longleftrightarrow> (let n = of_char c :: nat in n = 32 \<or> 9 \<le> n \<and> n \<le> 13)"

definition fields :: "string \<Rightarrow> string list" where
  "fields s = filter (\<lambda>f. f \<noteq> []) (split_on CHR '' '' (map (\<lambda>c. if is_space c then CHR '' '' else c) s))"

primrec scan_lines :: "(string \<Rightarrow> 'f option) \<Rightarrow> string list \<Rightarrow> (string \<rightharpoonup> 'f) \<Rightarrow> (string \<rightharpoonup> 'f)" where
  "scan_lines parse_float [] values = values"
| "scan_lines parse_float (line # rest) values =
     scan_lines parse_float rest
       (if has_prefix line ''#'' \<or> contains line ''{'' then values
        else (case fields line of
                [name, v] \<Rightarrow> (case parse_float v of Some x \<Rightarrow> values(name \<mapsto> x) | None \<Rightarrow> values)
              | _ \<Rightarrow> values))"

text \<open>
  \<open>scrape\<close>: the answer is its status, the lines the scanner yields, and whether it fails after
  them. An error of the scanner comes with the values read so far; \<open>main\<close> drops them.
\<close>

definition scrape ::
  "(string \<Rightarrow> string \<Rightarrow> request option) \<Rightarrow> (request \<Rightarrow> (int \<times> string list \<times> bool) option) \<Rightarrow> (string \<Rightarrow> 'f option) \<Rightarrow>
   string \<Rightarrow> string \<Rightarrow> (string \<rightharpoonup> 'f) option" where
  "scrape new_request send parse_float token target =
     (case new_request ''GET'' target of
        None \<Rightarrow> None
      | Some r0 \<Rightarrow>
          let r = (if token \<noteq> [] then r0\<lparr>r_header := hdr_set (r_header r0) ''Authorization'' (''Bearer '' @ token)\<rparr> else r0)
          in (case send r of
                None \<Rightarrow> None
              | Some (st, ls, scan_fails) \<Rightarrow>
                  if st \<noteq> 200 then None
                  else if scan_fails then None else Some (scan_lines parse_float ls Map.empty)))"

text \<open>A sample without labels is read as its last line says; lines with labels and comments are not read.\<close>

lemma scan_append: "scan_lines pf (xs @ ys) m = scan_lines pf ys (scan_lines pf xs m)"
  by (induction xs arbitrary: m) auto

lemma scan_other:
  "\<forall>l \<in> set ls. has_prefix l ''#'' \<or> contains l ''{'' \<or> (\<forall>v. fields l \<noteq> [name, v]) \<Longrightarrow> scan_lines pf ls m name = m name"
proof (induction ls arbitrary: m)
  case (Cons l ls)
  then have "scan_lines pf ls m' name = m' name" for m' by simp
  moreover have "has_prefix l ''#'' \<or> contains l ''{'' \<or> (\<forall>v. fields l \<noteq> [name, v])" using Cons.prems by simp
  ultimately show ?case by (auto split: list.splits option.splits)
qed simp

lemma scan_reads_last:
  assumes "fields l = [name, v]" "\<not> has_prefix l ''#''" "\<not> contains l ''{''" "pf v = Some x"
    and "\<forall>l \<in> set after. has_prefix l ''#'' \<or> contains l ''{'' \<or> (\<forall>v. fields l \<noteq> [name, v])"
  shows "scan_lines pf (before @ l # after) m name = Some x"
  using assms by (simp add: scan_append scan_other)

section \<open>The verdict\<close>

datatype check_error = BadFlags | WarmupFailures int64 | ScrapeFailed | LoadFailures int64 | GoroutineGrowth int64

definition warmup_requests :: "int64 \<Rightarrow> int64 \<Rightarrow> int64" where
  "warmup_requests requests concurrency = min requests (max 1000 (wrap64 (concurrency * 100)))"

text \<open>
  \<open>main\<close>: the failures of a load of so many requests, the values before and after, and
  the growth as \<open>int64\<close> of a difference of floats, are parameters. A missing value is zero.
\<close>

definition load_check ::
  "(int64 \<Rightarrow> int64) \<Rightarrow> (int64 \<Rightarrow> int64) \<Rightarrow> (string \<rightharpoonup> 'f) option \<Rightarrow> (string \<rightharpoonup> 'f) option \<Rightarrow> 'f \<Rightarrow> ('f \<Rightarrow> 'f \<Rightarrow> int64) \<Rightarrow>
   int64 \<Rightarrow> int64 \<Rightarrow> int64 \<Rightarrow> check_error option" where
  "load_check warmup load before after zero growth requests concurrency max_growth =
     (if requests \<le> 0 \<or> concurrency \<le> 0 \<or> max_growth < 0 then Some BadFlags
      else let failed = warmup (warmup_requests requests concurrency)
           in if failed > 0 then Some (WarmupFailures failed)
              else (case before of
                 None \<Rightarrow> Some ScrapeFailed
               | Some b \<Rightarrow>
                   let failures = load requests
                   in (case after of
                         None \<Rightarrow> Some ScrapeFailed
                       | Some a \<Rightarrow>
                           let value = (\<lambda>m. case m ''go_goroutines'' of Some v \<Rightarrow> v | None \<Rightarrow> zero);
                               grown = growth (value a) (value b)
                           in if failures > 0 then Some (LoadFailures failures)
                              else if grown > max_growth then Some (GoroutineGrowth grown) else None)))"

lemma load_check_passes:
  "load_check warmup load before after zero growth requests concurrency max_growth = None \<longleftrightarrow>
     0 < requests \<and> 0 < concurrency \<and> 0 \<le> max_growth \<and> warmup (warmup_requests requests concurrency) \<le> 0 \<and>
     load requests \<le> 0 \<and>
     (\<exists>a b. before = Some b \<and> after = Some a \<and>
        growth (case a ''go_goroutines'' of Some v \<Rightarrow> v | None \<Rightarrow> zero)
               (case b ''go_goroutines'' of Some v \<Rightarrow> v | None \<Rightarrow> zero) \<le> max_growth)"
  by (auto simp: load_check_def Let_def not_le not_less split: if_splits option.splits)

end
