(* ===== verification/ActiveGauge.thy ===== *)
theory ActiveGauge
  imports Backend Metrics
begin

text \<open>
  The active count of a backend and its gauge (\<open>Handler.acquire\<close> in \<open>runtime.go\<close> of the package
  \<open>proxy\<close>), one atomic operation at a time: the count changes, it is read back, and the value is
  published. The other theories take the three together; here they interleave.
\<close>

datatype gauge_call = Take | GiveBack

datatype gauge_pc = Called | Changed | ReadBack int64 | Published

record gauged =
  gd_pool :: string
  gd_backend :: backend
  gd_metrics :: metrics
  gd_calls :: "(gauge_call \<times> gauge_pc) list"

text \<open>One operation of the call \<open>k\<close>; a closure of \<open>Acquire\<close> is called for the first time here.\<close>

definition gauge_step :: "gauged \<Rightarrow> nat \<Rightarrow> gauged option" where
  "gauge_step s k =
     (if k < length (gd_calls s)
      then (case gd_calls s ! k of (c, pc) \<Rightarrow>
        (case pc of
           Called \<Rightarrow>
             Some (s\<lparr>gd_backend := (case c of Take \<Rightarrow> fst (acquire (gd_backend s)) | GiveBack \<Rightarrow> fst (release False (gd_backend s))),
                     gd_calls := (gd_calls s)[k := (c, Changed)]\<rparr>)
         | Changed \<Rightarrow> Some (s\<lparr>gd_calls := (gd_calls s)[k := (c, ReadBack (sint (active (gd_backend s))))]\<rparr>)
         | ReadBack v \<Rightarrow>
             Some (s\<lparr>gd_metrics := set_backend_active (gd_pool s) (b_name (gd_backend s)) v (gd_metrics s),
                     gd_calls := (gd_calls s)[k := (c, Published)]\<rparr>)
         | Published \<Rightarrow> None))
      else None)"

definition gauge_shows :: "gauged \<Rightarrow> int64 option" where
  "gauge_shows s = map_of (active_gauge (gd_metrics s)) (gd_pool s, b_name (gd_backend s))"

definition reported_on :: "gauged \<Rightarrow> bool" where
  "reported_on s \<longleftrightarrow> (reconciled (gd_metrics s) \<longrightarrow> (gd_pool s, b_name (gd_backend s)) \<in> allowed_backends (gd_metrics s))"

section \<open>One call after the other\<close>

lemma gauge_call:
  assumes "k < length (gd_calls s)" "gd_calls s ! k = (c, Called)" "reported_on s"
  shows "\<exists>t. run_events gauge_step s [k, k, k] = Some t \<and> gauge_shows t = Some (sint (active (gd_backend t))) \<and>
    active (gd_backend t) = (case c of Take \<Rightarrow> active (gd_backend s) + 1 | GiveBack \<Rightarrow> active (gd_backend s) - 1) \<and>
    gd_calls t = (gd_calls s)[k := (c, Published)] \<and> reported_on t"
  using assms
  by (cases c) (auto simp: gauge_step_def acquire_def release_def gauge_shows_def reported_on_def set_backend_active_def update_conv')

text \<open>Calls that do not overlap leave the gauge at the count.\<close>

lemma gauge_exact_in_turn:
  assumes "ks \<noteq> []" "distinct ks" "\<forall>k \<in> set ks. k < length (gd_calls s) \<and> snd (gd_calls s ! k) = Called" "reported_on s"
  shows "\<exists>t. run_events gauge_step s (concat (map (\<lambda>k. [k, k, k]) ks)) = Some t \<and>
    gauge_shows t = Some (sint (active (gd_backend t)))"
  using assms
proof (induction ks arbitrary: s)
  case (Cons k ks)
  obtain c where "gd_calls s ! k = (c, Called)" using Cons.prems(3) by (cases "gd_calls s ! k") auto
  with gauge_call [of k s c] Cons.prems(3,4) obtain t where
    t: "run_events gauge_step s [k, k, k] = Some t" "gauge_shows t = Some (sint (active (gd_backend t)))"
      "gd_calls t = (gd_calls s)[k := (c, Published)]" "reported_on t" by auto
  have first: "run_events gauge_step s (concat (map (\<lambda>k. [k, k, k]) (k # ks))) =
      run_events gauge_step t (concat (map (\<lambda>k. [k, k, k]) ks))"
    unfolding list.map concat.simps run_events_append t(1) by simp
  show ?case
  proof (cases "ks = []")
    case True
    with first t(2) show ?thesis by simp
  next
    case False
    have "\<forall>j \<in> set ks. j < length (gd_calls t) \<and> snd (gd_calls t ! j) = Called"
      using Cons.prems(2,3) by (auto simp: t(3) nth_list_update)
    with Cons.IH [OF False, of t] Cons.prems(2) t(4) show ?thesis unfolding first by simp
  qed
qed simp

section \<open>Calls that overlap\<close>

text \<open>
  Two requests give a backend back at the same time. The first one lowers the count and reads
  it, the second does all of its operations, and then the first publishes what it read: the backend is
  idle and the gauge shows one request, until the next one comes.
\<close>

lemma gauge_goes_stale:
  assumes "active (gd_backend s) = 2" "gd_calls s = [(GiveBack, Called), (GiveBack, Called)]" "reported_on s"
  shows "\<exists>t. run_events gauge_step s [0, 0, 1, 1, 1, 0] = Some t \<and> list_all (\<lambda>(c, pc). pc = Published) (gd_calls t) \<and>
    active (gd_backend t) = 0 \<and> gauge_shows t = Some 1"
  using assms
  by (auto simp: gauge_step_def release_def gauge_shows_def reported_on_def set_backend_active_def update_conv')

end
