(* ===== verification/Spec2Isabelle.thy ===== *)
theory Spec2Isabelle
  imports Prelude GoHttp Config Backend Balance Routing Cache CachePolicy RateLimit RoutePolicy NetIP ClientIP
    Capture Forward Proxy ProxyInv ProxyProps ProxyFlow ProxySafe CacheSafe Validate RouteOrder Load Transport
    NewHandler Metrics Observability Admin Server Health Runtime Reloading Program LoadCheck
    ActiveGauge
begin

text \<open>
  A verification development for the reverse proxy Gefahr (Go module \<open>github.com/anrorg/gefahr\<close>).

  \<^bold>\<open>The program.\<close> \<open>cmd/goproxy\<close> loads a YAML configuration, builds a handler from it, starts one HTTP
  server per listener and one for the operational endpoints, and reloads the configuration on
  SIGHUP. The handler matches a request to a route, applies the route's policy and rate limit,
  takes one of a bounded number of slots, looks into a response cache, picks a backend, forwards
  the request with retries, streams the response back while it may copy it into the cache, and
  reports to the log and the metrics. Health probes and failing requests take backends out of service
  and bring them back. A reload builds a new handler, lets it inherit the health of the old one,
  and swaps it in; the old one finishes its requests and closes its idle connections.

  \<^bold>\<open>The theories\<close>, in the order of their imports, with the files under \<open>src/\<close> they model:

  \<^item> \<open>Prelude\<close>, \<open>GoHttp\<close>, \<open>NetIP\<close>: what the program uses of Go and its standard library:
    \<open>int64\<close> values with their wrap-around (\<open>wrap64\<close>), clock readings and durations, the
    functions of \<open>strings\<close> and \<open>strconv\<close> on byte strings, headers, URLs, requests, addresses and prefixes. The
    section on automata of \<open>Prelude\<close> holds the contracts of the concurrent parts.
  \<^item> \<open>Config\<close>, \<open>Validate\<close>, \<open>Load\<close>: \<open>internal/config\<close>: the records of the configuration and its
    defaults; \<open>Validate\<close> with all its errors in order; \<open>Load\<close>, \<open>LoadFile\<close>, \<open>Store\<close> and \<open>Watch\<close>.
  \<^item> \<open>Backend\<close>, \<open>Health\<close>: \<open>internal/backend\<close>: the state of one upstream server with its 64-bit
    active count, and the active health checks with what they report.
  \<^item> \<open>Balance\<close>: \<open>internal/balance\<close> with its 64-bit counters, and the choice for a retry.
  \<^item> \<open>Routing\<close>, \<open>RouteOrder\<close>: \<open>internal/routing\<close>, and validation and routing together.
  \<^item> \<open>Cache\<close>, \<open>CachePolicy\<close>: \<open>internal/cache\<close>: the LRU store as map and list, and the shared-cache rules.
  \<^item> \<open>RateLimit\<close>, \<open>RoutePolicy\<close>, \<open>ClientIP\<close>, \<open>Capture\<close>, \<open>Forward\<close>, \<open>Transport\<close>: the parts of
    \<open>internal/proxy\<close> that a request passes: \<open>ratelimit.go\<close>, \<open>policy.go\<close>, \<open>clientip.go\<close>, the capture of
    bodies and the rewriting of requests in \<open>handler.go\<close>, and \<open>transport.go\<close>.
  \<^item> \<open>Proxy\<close>: \<open>ServeHTTP\<close> and \<open>RoundTrip\<close> of \<open>handler.go\<close> as small steps of one request (\<open>serve_step\<close>)
    on the state the requests share (\<open>shared\<close>), one step per atomic operation or critical section.
  \<^item> \<open>ProxyInv\<close>, \<open>ProxyProps\<close>, \<open>ProxyFlow\<close>, \<open>ProxySafe\<close>, \<open>CacheSafe\<close>: all requests of a handler at once
    (\<open>system\<close>, \<open>sys_step\<close>), interleaved with probes and the retirement of the handler.
  \<^item> \<open>NewHandler\<close>: \<open>NewHandler\<close> and \<open>runtime.go\<close> of \<open>internal/proxy\<close>: building a handler,
    readiness, inheriting health, \<open>Dynamic\<close>.
  \<^item> \<open>Metrics\<close>, \<open>Observability\<close>: \<open>internal/metrics\<close> and \<open>internal/observability\<close>.
  \<^item> \<open>Admin\<close>, \<open>Server\<close>: \<open>internal/admin\<close>; \<open>internal/server\<close> with certificates, bounded listeners
    and the life of the group of servers.
  \<^item> \<open>Runtime\<close>, \<open>Reloading\<close>: \<open>internal/app\<close>: the reload as one step, and operation by operation.
  \<^item> \<open>Program\<close>, \<open>LoadCheck\<close>: \<open>cmd/goproxy\<close>; \<open>cmd/loadcheck\<close>.

  \<^bold>\<open>How the code is modelled.\<close> A struct is a record and an interface with known implementations a
  datatype; backends live in a heap (\<open>heap\<close>, from addresses to backends), since pools, balancers, requests and
  probes share them. A panic and an error are different values: a request that would
  dereference \<open>nil\<close> has \<open>th_panicked\<close>, and a reload that would is \<^const>\<open>None\<close>. Sequential code is functions, with
  errors as \<^const>\<open>Inl\<close>; concurrent code is automata whose events interleave freely: the handler
  (\<open>sys_step\<close>), the connections of a listener (\<open>listener_step\<close>), the group of servers (\<open>group_step\<close>), the
  runtime over reloads (\<open>runtime_step\<close>, \<open>reload_step\<close>), the reload loop (\<open>program_step\<close>), the workers of the
  load generator (\<open>load_step\<close>). The reading of the clock is an argument of the step that reads it, so
  no property assumes that the clock is monotonic unless it says so.

  \<^bold>\<open>The interfaces\<close> are locales. \<open>balancer\<close> is what a retry asks of a load balancer; round robin, least
  connections and the tagged union of both are its instances. \<open>response_store\<close> is what the handler asks of
  the cache; the LRU store is its instance. \<open>automaton\<close> (a step relation with an invariant) and its extension
  \<open>winding_down\<close> (a measure of the work left) are the contracts of the concurrent parts; the
  listener, the runtime and the reload loop are instances of the first, the group of servers and the workers of
  the load generator of the second.

  \<^bold>\<open>What is shown.\<close> For each request: it never panics and always ends, makes at most the attempts its pool
  allows and repeats only what is repeatable, is reported once, and what it sends upstream carries
  the proxy's own forwarding headers. For each handler, in every interleaving: the slots, active counts, in-flight
  count and capture memory are exact and bounded, nothing is left when no request is, and the cache
  holds and serves only what a shared cache may. For the parts: matching, validation, rate limiting,
  the LRU store, the client identity, the admin guard, the metrics labels, the listeners and the server group
  each against a specification that does not mention the code. For the program: a reload is all or nothing, and what must hold
  holds between any two of its operations; the running servers are always those of the active
  configuration; and every generation of handlers stays sound while it drains. Where the code does not do what it means to do there is a lemma
  that exhibits it: \<open>early_readmission\<close>, \<open>ancient_expires_with_age_is_cached\<close>, \<open>shadowed_route_accepted\<close>,
  \<open>retry_path_doubles\<close>, \<open>leak_run_end\<close>, \<open>passive_ejection_unreported\<close>, \<open>stale_probe_overrides_gauge\<close>,
  \<open>gauge_goes_stale\<close>.

  \<^bold>\<open>Bounds.\<close> There is no fuel: the eviction loop of the cache is a partial function that is shown to return, and
  all other loops are structural recursions. Properties that add sizes assume that twice the cache bound fits
  in an \<open>int64\<close> (\<open>2 * c_max_bytes \<le> max_int64\<close>), since the code adds a size to a sum before it compares; the
  code validates only that the bound is positive. The in-flight count, the active counts and the balancers' counters wrap as in the code.

  \<^bold>\<open>What is taken as a parameter\<close>: the YAML decoder, URL parsing, the cleaning of queries, HTTP dates, X.509
  and PEM, DNS and sockets, \<open>httputil.ReverseProxy\<close>'s transport (its answers are inputs of the steps), the router
  \<open>chi\<close> (with what it documents as hypothesis), the formatting and parsing of floats.

  \<^bold>\<open>What is simplified.\<close> The zones of IPv6 addresses are left out. In a request the active count of a
  backend and its gauge change in one step; the code does it in three operations, which \<open>ActiveGauge\<close>
  interleaves. The reports
  a health checker makes when it starts are one step. Two empty lists are equal, where \<open>reflect.DeepEqual\<close> tells \<open>nil\<close> from empty. The
  identifier of a request is an argument. Bodies are read in the chunks that the
  inputs of a step give. Strings are bytes, and case folding is that of ASCII.

  \<^bold>\<open>Not modelled.\<close> The unmarshalling of durations and the strict decoding of documents (both are the YAML
  package's), the printing of the load check's summary, flag parsing and signal registration (effects of the
  standard library with no state of the program's own), and the upstream server in \<open>test/fixtures\<close>.
\<close>

end
